(* ===== verification/Prelude.thy ===== *)
theory Prelude
  imports Main "HOL-Library.Word"
begin

text \<open>
  The shared vocabulary of the development: the machine integers of
  \<^verbatim>\<open>src/arch/x64/include/types.hpp\<close> as words, the faults that end a computation of the
  kernel (a call of \<^verbatim>\<open>Panic\<close>, a failed \<^verbatim>\<open>assert\<close>, a hardware fault), the error-passing
  composition of fallible operations, and the generic facts on words, masks and lists
  that the component theories use.
\<close>

unbundle bit_operations_syntax

section \<open>Machine integers\<close>

type_synonym u8 = "8 word"
type_synonym u16 = "16 word"
type_synonym u32 = "32 word"
type_synonym u64 = "64 word"
type_synonym PhysAddr = u64
type_synonym PhysSize = u64
type_synonym VirtAddr = u64

section \<open>Faults and fallible operations\<close>

text \<open>
  \<^verbatim>\<open>Panic\<close> never returns, and a failed \<^verbatim>\<open>assert\<close> calls it (\<^verbatim>\<open>src/util/assert.hpp\<close>), so
  both are values of a fault type that ends the computation. The hardware faults are
  those that a dereference in the modelled code can raise.
\<close>

datatype fault =
    Panic string
  | AssertFail string
  | PageFault u64
  | NullDeref
  | DivideError

type_synonym 'a res = "fault + 'a"

definition bindE :: "'e + 'a \<Rightarrow> ('a \<Rightarrow> 'e + 'b) \<Rightarrow> 'e + 'b" where
  "bindE x f = (case x of Inl e \<Rightarrow> Inl e | Inr a \<Rightarrow> f a)"

definition assertE :: "bool \<Rightarrow> string \<Rightarrow> unit res" where
  "assertE b msg = (if b then Inr () else Inl (AssertFail msg))"

lemma bindE_simps [simp]:
  "bindE (Inl e) f = Inl e"
  "bindE (Inr a) f = f a"
  by (simp_all add: bindE_def)

lemma bindE_Inr_iff: "bindE x f = Inr b \<longleftrightarrow> (\<exists>a. x = Inr a \<and> f a = Inr b)"
  by (cases x) simp_all

lemma bindE_InrE [elim!]:
  assumes "bindE x f = Inr b"
  obtains a where "x = Inr a" and "f a = Inr b"
  using assms by (auto simp: bindE_Inr_iff)

lemma bindE_cong [fundef_cong]:
  "x = y \<Longrightarrow> (\<And>a. y = Inr a \<Longrightarrow> f a = g a) \<Longrightarrow> bindE x f = bindE y g"
  by (cases y) auto

lemma bindE_assoc: "bindE (bindE x f) g = bindE x (\<lambda>a. bindE (f a) g)"
  by (cases x) simp_all

lemma assertE_simps [simp]:
  "assertE True msg = Inr ()"
  "assertE False msg = Inl (AssertFail msg)"
  by (simp_all add: assertE_def)

lemma assertE_Inr_iff [simp]: "assertE b msg = Inr u \<longleftrightarrow> b"
  by (simp add: assertE_def)

section \<open>Words and masks\<close>

named_theorems mask_consts \<open>the bit masks of the source as \<open>mask n\<close> and its complement\<close>

lemma mask_const_9 [mask_consts]: "(0x1ff :: u64) = mask 9"
  by (simp add: mask_eq_exp_minus_1)

lemma mask_const_12 [mask_consts]: "(0xfff :: u64) = mask 12"
  by (simp add: mask_eq_exp_minus_1)

lemma mask_const_48 [mask_consts]: "(0xFFFFFFFFFFFF :: u64) = mask 48"
  by (simp add: mask_eq_exp_minus_1)

lemma mask_const_top39 [mask_consts]: "(0xFFFFFF8000000000 :: u64) = NOT (mask 39)"
  by (simp add: mask_eq_exp_minus_1)

lemma mask_const_top30 [mask_consts]: "(0xFFFFFFFFC0000000 :: u64) = NOT (mask 30)"
  by (simp add: mask_eq_exp_minus_1)

lemma mask_const_top21 [mask_consts]: "(0xFFFFFFFFFFE00000 :: u64) = NOT (mask 21)"
  by (simp add: mask_eq_exp_minus_1)

lemma mask_const_top12 [mask_consts]: "(0xFFFFFFFFFFFFF000 :: u64) = NOT (mask 12)"
  by (simp add: mask_eq_exp_minus_1)

lemma mask_const_frame12 [mask_consts]: "(0x7ffffffffffff000 :: u64) = mask 63 AND NOT (mask 12)"
  by (simp add: mask_eq_exp_minus_1)

lemma mask_const_frame21 [mask_consts]: "(0x7fffffffffe00000 :: u64) = mask 63 AND NOT (mask 21)"
  by (simp add: mask_eq_exp_minus_1)

lemma mask_const_7 [mask_consts]: "(7 :: u64) = mask 3"
  by (simp add: mask_eq_exp_minus_1)

named_theorems bit_consts \<open>the bits of the single-bit flags of the source\<close>

lemma bit_exp_const: "(c :: u64) = 2 ^ k \<Longrightarrow> k < 64 \<Longrightarrow> bit c n \<longleftrightarrow> n = k"
  by (auto simp: bit_exp_iff)

lemma bit_const_1 [bit_consts]: "bit (1 :: u64) n \<longleftrightarrow> n = 0"
  by (rule bit_exp_const) simp_all

lemma bit_const_2 [bit_consts]: "bit (2 :: u64) n \<longleftrightarrow> n = 1"
  by (rule bit_exp_const) simp_all

lemma bit_const_4 [bit_consts]: "bit (4 :: u64) n \<longleftrightarrow> n = 2"
  by (rule bit_exp_const) simp_all

lemma bit_const_80 [bit_consts]: "bit (0x80 :: u64) n \<longleftrightarrow> n = 7"
  by (rule bit_exp_const) simp_all

lemma bit_const_100 [bit_consts]: "bit (0x100 :: u64) n \<longleftrightarrow> n = 8"
  by (rule bit_exp_const) simp_all

lemma bit_const_200 [bit_consts]: "bit (0x200 :: u64) n \<longleftrightarrow> n = 9"
  by (rule bit_exp_const) simp_all

lemma bit_const_NX [bit_consts]: "bit (0x8000000000000000 :: u64) n \<longleftrightarrow> n = 63"
  by (rule bit_exp_const) simp_all

lemma and_exp_eq_0: "(x :: u64) AND 2 ^ k = 0 \<longleftrightarrow> \<not> bit x k"
  using and_exp_eq_0_iff_not_bit by blast

lemma and_flag_eq_0: "(c :: u64) = 2 ^ k \<Longrightarrow> x AND c = 0 \<longleftrightarrow> \<not> bit x k"
  by (simp add: and_exp_eq_0)

lemma and_flags_eq_0 [bit_consts]:
  "(x :: u64) AND 1 = 0 \<longleftrightarrow> \<not> bit x 0"
  "(x :: u64) AND 2 = 0 \<longleftrightarrow> \<not> bit x 1"
  "(x :: u64) AND 0x80 = 0 \<longleftrightarrow> \<not> bit x 7"
  "(x :: u64) AND 0x200 = 0 \<longleftrightarrow> \<not> bit x 9"
  "(x :: u64) AND 0x8000000000000000 = 0 \<longleftrightarrow> \<not> bit x 63"
  by (rule and_flag_eq_0, simp)+

lemma unat_less_2p: "unat (x :: 'a::len word) < 2 ^ LENGTH('a)"
  by (rule unsigned_less)

lemma unat_minus_1_u64 [simp]: "unat (- 1 :: u64) = 0xFFFFFFFFFFFFFFFF"
  by (simp add: unsigned_minus_1_eq_mask mask_eq_exp_minus_1)

lemma unat_uminus: "x \<noteq> 0 \<Longrightarrow> unat (- x) = 2 ^ 64 - unat x" for x :: u64
proof -
  assume x: "x \<noteq> 0"
  have "- x = - 1 - (x - 1)" by simp
  moreover have "x - 1 \<le> - 1" by simp
  ultimately have "unat (- x) = unat (- 1 :: u64) - unat (x - 1)"
    by (metis unat_sub)
  moreover have "unat (x - 1) = unat x - 1" "0 < unat x" using x by (simp_all add: unat_minus_one unat_gt_0)
  ultimately show ?thesis by simp
qed

lemma bit_less_exp: "unat (x :: 'a::len word) < 2 ^ k \<Longrightarrow> bit x n \<Longrightarrow> n < k"
proof -
  assume "unat x < 2 ^ k" and b: "bit x n"
  then have "take_bit k (unat x) = unat x" by (simp add: take_bit_nat_eq_self)
  moreover have "unat (take_bit k x) = take_bit k (unat x)" by (rule unsigned_take_bit_eq)
  ultimately have "take_bit k x = x" by (simp add: word_unat_eq_iff)
  with b show "n < k" by (metis bit_take_bit_iff)
qed

lemma bit_aligned: "unat (x :: 'a::len word) mod 2 ^ k = 0 \<Longrightarrow> bit x n \<Longrightarrow> k \<le> n"
proof (rule ccontr)
  assume m: "unat x mod 2 ^ k = 0" and b: "bit x n" and n: "\<not> k \<le> n"
  have "unat (take_bit k x) = take_bit k (unat x)" by (rule unsigned_take_bit_eq)
  then have "take_bit k x = 0" using m by (simp add: take_bit_eq_mod unat_eq_0)
  moreover have "bit (take_bit k x) n" using b n by (simp add: bit_take_bit_iff)
  ultimately show False by simp
qed

lemma word_and_mask_eq_mod: "unat ((x :: 'a::len word) AND mask n) = unat x mod 2 ^ n"
proof -
  have "unat (take_bit n x) = take_bit n (unat x)"
    by (rule unsigned_take_bit_eq)
  then show ?thesis
    by (simp only: take_bit_eq_mask [symmetric] take_bit_eq_mod [of n "unat x"])
qed

section \<open>Rounding up\<close>

lemma round_up_nat: "0 < n \<Longrightarrow> x + (n - x mod n) = n * (x div n + 1)" for x n :: nat
proof -
  assume "0 < n"
  then have "x mod n < n" by simp
  moreover have "x = n * (x div n) + x mod n" by simp
  ultimately show ?thesis by (metis add.assoc add.right_neutral distrib_left le_add_diff_inverse
      less_imp_le mult.right_neutral)
qed

lemma round_up:
  assumes "unat a \<le> 2 ^ 52" "0 < unat align" "unat align \<le> 2 ^ 60" and "a mod align \<noteq> 0"
  shows "(a :: u64) \<le> a + (align - a mod align) \<and> (a + (align - a mod align)) mod align = 0"
proof -
  have m: "unat (a mod align) < unat align" using assms(2) by (simp add: unat_mod)
  then have d: "unat (align - a mod align) = unat align - unat (a mod align)"
    by (simp add: unat_sub word_le_nat_alt)
  have s: "unat (a + (align - a mod align)) = unat a + (unat align - unat (a mod align))"
    using assms(1,3) m d by (subst unat_add_lem [THEN iffD1]) simp_all
  have "unat a + (unat align - unat a mod unat align) = unat align * (unat a div unat align + 1)"
    using round_up_nat [of "unat align" "unat a"] assms(2) by simp
  with s have "(a + (align - a mod align)) mod align = 0"
    by (simp add: word_unat_eq_iff unat_mod)
  with s show ?thesis by (simp add: word_le_nat_alt)
qed

end
