(* ===== verification/Critical.thy ===== *)
theory Critical
  imports Prelude
begin

text \<open>
  Critical sections (\<^verbatim>\<open>src/arch/x64/critical/functions.cpp\<close>,
  \<^verbatim>\<open>src/util/critical.cpp\<close>, \<^verbatim>\<open>src/util/critical.hpp\<close>): whether the criticality module is
  initialised, and the interrupt flag of the executing CPU. The state is an argument of
  every operation that asserts its criticality.
\<close>

record crit =
  crit_initialized :: bool
  rflags :: u64

definition IgnoreCriticality :: "crit \<Rightarrow> bool" where
  "IgnoreCriticality c \<longleftrightarrow> \<not> crit_initialized c"

definition GetCritical :: "crit \<Rightarrow> bool" where
  "GetCritical c = (if IgnoreCriticality c then True else rflags c AND push_bit 9 1 = 0)"

text \<open>\<^verbatim>\<open>cli\<close> clears and \<^verbatim>\<open>sti\<close> sets bit 9 of RFLAGS.\<close>

definition SetCritical :: "bool \<Rightarrow> crit \<Rightarrow> crit" where
  "SetCritical flag c =
     (if IgnoreCriticality c then c
      else if flag then c\<lparr>rflags := unset_bit 9 (rflags c)\<rparr>
      else c\<lparr>rflags := set_bit 9 (rflags c)\<rparr>)"

definition AssertCritical :: "crit \<Rightarrow> unit res" where
  "AssertCritical c = assertE (IgnoreCriticality c \<or> GetCritical c) ''AssertCritical''"

definition AssertNoncritical :: "crit \<Rightarrow> unit res" where
  "AssertNoncritical c = assertE (IgnoreCriticality c \<or> \<not> GetCritical c) ''AssertNoncritical''"

text \<open>The constructor returns \<^verbatim>\<open>wasCritical\<close>, which the destructor reads.\<close>

definition ScopedCritical_new :: "crit \<Rightarrow> bool \<times> crit" where
  "ScopedCritical_new c =
     (let wasCritical = GetCritical c
      in (wasCritical, if \<not> wasCritical then SetCritical True c else c))"

definition ScopedCritical_del :: "bool \<Rightarrow> crit \<Rightarrow> crit" where
  "ScopedCritical_del wasCritical c = (if \<not> wasCritical then SetCritical False c else c)"

section \<open>Properties\<close>

definition noncritical :: "crit \<Rightarrow> bool" where
  "noncritical c \<longleftrightarrow> IgnoreCriticality c \<or> \<not> GetCritical c"

lemma AssertNoncritical_ok [simp]: "noncritical c \<Longrightarrow> AssertNoncritical c = Inr ()"
  by (simp add: AssertNoncritical_def noncritical_def)

lemma AssertNoncritical_Inr [simp]: "AssertNoncritical c = Inr u \<longleftrightarrow> noncritical c"
  by (simp add: AssertNoncritical_def noncritical_def)

lemmas crit_defs = GetCritical_def SetCritical_def IgnoreCriticality_def AssertCritical_def
  AssertNoncritical_def noncritical_def ScopedCritical_new_def ScopedCritical_del_def bit_consts

lemma GetCritical_SetCritical [simp]:
  "crit_initialized c \<Longrightarrow> GetCritical (SetCritical b c) = b"
  by (auto simp: crit_defs bit_set_bit_iff bit_unset_bit_iff)

lemma crit_initialized_SetCritical [simp]:
  "crit_initialized (SetCritical b c) = crit_initialized c"
  by (simp add: crit_defs)

lemma rflags_sti_cli: "bit (x :: u64) 9 \<Longrightarrow> set_bit 9 (unset_bit 9 x) = x"
  by (rule bit_word_eqI) (auto simp: bit_set_bit_iff bit_unset_bit_iff)

text \<open>
  C33. A ScopedCritical makes the code it encloses critical and, when it goes out of scope,
  leaves the CPU's flags exactly as they were, whether or not the section was already
  critical and whether or not the module is initialised.
\<close>

theorem ScopedCritical_restores:
  assumes "ScopedCritical_new c = (was, c')"
  shows "AssertCritical c' = Inr () \<and> ScopedCritical_del was c' = c"
  using assms
  by (auto simp: crit_defs Let_def bit_unset_bit_iff rflags_sti_cli split: if_splits)

theorem ScopedCritical_restores_witness:
  "ScopedCritical_new \<lparr>crit_initialized = True, rflags = 0x202\<rparr>
     = (False, \<lparr>crit_initialized = True, rflags = 2\<rparr>)
   \<and> AssertCritical \<lparr>crit_initialized = True, rflags = 2\<rparr> = Inr ()
   \<and> ScopedCritical_del False \<lparr>crit_initialized = True, rflags = 2\<rparr>
       = \<lparr>crit_initialized = True, rflags = 0x202\<rparr>"
proof -
  have h: "ScopedCritical_new \<lparr>crit_initialized = True, rflags = 0x202\<rparr>
     = (False, \<lparr>crit_initialized = True, rflags = 2\<rparr>)"
    by (simp add: ScopedCritical_new_def GetCritical_def SetCritical_def IgnoreCriticality_def)
  show ?thesis using h ScopedCritical_restores [OF h] by simp
qed

end
