(* ===== verification/Mmu.thy ===== *)
theory Mmu
  imports Prelude
begin

text \<open>
  The address translation of the x86-64 processor that the page-table code programs: four
  levels of tables of 512 entries, each entry with a present bit (bit 0), a large-page bit
  (bit 7, in the two middle levels) and a physical frame in bits 12 to 51. Physical memory
  is a function from the address of an 8-byte word to its value. The theory also holds the
  path view of a table tree, on which the frame reasoning of the page-table proofs rests:
  a table is reached from the root by the list of indexes followed, and a write to one
  entry changes only what lies below that entry.
\<close>

type_synonym pmemory = "u64 \<Rightarrow> u64"

definition present :: "u64 \<Rightarrow> bool" where
  "present e \<longleftrightarrow> e AND 1 \<noteq> 0"

definition huge :: "u64 \<Rightarrow> bool" where
  "huge e \<longleftrightarrow> e AND 0x80 \<noteq> 0"

definition pframe :: "u64 \<Rightarrow> u64" where
  "pframe e = e AND 0x000FFFFFFFFFF000"

definition canonical :: "u64 \<Rightarrow> bool" where
  "canonical va \<longleftrightarrow> va \<le> 0x7FFFFFFFFFFF \<or> 0xFFFF800000000000 \<le> va"

text \<open>Level 3 is the PML4, level 0 the last table; the code's depth is 3 minus the level.\<close>

definition pt_index :: "nat \<Rightarrow> u64 \<Rightarrow> u64" where
  "pt_index k va = drop_bit (12 + 9 * k) va AND 0x1ff"

definition entry_at :: "u64 \<Rightarrow> u64 \<Rightarrow> u64" where
  "entry_at t i = t + 8 * i"

definition leaf_addr :: "nat \<Rightarrow> u64 \<Rightarrow> u64 \<Rightarrow> u64" where
  "leaf_addr k e va =
     (pframe e AND NOT (mask (12 + 9 * k))) OR (va AND mask (12 + 9 * k))"

fun mmu_walk :: "pmemory \<Rightarrow> u64 \<Rightarrow> u64 \<Rightarrow> nat \<Rightarrow> u64 option" where
  "mmu_walk m t va 0 =
     (let e = m (entry_at t (pt_index 0 va))
      in if present e then Some (leaf_addr 0 e va) else None)"
| "mmu_walk m t va (Suc k) =
     (let e = m (entry_at t (pt_index (Suc k) va))
      in if \<not> present e then None
         else if huge e then (if k < 2 then Some (leaf_addr (Suc k) e va) else None)
         else mmu_walk m (pframe e) va k)"

definition mmu_translate :: "pmemory \<Rightarrow> u64 \<Rightarrow> u64 \<Rightarrow> u64 option" where
  "mmu_translate m root va =
     (if canonical va then mmu_walk m (pframe root) va 3 else None)"

definition zero_page :: "pmemory \<Rightarrow> u64 \<Rightarrow> pmemory" where
  "zero_page m p = (\<lambda>a. if a AND NOT (mask 12) = p then 0 else m a)"

section \<open>Tables by path\<close>

fun tab :: "pmemory \<Rightarrow> u64 \<Rightarrow> u64 list \<Rightarrow> u64 option" where
  "tab m t [] = Some t"
| "tab m t (i # is) =
     (let e = m (entry_at t i)
      in if present e \<and> \<not> huge e then tab m (pframe e) is else None)"

definition vpath :: "u64 \<Rightarrow> nat \<Rightarrow> u64 list" where
  "vpath va d = map (\<lambda>j. pt_index (3 - j) va) [0..<d]"

text \<open>The last PML4 slot of a fractal table points back at the PML4.\<close>

definition fractal :: "pmemory \<Rightarrow> u64 \<Rightarrow> bool" where
  "fractal m r \<longleftrightarrow> pframe r = r \<and>
     (let e = m (entry_at r 0x1ff) in present e \<and> \<not> huge e \<and> pframe e = r)"

lemma tab_snoc:
  "tab m t (p @ [i]) =
     (case tab m t p of None \<Rightarrow> None
      | Some u \<Rightarrow> (let e = m (entry_at u i)
                 in if present e \<and> \<not> huge e then Some (pframe e) else None))"
  by (induction p arbitrary: t) (auto simp: Let_def split: option.splits)

lemma tab_append:
  "tab m t (p @ q) = (case tab m t p of None \<Rightarrow> None | Some u \<Rightarrow> tab m u q)"
  by (induction p arbitrary: t) (auto simp: Let_def)

lemma tab_snoc_Some:
  "tab m t (p @ [i]) = Some u \<longleftrightarrow>
     (\<exists>v. tab m t p = Some v \<and> present (m (entry_at v i)) \<and> \<not> huge (m (entry_at v i))
        \<and> pframe (m (entry_at v i)) = u)"
  by (auto simp: tab_snoc Let_def split: option.splits if_splits)

lemma tab_fractal: "fractal m r \<Longrightarrow> tab m r (0x1ff # p) = tab m r p"
  by (simp add: fractal_def Let_def)

lemma length_vpath [simp]: "length (vpath va d) = d"
  by (simp add: vpath_def)

lemma vpath_Suc: "vpath va (Suc d) = vpath va d @ [pt_index (3 - d) va]"
  by (simp add: vpath_def)

lemma vpath_0 [simp]: "vpath va 0 = []"
  by (simp add: vpath_def)

section \<open>Frames and entry addresses\<close>

definition is_frame :: "u64 \<Rightarrow> bool" where
  "is_frame f \<longleftrightarrow> pframe f = f"

lemma pframe_mask: "pframe e = e AND (mask 52 AND NOT (mask 12))"
  by (simp add: pframe_def mask_eq_exp_minus_1)

lemma pframe_pframe [simp]: "pframe (pframe e) = pframe e"
  unfolding pframe_mask by (rule bit_word_eqI) (auto simp: bit_simps)

lemma is_frame_pframe [simp, intro]: "is_frame (pframe e)"
  by (simp add: is_frame_def)

lemma is_frame_tab: "is_frame t \<Longrightarrow> tab m t p = Some u \<Longrightarrow> is_frame u"
  by (induction p arbitrary: t) (auto simp: Let_def split: if_splits)

lemma pt_index_less: "pt_index k va < 512"
proof -
  have "pt_index k va \<le> 0x1ff"
    unfolding pt_index_def by (rule word_and_le1)
  also have "(0x1ff :: u64) < 512" by simp
  finally show ?thesis .
qed

lemma is_frame_bit: "is_frame f \<Longrightarrow> bit f n \<Longrightarrow> 12 \<le> n \<and> n < 52"
  unfolding is_frame_def pframe_mask by (metis bit_and_iff bit_mask_iff bit_not_iff not_le)

lemma index_bit: "i < 512 \<Longrightarrow> bit i n \<Longrightarrow> n < 9" for i :: u64
  by (rule bit_less_exp) (simp_all add: word_less_nat_alt)

lemma aligned_is_frame: "unat f mod 0x1000 = 0 \<Longrightarrow> unat f < 2 ^ 52 \<Longrightarrow> is_frame f"
  unfolding is_frame_def pframe_mask
  using bit_less_exp [of f 52] bit_aligned [of f 12]
  by (intro bit_word_eqI) (auto simp: bit_simps not_less)

lemma frame_bounds:
  assumes "is_frame f"
  shows "unat f mod 0x1000 = 0" "unat f + 0x1000 \<le> 2 ^ 52"
proof -
  have lo: "take_bit 12 f = 0"
    by (rule bit_word_eqI) (auto simp: bit_simps dest: is_frame_bit [OF assms])
  have "take_bit 12 (unat f) = unat (take_bit 12 f)" by (rule unsigned_take_bit_eq [symmetric])
  then show m: "unat f mod 0x1000 = 0" using lo by (simp add: take_bit_eq_mod)
  have "take_bit 52 f = f"
    by (rule bit_word_eqI) (auto simp: bit_simps dest: is_frame_bit [OF assms])
  then have "unat f mod 2 ^ 52 = unat f" by (metis unsigned_take_bit_eq take_bit_eq_mod)
  then have "unat f < 2 ^ 52" by (metis mod_less_divisor zero_less_numeral zero_less_power)
  moreover from m obtain q where "unat f = 0x1000 * q" by (auto simp: mod_eq_0_iff_dvd elim: dvdE)
  ultimately show "unat f + 0x1000 \<le> 2 ^ 52" by simp
qed

lemma entry_at_or:
  assumes "is_frame t" and "i < 512"
  shows "entry_at t i = t OR push_bit 3 i"
proof -
  have "t AND push_bit 3 i = 0"
    using is_frame_bit [OF assms(1)] index_bit [OF assms(2)]
    by (intro bit_word_eqI) (fastforce simp: bit_simps)
  then show ?thesis
    by (simp add: entry_at_def push_bit_eq_mult disjunctive_add_eq_or mult.commute)
qed

lemma bit_entry_at:
  assumes "is_frame t" and "i < 512"
  shows "bit (entry_at t i) n \<longleftrightarrow> (if n < 12 then 3 \<le> n \<and> bit i (n - 3) else bit t n)"
  using is_frame_bit [OF assms(1), of n] index_bit [OF assms(2), of "n - 3"]
  by (auto simp: entry_at_or [OF assms] bit_simps)

lemma pframe_entry_at:
  assumes "is_frame t" and "i < 512"
  shows "pframe (entry_at t i) = t"
  by (rule bit_word_eqI)
    (auto simp: pframe_mask bit_and_iff bit_not_iff bit_mask_iff bit_entry_at [OF assms]
      dest: is_frame_bit [OF assms(1)])

lemma entry_at_inj:
  assumes "is_frame t" "is_frame u" "i < 512" "j < 512"
    and "entry_at t i = entry_at u j"
  shows "t = u \<and> i = j"
proof
  show "t = u"
    using pframe_entry_at [OF assms(1,3)] pframe_entry_at [OF assms(2,4)] assms(5) by simp
  have "bit i n = bit j n" if "n < 9" for n
    using bit_entry_at [OF assms(1,3), of "n + 3"] bit_entry_at [OF assms(2,4), of "n + 3"]
      assms(5) that by simp
  then show "i = j"
    using index_bit [OF assms(3)] index_bit [OF assms(4)] by (intro bit_word_eqI) blast
qed

lemma page_base_entry_at:
  assumes "is_frame t" and "i < 512"
  shows "entry_at t i AND NOT (mask 12) = t"
  by (rule bit_word_eqI)
    (auto simp: bit_and_iff bit_not_iff bit_mask_iff bit_entry_at [OF assms]
      dest: is_frame_bit [OF assms(1)])

section \<open>Separation of tables and the frame of a write\<close>

text \<open>Paths of at most three indexes that do not enter the fractal slot.\<close>

definition user_path :: "u64 list \<Rightarrow> bool" where
  "user_path p \<longleftrightarrow> length p \<le> 3 \<and> (\<forall>i \<in> set p. i < 512) \<and> (p \<noteq> [] \<longrightarrow> hd p \<noteq> 0x1ff)"

definition user_va :: "u64 \<Rightarrow> bool" where
  "user_va va \<longleftrightarrow> pt_index 3 va \<noteq> 0x1ff"

definition sep :: "pmemory \<Rightarrow> u64 \<Rightarrow> bool" where
  "sep m r \<longleftrightarrow> is_frame r \<and>
     (\<forall>p q t. user_path p \<and> user_path q \<and> tab m r p = Some t \<and> tab m r q = Some t \<longrightarrow> p = q)"

lemma sepD:
  "sep m r \<Longrightarrow> user_path p \<Longrightarrow> user_path q \<Longrightarrow> tab m r p = Some t \<Longrightarrow> tab m r q = Some t \<Longrightarrow> p = q"
  by (auto simp: sep_def)

lemma sep_frame: "sep m r \<Longrightarrow> tab m r p = Some t \<Longrightarrow> is_frame t"
  by (auto simp: sep_def intro: is_frame_tab)

lemma user_path_Nil [simp]: "user_path []"
  by (simp add: user_path_def)

lemma user_path_snocD: "user_path (q @ [j]) \<Longrightarrow> user_path q \<and> j < 512"
  by (cases q) (auto simp: user_path_def)

lemma user_path_vpath: "user_va va \<Longrightarrow> d \<le> 3 \<Longrightarrow> user_path (vpath va d)"
  by (cases d) (auto simp: user_path_def user_va_def vpath_def pt_index_less hd_map upt_rec)

lemma tab_upd_other:
  assumes sp: "sep m r" and p: "user_path p" "tab m r p = Some t" and i: "i < 512"
    and q: "user_path q" "take (Suc (length p)) q \<noteq> p @ [i]"
  shows "tab (m(entry_at t i := e)) r q = tab m r q"
  using q
proof (induction q rule: rev_induct)
  case Nil
  then show ?case by simp
next
  case (snoc j q)
  from snoc.prems(1) have q: "user_path q" and j: "j < 512"
    by (auto dest: user_path_snocD)
  have IH: "tab (m(entry_at t i := e)) r q = tab m r q"
    using snoc.prems by (intro snoc.IH q) auto
  show ?case
  proof (cases "tab m r q")
    case None
    then show ?thesis unfolding tab_snoc IH by simp
  next
    case (Some u)
    have "entry_at u j \<noteq> entry_at t i"
    proof
      assume eq: "entry_at u j = entry_at t i"
      have "u = t \<and> j = i"
        by (rule entry_at_inj [OF sep_frame [OF sp Some] sep_frame [OF sp p(2)] j i eq])
      with sepD [OF sp q p(1) Some] p(2) snoc.prems(2) show False by simp
    qed
    with Some show ?thesis unfolding tab_snoc IH by simp
  qed
qed

lemma entry_upd_other:
  assumes "sep m r" "user_path p" "tab m r p = Some t" "i < 512"
    and "user_path q" "tab m r q = Some u" "j < 512" "q @ [j] \<noteq> p @ [i]"
  shows "entry_at u j \<noteq> entry_at t i"
  using assms entry_at_inj [OF sep_frame [OF assms(1,6)] sep_frame [OF assms(1,3)] assms(7,4)]
  by (auto dest: sepD)

section \<open>Translation from the tables on the path\<close>

lemma mmu_walk_tab:
  "tab m r (vpath va d) = Some t \<Longrightarrow> d \<le> 3 \<Longrightarrow> mmu_walk m r va 3 = mmu_walk m t va (3 - d)"
proof (induction d arbitrary: t)
  case 0
  then show ?case by simp
next
  case (Suc d)
  then obtain u where u: "tab m r (vpath va d) = Some u"
    and e: "present (m (entry_at u (pt_index (3 - d) va)))"
      "\<not> huge (m (entry_at u (pt_index (3 - d) va)))"
      "pframe (m (entry_at u (pt_index (3 - d) va))) = t"
    by (auto simp: vpath_Suc tab_snoc_Some)
  have "3 - d = Suc (3 - Suc d)" using Suc.prems(2) by simp
  moreover have "mmu_walk m r va 3 = mmu_walk m u va (3 - d)"
    using Suc.IH [OF u] Suc.prems(2) by simp
  ultimately show ?case using e by (simp add: Let_def)
qed

lemma mmu_walk_cong_aux:
  assumes "\<And>d t. d \<le> 3 \<Longrightarrow> tab m r (vpath va d) = Some t \<Longrightarrow>
      m' (entry_at t (pt_index (3 - d) va)) = m (entry_at t (pt_index (3 - d) va))"
  shows "k \<le> 3 \<Longrightarrow> tab m r (vpath va (3 - k)) = Some t \<Longrightarrow>
      mmu_walk m' t va k = mmu_walk m t va k"
proof (induction k arbitrary: t)
  case 0
  then show ?case using assms [of 3 t] by simp
next
  case (Suc k)
  let ?e = "m (entry_at t (pt_index (Suc k) va))"
  have k: "3 - (3 - Suc k) = Suc k" "3 - k = Suc (3 - Suc k)" using Suc.prems(1) by auto
  have e: "m' (entry_at t (pt_index (Suc k) va)) = ?e"
    using assms [of "3 - Suc k" t] Suc.prems k(1) by simp
  show ?case
  proof (cases "present ?e \<and> \<not> huge ?e")
    case True
    have "tab m r (vpath va (3 - k)) = Some (pframe ?e)"
      using Suc.prems True unfolding k(2) vpath_Suc k(1) by (simp add: tab_snoc)
    then show ?thesis using Suc.IH Suc.prems(1) e by (simp add: Let_def)
  next
    case False
    then show ?thesis using e by (auto simp: Let_def)
  qed
qed

lemma mmu_walk_cong:
  assumes "\<And>d t. d \<le> 3 \<Longrightarrow> tab m r (vpath va d) = Some t \<Longrightarrow>
      m' (entry_at t (pt_index (3 - d) va)) = m (entry_at t (pt_index (3 - d) va))"
  shows "mmu_walk m' r va 3 = mmu_walk m r va 3"
  using mmu_walk_cong_aux [of m r va m' 3 r] assms by simp

lemma mmu_walk_leaf:
  assumes "tab m r (vpath va d) = Some t" and "d \<le> 3"
    and "present e" and "d < 3 \<Longrightarrow> huge e \<and> 1 \<le> d"
    and "m (entry_at t (pt_index (3 - d) va)) = e"
  shows "mmu_walk m r va 3 = Some (leaf_addr (3 - d) e va)"
proof (cases "d = 3")
  case False
  with assms(2,4) have "3 - d = Suc (2 - d)" "2 - d < 2" by auto
  then show ?thesis using mmu_walk_tab [OF assms(1,2)] False assms by (simp add: Let_def)
qed (use mmu_walk_tab [OF assms(1,2)] assms in \<open>simp add: Let_def\<close>)

lemma mmu_walk_hole:
  assumes "tab m r (vpath va d) = Some t" and "d \<le> 3"
    and "\<not> present (m (entry_at t (pt_index (3 - d) va)))"
  shows "mmu_walk m r va 3 = None"
  using mmu_walk_tab [OF assms(1,2)] assms(3) by (cases "3 - d") (simp_all add: Let_def)

lemma mmu_walk_top_huge:
  "huge (m (entry_at t (pt_index 3 va))) \<Longrightarrow> mmu_walk m t va 3 = None"
  using mmu_walk.simps(2) [of m t va 2] by (simp add: Let_def)

section \<open>The fractal window\<close>

text \<open>
  Translating an address whose leading indexes are the fractal slot shows the tables
  themselves: the walk spends its first \<open>4 - d\<close> levels on the slot, so its leaf is the
  table of depth \<open>d\<close>.
\<close>

lemma pt_index_le3: "vpath v 4 = [pt_index 3 v, pt_index 2 v, pt_index 1 v, pt_index 0 v]"
  by (simp add: vpath_def upt_rec)

lemma mmu_walk_path3:
  assumes "tab m r [pt_index 3 v, pt_index 2 v, pt_index 1 v] = Some t"
    and "present (m (entry_at t (pt_index 0 v)))"
  shows "mmu_walk m r v 3 = Some (leaf_addr 0 (m (entry_at t (pt_index 0 v))) v)"
proof -
  have "vpath v 3 = [pt_index 3 v, pt_index 2 v, pt_index 1 v]"
    by (simp add: vpath_def upt_rec)
  with assms show ?thesis
    using mmu_walk_leaf [of m r v 3 t "m (entry_at t (pt_index 0 v))"] by simp
qed

lemma pframe_and_top [simp]: "pframe e AND NOT (mask 12) = pframe e"
  by (rule bit_word_eqI) (auto simp: pframe_mask bit_and_iff bit_not_iff bit_mask_iff)

lemma leaf_addr_0: "leaf_addr 0 e v = pframe e OR (v AND mask 12)"
  by (simp add: leaf_addr_def)

lemma fractal_slot: "fractal m r \<Longrightarrow> present (m (entry_at r 0x1ff)) \<and> pframe (m (entry_at r 0x1ff)) = r"
  by (simp add: fractal_def Let_def)

text \<open>An address whose four indexes are \<open>4 - d\<close> times the slot and then the path of \<open>va\<close>.\<close>

lemma fractal_walk:
  assumes fr: "fractal m r" and t: "tab m r (vpath va d) = Some t" and d: "d \<le> 3"
    and v: "vpath v 4 = replicate (4 - d) 0x1ff @ vpath va d"
  shows "mmu_walk m r v 3 = Some (t OR (v AND mask 12))"
proof -
  have idx: "[pt_index 3 v, pt_index 2 v, pt_index 1 v, pt_index 0 v] =
      replicate (4 - d) 0x1ff @ vpath va d"
    using v by (simp add: pt_index_le3)
  note slot = tab_fractal [OF fr] fractal_slot [OF fr]
  obtain u where u: "tab m r [pt_index 3 v, pt_index 2 v, pt_index 1 v] = Some u"
    and e: "present (m (entry_at u (pt_index 0 v)))" "pframe (m (entry_at u (pt_index 0 v))) = t"
  proof (cases d)
    case 0
    then show ?thesis using idx t slot by (intro that) (auto simp: numeral_eq_Suc)
  next
    case (Suc d')
    then obtain u where "tab m r (vpath va d') = Some u"
      and "present (m (entry_at u (pt_index (3 - d') va)))"
        "pframe (m (entry_at u (pt_index (3 - d') va))) = t"
      using t by (auto simp: vpath_Suc tab_snoc_Some)
    moreover have "[pt_index 3 v, pt_index 2 v, pt_index 1 v] = replicate (4 - d) 0x1ff @ vpath va d'"
      "pt_index 0 v = pt_index (3 - d') va"
      using idx Suc by (simp_all add: vpath_Suc append_eq_append_conv2 flip: append_assoc)
    moreover have "tab m r (replicate n 0x1ff @ p) = tab m r p" for n p
      by (induction n) (simp_all add: slot del: tab.simps(2))
    ultimately show ?thesis by (intro that) simp_all
  qed
  show ?thesis
    using mmu_walk_path3 [OF u e(1)] e(2) by (simp add: leaf_addr_0)
qed

end
