(* ===== verification/Allocator.thy ===== *)
theory Allocator
  imports Prelude Mmu
begin

text \<open>
  The interface of a physical allocator (\<^verbatim>\<open>src/arch/api/allocator.hpp\<close>): a class of
  virtual methods, so a record of functions on the state of the object behind it. The
  out-parameter and the boolean result of \<^verbatim>\<open>Alloc\<close> are one optional address. The locale
  states what the page-table code relies on when it asks for a page.
\<close>

record 'a allocator_ops =
  al_Alloc :: "'a \<Rightarrow> PhysSize \<Rightarrow> PhysSize \<Rightarrow> (PhysAddr option \<times> 'a) res"
  al_Free :: "'a \<Rightarrow> PhysAddr \<Rightarrow> 'a res"
  al_Owns :: "'a \<Rightarrow> PhysAddr \<Rightarrow> bool res"
  al_Used :: "'a \<Rightarrow> PhysSize res"
  al_Available :: "'a \<Rightarrow> PhysSize res"
  al_Total :: "'a \<Rightarrow> PhysSize res"

text \<open>
  A page source: asked for an aligned page it hands out a frame it did not hold out
  before, and never faults. \<open>taken\<close> is the set of frames that are not free.
\<close>

locale page_source =
  fixes Alloc :: "'a \<Rightarrow> PhysSize \<Rightarrow> PhysSize \<Rightarrow> (PhysAddr option \<times> 'a) res"
    and invar :: "'a \<Rightarrow> bool"
    and taken :: "'a \<Rightarrow> PhysAddr set"
  assumes page_total: "invar a \<Longrightarrow> \<exists>r a'. Alloc a 0x1000 0x1000 = Inr (r, a')"
    and page_fresh: "invar a \<Longrightarrow> Alloc a 0x1000 0x1000 = Inr (Some f, a') \<Longrightarrow>
        is_frame f \<and> f \<notin> taken a \<and> insert f (taken a) \<subseteq> taken a'"
    and page_invar: "invar a \<Longrightarrow> Alloc a 0x1000 0x1000 = Inr (r, a') \<Longrightarrow> invar a'"
begin

lemma pageE:
  assumes "invar a"
  obtains (none) a' where "Alloc a 0x1000 0x1000 = Inr (None, a')" "invar a'"
  | (some) f a' where "Alloc a 0x1000 0x1000 = Inr (Some f, a')" "invar a'"
      "is_frame f" "f \<notin> taken a" "insert f (taken a) \<subseteq> taken a'"
  using page_total [OF assms] page_fresh [OF assms] page_invar [OF assms]
  by (metis option.exhaust)

text \<open>Two pages taken one after the other are different.\<close>

lemma pages_distinct:
  assumes "invar a" "Alloc a 0x1000 0x1000 = Inr (Some f, b)"
    and "Alloc b 0x1000 0x1000 = Inr (Some g, c)"
  shows "f \<noteq> g"
proof -
  have "f \<in> taken b" using page_fresh [OF assms(1,2)] by blast
  moreover have "g \<notin> taken b"
    using page_fresh [OF page_invar [OF assms(1,2)] assms(3)] by blast
  ultimately show ?thesis by blast
qed

end

text \<open>
  A page pool also takes single pages back: freeing one of the \<open>pages\<close> it handed out
  leaves every other frame taken.
\<close>

locale page_pool = page_source Alloc invar taken
  for Alloc :: "'a \<Rightarrow> PhysSize \<Rightarrow> PhysSize \<Rightarrow> (PhysAddr option \<times> 'a) res" and invar taken +
  fixes Free :: "'a \<Rightarrow> PhysAddr \<Rightarrow> 'a res"
    and pages :: "'a \<Rightarrow> PhysAddr set"
  assumes page_owned: "invar a \<Longrightarrow> Alloc a 0x1000 0x1000 = Inr (Some f, a') \<Longrightarrow>
        insert f (pages a) \<subseteq> pages a'"
    and page_free: "invar a \<Longrightarrow> f \<in> pages a \<Longrightarrow>
        \<exists>a'. Free a f = Inr a' \<and> invar a' \<and> taken a - {f} \<subseteq> taken a' \<and> pages a - {f} \<subseteq> pages a'"
begin

text \<open>A page taken and given back at once leaves the other frames as they were.\<close>

lemma alloc_free:
  assumes "invar a" "Alloc a 0x1000 0x1000 = Inr (Some f, b)"
  shows "\<exists>c. Free b f = Inr c \<and> invar c \<and> taken a \<subseteq> taken c"
proof -
  have "f \<in> pages b" using page_owned [OF assms] by blast
  from page_free [OF page_invar [OF assms] this] show ?thesis
    using page_fresh [OF assms] by blast
qed

end

end
