(* ===== verification/PageTable.thy ===== *)
theory PageTable
  imports Critical Mmu Allocator
begin

text \<open>
  Page tables (\<^verbatim>\<open>src/arch/x64/vmm/page-table.cpp\<close> and \<^verbatim>\<open>page-table.hpp\<close>, the attribute
  and size structures of \<^verbatim>\<open>src/arch/api/memory-map.hpp\<close>). The code reads and writes
  table entries through the fractal mapping, so every access here is a virtual access
  that the processor translates with the current CR3. The state also holds the
  allocator's state and the list of ranges whose invalidation was distributed.
\<close>

section \<open>State\<close>

record attributes =
  executable :: bool
  writable :: bool
  cachable :: bool

definition default_attributes :: attributes where
  "default_attributes = \<lparr>executable = True, writable = True, cachable = True\<rparr>"

record mm_size =
  pageSize :: u64
  pageCount :: u64

definition Bytes :: "mm_size \<Rightarrow> u64" where
  "Bytes sz = pageSize sz * pageCount sz"

record 'a page_table =
  allocator :: "'a allocator_ops"
  pml4 :: PhysAddr

record 'a machine =
  pmem :: pmemory
  cr3 :: u64
  alst :: 'a
  invlpgs :: "(VirtAddr \<times> u64) list"

definition KernelEnd :: VirtAddr where
  "KernelEnd = 0x8000000000"

definition UserEnd :: VirtAddr where
  "UserEnd = 0xFFFFFF8000000000"

definition SetPml4 :: "'a page_table \<Rightarrow> PhysAddr \<Rightarrow> 'a page_table" where
  "SetPml4 t p = t\<lparr>pml4 := p\<rparr>"

definition GetPml4 :: "'a page_table \<Rightarrow> PhysAddr" where
  "GetPml4 t = pml4 t"

definition SetAllocator :: "'a page_table \<Rightarrow> 'a allocator_ops \<Rightarrow> 'a page_table" where
  "SetAllocator t a = t\<lparr>allocator := a\<rparr>"

definition GetAllocator :: "'a page_table \<Rightarrow> 'a allocator_ops" where
  "GetAllocator t = allocator t"

definition IsSet :: "'a page_table \<Rightarrow> 'a machine \<Rightarrow> bool" where
  "IsSet t s \<longleftrightarrow> cr3 s = GetPml4 t"

section \<open>Virtual accesses\<close>

definition vread :: "'a machine \<Rightarrow> VirtAddr \<Rightarrow> u64 res" where
  "vread s v =
     (case mmu_translate (pmem s) (cr3 s) v of
        None \<Rightarrow> Inl (PageFault v) | Some p \<Rightarrow> Inr (pmem s p))"

definition vwrite :: "'a machine \<Rightarrow> VirtAddr \<Rightarrow> u64 \<Rightarrow> 'a machine res" where
  "vwrite s v x =
     (case mmu_translate (pmem s) (cr3 s) v of
        None \<Rightarrow> Inl (PageFault v) | Some p \<Rightarrow> Inr (s\<lparr>pmem := (pmem s)(p := x)\<rparr>))"

text \<open>\<^verbatim>\<open>Bzero\<close> of one aligned page, whose bytes share one translation.\<close>

definition Bzero_page :: "'a machine \<Rightarrow> VirtAddr \<Rightarrow> 'a machine res" where
  "Bzero_page s v =
     (case mmu_translate (pmem s) (cr3 s) v of
        None \<Rightarrow> Inl (PageFault v) | Some p \<Rightarrow> Inr (s\<lparr>pmem := zero_page (pmem s) p\<rparr>))"

section \<open>Operations\<close>

definition CalcDepth :: "u64 \<Rightarrow> nat res" where
  "CalcDepth sz =
     (if sz = 0x1000 then Inr 3
      else if sz = 0x200000 then Inr 2
      else if sz = 0x40000000 then Inr 1
      else Inl (Panic ''PageTable::CalcDepth() - unknown page size''))"

definition CalcMask :: "u64 \<Rightarrow> bool \<Rightarrow> attributes \<Rightarrow> u64" where
  "CalcMask sz isKernel attrs =
     1 OR (if sz = 0x1000 then 0 else 0x80) OR (if isKernel then 0x100 else 0x4)
     OR (if executable attrs then 0 else push_bit 63 1)
     OR (if writable attrs then 2 else 0)"

definition GetTableEntry :: "VirtAddr \<Rightarrow> nat \<Rightarrow> VirtAddr res" where
  "GetTableEntry address depth =
     bindE (assertE (depth < 4) ''depth >= 0 && depth < 4'') (\<lambda>_.
     let address = address AND 0xFFFFFFFFFFFF
     in if depth = 3 then Inr (0xFFFFFF8000000000 + ((address div 0x200) AND NOT 7))
        else if depth = 2 then Inr (0xFFFFFFFFC0000000 + ((address div 0x40000) AND NOT 7))
        else if depth = 1 then Inr (0xFFFFFFFFFFE00000 + ((address div 0x8000000) AND NOT 7))
        else Inr (0xFFFFFFFFFFFFF000 + ((address div 0x1000000000) AND NOT 7)))"

definition GetTableStart :: "VirtAddr \<Rightarrow> nat \<Rightarrow> VirtAddr res" where
  "GetTableStart address depth =
     bindE (GetTableEntry address depth) (\<lambda>entryPtr. Inr (entryPtr AND NOT 0xfff))"

definition read_entry :: "'a machine \<Rightarrow> VirtAddr \<Rightarrow> nat \<Rightarrow> u64 res" where
  "read_entry s addr depth = bindE (GetTableEntry addr depth) (vread s)"

definition write_entry :: "'a machine \<Rightarrow> VirtAddr \<Rightarrow> nat \<Rightarrow> u64 \<Rightarrow> 'a machine res" where
  "write_entry s addr depth x = bindE (GetTableEntry addr depth) (\<lambda>v. vwrite s v x)"

definition level_size :: "nat \<Rightarrow> u64" where
  "level_size depth = push_bit (27 - 9 * depth) 0x1000"

text \<open>The loop of \<^verbatim>\<open>Walk\<close>, with the number of iterations left; 4 is running off its end.\<close>

fun Walk_loop :: "'a machine \<Rightarrow> VirtAddr \<Rightarrow> nat \<Rightarrow> u64 \<Rightarrow> (nat \<times> u64) res" where
  "Walk_loop s addr 0 entry = Inr (4, entry)"
| "Walk_loop s addr (Suc n) _ =
     bindE (read_entry s addr (3 - n)) (\<lambda>entry.
       if entry AND 0x80 \<noteq> 0 \<or> entry AND 1 = 0 then Inr (3 - n, entry)
       else Walk_loop s addr n entry)"

text \<open>The result is the return value, the entry and the value stored in \<^verbatim>\<open>*size\<close>.\<close>

definition Walk ::
    "crit \<Rightarrow> 'a page_table \<Rightarrow> 'a machine \<Rightarrow> VirtAddr \<Rightarrow> (int \<times> u64 \<times> u64) res" where
  "Walk c t s addr =
     bindE (AssertNoncritical c) (\<lambda>_.
     bindE (assertE (IsSet t s) ''IsSet()'') (\<lambda>_.
     bindE (Walk_loop s addr 4 0) (\<lambda>(depth, entry).
       if depth = 4 \<or> entry AND 0x80 \<noteq> 0 then
         (let depth = (if depth = 4 then 3 else depth)
          in Inr (int depth, entry, level_size depth))
       else Inr (- 1, entry, level_size depth))))"

text \<open>The loop of \<^verbatim>\<open>Set\<close> makes the tables above the entry; False is the huge-page failure.\<close>

fun Set_loop ::
    "'a page_table \<Rightarrow> VirtAddr \<Rightarrow> u64 \<Rightarrow> nat \<Rightarrow> nat \<Rightarrow> 'a machine \<Rightarrow> (bool \<times> 'a machine) res" where
  "Set_loop t addr parentMask theDepth 0 s = Inr (True, s)"
| "Set_loop t addr parentMask theDepth (Suc n) s =
     (let depth = theDepth - Suc n
      in bindE (read_entry s addr depth) (\<lambda>nextPage.
        if nextPage AND 1 = 0 then
          bindE (al_Alloc (GetAllocator t) (alst s) 0x1000 0x1000) (\<lambda>(r, al).
            case r of
              None \<Rightarrow> Inl (Panic ''PageTable::Set() - allocation failed'')
            | Some fresh \<Rightarrow>
                bindE (write_entry (s\<lparr>alst := al\<rparr>) addr depth (fresh OR parentMask)) (\<lambda>s.
                bindE (GetTableStart addr (depth + 1)) (\<lambda>v.
                bindE (Bzero_page s v) (\<lambda>s.
                  Set_loop t addr parentMask theDepth n s))))
        else if nextPage AND 0x80 \<noteq> 0 then Inr (False, s)
        else bindE (write_entry s addr depth (nextPage OR parentMask)) (\<lambda>s.
          Set_loop t addr parentMask theDepth n s)))"

text \<open>None is a false return; Some b is true with b the value for \<^verbatim>\<open>*overwrote\<close>.\<close>

definition Set ::
    "crit \<Rightarrow> 'a page_table \<Rightarrow> 'a machine \<Rightarrow> VirtAddr \<Rightarrow> u64 \<Rightarrow> u64 \<Rightarrow> nat
     \<Rightarrow> (bool option \<times> 'a machine) res" where
  "Set c t s addr entry parentMask theDepth =
     bindE (AssertNoncritical c) (\<lambda>_.
     bindE (assertE (IsSet t s) ''IsSet()'') (\<lambda>_.
     bindE (assertE (theDepth < 4) ''theDepth >= 0 && theDepth < 4'') (\<lambda>_.
     bindE (assertE (addr mod level_size theDepth = 0) ''!(addr % size)'') (\<lambda>_.
     bindE (Set_loop t addr parentMask theDepth theDepth s) (\<lambda>(ok, s).
       if \<not> ok then Inr (None, s)
       else bindE (read_entry s addr theDepth) (\<lambda>old.
         bindE (write_entry s addr theDepth entry) (\<lambda>s.
           Inr (Some (old \<noteq> 0), s))))))))"

text \<open>The search of \<^verbatim>\<open>Unset\<close> for the depth of the entry, over depths 0 to 2.\<close>

fun Unset_find :: "'a machine \<Rightarrow> VirtAddr \<Rightarrow> nat \<Rightarrow> nat res" where
  "Unset_find s addr 0 = Inr 3"
| "Unset_find s addr (Suc n) =
     bindE (read_entry s addr (2 - n)) (\<lambda>entry.
       if entry AND 0x80 \<noteq> 0 then Inr (2 - n)
       else if entry AND 1 = 0 then Inl (Panic ''PageTable::Unset() - no mapping found'')
       else Unset_find s addr n)"

text \<open>Whether one of the last \<open>n\<close> of the 512 entries of a table is set.\<close>

fun table_used :: "'a machine \<Rightarrow> VirtAddr \<Rightarrow> nat \<Rightarrow> bool res" where
  "table_used s tablePtr 0 = Inr False"
| "table_used s tablePtr (Suc n) =
     bindE (vread s (tablePtr + 8 * of_nat (0x1ff - n))) (\<lambda>e.
       if e \<noteq> 0 then Inr True else table_used s tablePtr n)"

definition DistributeInvlpg :: "'a machine \<Rightarrow> VirtAddr \<Rightarrow> u64 \<Rightarrow> 'a machine" where
  "DistributeInvlpg s start sz = s\<lparr>invlpgs := invlpgs s @ [(start, sz)]\<rparr>"

fun Unset_free :: "'a page_table \<Rightarrow> VirtAddr \<Rightarrow> nat \<Rightarrow> 'a machine \<Rightarrow> 'a machine res" where
  "Unset_free t addr 0 s = Inr s"
| "Unset_free t addr (Suc d) s =
     bindE (GetTableStart addr (Suc d)) (\<lambda>tablePtr.
     bindE (table_used s tablePtr 0x200) (\<lambda>used.
       if used then Inr s
       else
         bindE (read_entry s addr d) (\<lambda>parentEntry.
         let memory = parentEntry AND 0x7FFFFFFFFFFFF000
         in bindE (write_entry s addr d 0) (\<lambda>s.
            let s = DistributeInvlpg s tablePtr 0x1000
            in bindE (al_Free (GetAllocator t) (alst s) memory) (\<lambda>al.
               Unset_free t addr d (s\<lparr>alst := al\<rparr>))))))"

definition Unset ::
    "crit \<Rightarrow> 'a page_table \<Rightarrow> 'a machine \<Rightarrow> VirtAddr \<Rightarrow> (bool \<times> 'a machine) res" where
  "Unset c t s addr =
     bindE (AssertNoncritical c) (\<lambda>_.
     bindE (assertE (IsSet t s) ''IsSet()'') (\<lambda>_.
     bindE (assertE (addr AND 0xfff = 0) ''!(addr & 0xfff)'') (\<lambda>_.
     bindE (Unset_find s addr 3) (\<lambda>depth.
     bindE (write_entry s addr depth 0) (\<lambda>s.
     bindE (Unset_free t addr depth s) (\<lambda>s.
       Inr (True, s)))))))"

text \<open>
  \<open>ow\<close> is what \<^verbatim>\<open>*overwrote\<close> holds, None while it is not written; once it is true the
  code drops the pointer.
\<close>

fun SetList_loop ::
    "crit \<Rightarrow> 'a page_table \<Rightarrow> nat \<Rightarrow> VirtAddr \<Rightarrow> u64 \<Rightarrow> u64 \<Rightarrow> u64 \<Rightarrow> nat \<Rightarrow> bool option
     \<Rightarrow> 'a machine \<Rightarrow> (bool option \<times> 'a machine) res" where
  "SetList_loop c t 0 curVirt curPhys pgSize parentMask depth ow s = Inr (ow, s)"
| "SetList_loop c t (Suc n) curVirt curPhys pgSize parentMask depth ow s =
     bindE (Set c t s curVirt curPhys parentMask depth) (\<lambda>(r, s).
       case r of
         None \<Rightarrow> Inl (Panic ''PageTable::SetList() - Set() failed'')
       | Some over \<Rightarrow>
           SetList_loop c t n (curVirt + pgSize) (curPhys + pgSize) pgSize parentMask depth
             (if ow = Some True then ow else Some over) s)"

definition SetList ::
    "crit \<Rightarrow> 'a page_table \<Rightarrow> 'a machine \<Rightarrow> VirtAddr \<Rightarrow> u64 \<Rightarrow> mm_size \<Rightarrow> u64
     \<Rightarrow> (bool option \<times> 'a machine) res" where
  "SetList c t s virt phys sz parentMask =
     bindE (AssertNoncritical c) (\<lambda>_.
     bindE (assertE (IsSet t s) ''IsSet()'') (\<lambda>_.
     bindE (CalcDepth (pageSize sz)) (\<lambda>depth.
       SetList_loop c t (unat (pageCount sz)) virt phys (pageSize sz) parentMask depth None s)))"

text \<open>
  None is a false return; the second component is \<^verbatim>\<open>*sizeOut\<close>, which \<^verbatim>\<open>Walk\<close> stores in
  both cases.
\<close>

definition Read ::
    "crit \<Rightarrow> 'a page_table \<Rightarrow> 'a machine \<Rightarrow> VirtAddr
     \<Rightarrow> ((PhysAddr \<times> attributes) option \<times> u64) res" where
  "Read c t s addr =
     bindE (AssertNoncritical c) (\<lambda>_.
     bindE (assertE (IsSet t s) ''IsSet()'') (\<lambda>_.
     bindE (Walk c t s addr) (\<lambda>(depth, entry, sizeOut).
       if depth < 0 then Inr (None, sizeOut)
       else
         bindE (assertE (entry \<noteq> 0) ''entry != 0'') (\<lambda>_.
         bindE (assertE (depth \<ge> 2) ''depth >= 2'') (\<lambda>_.
           Inr (Some (if depth = 3 then entry AND 0x7ffffffffffff000
                      else entry AND 0x7fffffffffe00000,
                      \<lparr>executable = (entry AND push_bit 63 1 = 0),
                       writable = (entry AND 2 \<noteq> 0),
                       cachable = True\<rparr>), sizeOut))))))"

end
