(* ===== verification/TableFrames.thy ===== *)
theory TableFrames
  imports Mmu
begin

text \<open>
  How the table tree and the translation react to the three kinds of write the page-table
  code makes: adding flags to a parent entry, hanging a fresh zeroed table under an entry
  that was not present, and storing the final entry.
\<close>

section \<open>Adding flags to parent entries\<close>

definition same_links :: "pmemory \<Rightarrow> pmemory \<Rightarrow> bool" where
  "same_links m m' \<longleftrightarrow>
     (\<forall>a. present (m' a) = present (m a) \<and> huge (m' a) = huge (m a) \<and> pframe (m' a) = pframe (m a))"

lemma tab_same_links: "same_links m m' \<Longrightarrow> tab m' t p = tab m t p"
  by (induction p arbitrary: t) (auto simp: same_links_def Let_def)

lemma mmu_walk_same_links: "same_links m m' \<Longrightarrow> mmu_walk m' t va k = mmu_walk m t va k"
proof (induction k arbitrary: t)
  case (Suc k)
  then show ?case by (auto simp: same_links_def Let_def leaf_addr_def)
qed (auto simp: same_links_def Let_def leaf_addr_def)

definition flags_only :: "u64 \<Rightarrow> bool" where
  "flags_only f \<longleftrightarrow> pframe f = 0 \<and> \<not> huge f"

lemma pframe_or: "pframe (a OR b) = pframe a OR pframe b"
  by (simp add: pframe_def bit.conj_disj_distrib2)

lemma huge_or: "huge (a OR b) \<longleftrightarrow> huge a \<or> huge b"
  unfolding huge_def bit_consts by (simp add: bit_or_iff)

lemma present_or: "present (a OR b) \<longleftrightarrow> present a \<or> present b"
  unfolding present_def bit_consts by (simp add: bit_or_iff)

lemma same_links_or:
  "present (m l) \<Longrightarrow> flags_only f \<Longrightarrow> same_links m (m(l := m l OR f))"
  by (simp add: same_links_def flags_only_def pframe_or huge_or present_or)

section \<open>Storing an entry\<close>

text \<open>An entry that does not lead to a further table at depth \<open>d\<close>.\<close>

definition leaf_entry :: "u64 \<Rightarrow> nat \<Rightarrow> bool" where
  "leaf_entry e d \<longleftrightarrow> present e \<longrightarrow> d = 3 \<or> huge e"

lemma tab_upd_leaf:
  assumes sp: "sep m r" and p: "user_path p" "tab m r p = Some t" and i: "i < 512"
    and e: "leaf_entry e (length p)" and q: "user_path q"
  shows "tab (m(entry_at t i := e)) r q =
    (if take (Suc (length p)) q = p @ [i] then None else tab m r q)"
proof (cases "take (Suc (length p)) q = p @ [i]")
  case True
  then obtain q' where q': "q = p @ i # q'"
    by (metis append_Cons append_Nil append_assoc append_take_drop_id)
  with q have "length p \<noteq> 3" by (auto simp: user_path_def)
  with e have *: "\<not> (present e \<and> \<not> huge e)" by (auto simp: leaf_entry_def)
  have "user_path p \<Longrightarrow> take (Suc (length p)) p \<noteq> p @ [i]" by simp
  then have "tab (m(entry_at t i := e)) r p = Some t"
    using tab_upd_other [OF sp p i p(1)] p by simp
  then show ?thesis using True * by (auto simp: q' tab_append Let_def)
next
  case False
  then show ?thesis using tab_upd_other [OF sp p i q] by simp
qed

lemma sep_mono:
  assumes "sep m r"
    and "\<And>q u. user_path q \<Longrightarrow> tab m' r q = Some u \<Longrightarrow> tab m r q = Some u"
  shows "sep m' r"
  using assms unfolding sep_def by meson

lemma mmu_walk_upd_other:
  assumes sp: "sep m r" and p: "user_path p" "tab m r p = Some t" and i: "i < 512"
    and va: "user_va va" "vpath va (Suc (length p)) \<noteq> p @ [i]"
  shows "mmu_walk (m(entry_at t i := e)) r va 3 = mmu_walk m r va 3"
proof (rule mmu_walk_cong)
  fix d u
  assume d: "d \<le> 3" and u: "tab m r (vpath va d) = Some u"
  have "vpath va d @ [pt_index (3 - d) va] \<noteq> p @ [i]"
  proof
    assume eq: "vpath va d @ [pt_index (3 - d) va] = p @ [i]"
    then have "length p = d" by (metis append1_eq_conv length_vpath)
    with eq va(2) show False by (simp add: vpath_Suc)
  qed
  then have "entry_at u (pt_index (3 - d) va) \<noteq> entry_at t i"
    by (intro entry_upd_other [OF sp p i user_path_vpath [OF va(1) d] u pt_index_less])
  then show "(m(entry_at t i := e)) (entry_at u (pt_index (3 - d) va)) =
      m (entry_at u (pt_index (3 - d) va))" by simp
qed

section \<open>Hanging a fresh table\<close>

definition not_table :: "pmemory \<Rightarrow> u64 \<Rightarrow> u64 \<Rightarrow> bool" where
  "not_table m r f \<longleftrightarrow> (\<forall>q. user_path q \<longrightarrow> tab m r q \<noteq> Some f)"

lemma zero_page_entry:
  "is_frame u \<Longrightarrow> j < 512 \<Longrightarrow>
    zero_page m f (entry_at u j) = (if u = f then 0 else m (entry_at u j))"
  by (simp add: zero_page_def page_base_entry_at)

lemma not_present_0 [simp]: "\<not> present 0"
  by (simp add: present_def)

lemma tab_zero_page:
  assumes sp: "is_frame r" and f: "not_table m r f" and q: "user_path q"
  shows "tab (zero_page m f) r q = tab m r q"
  using q
proof (induction q rule: rev_induct)
  case (snoc j q)
  then have q: "user_path q" "j < 512" by (auto dest: user_path_snocD)
  have "u \<noteq> f" if "tab m r q = Some u" for u
    using f q(1) that by (auto simp: not_table_def)
  then show ?case
    using snoc.IH [OF q(1)] zero_page_entry [OF is_frame_tab [OF sp] q(2)]
    by (auto simp: tab_snoc split: option.splits)
qed simp

lemma mmu_walk_zero_page:
  assumes "is_frame r" and "not_table m r f" and "user_va va"
  shows "mmu_walk (zero_page m f) r va 3 = mmu_walk m r va 3"
proof (rule mmu_walk_cong)
  fix d u
  assume d: "d \<le> 3" and u: "tab m r (vpath va d) = Some u"
  then have "u \<noteq> f"
    using assms(2) user_path_vpath [OF assms(3) d] by (auto simp: not_table_def)
  then show "zero_page m f (entry_at u (pt_index (3 - d) va)) = m (entry_at u (pt_index (3 - d) va))"
    using zero_page_entry [OF is_frame_tab [OF assms(1) u] pt_index_less] by simp
qed

lemma tab_upd_at:
  assumes "sep m r" "user_path p" "tab m r p = Some t" "i < 512"
  shows "tab (m(entry_at t i := e)) r p = Some t"
  using tab_upd_other [OF assms assms(2)] assms(3) by simp

text \<open>The link and then the zeroing, which commute: the entry lies outside the fresh page.\<close>

definition link_table :: "pmemory \<Rightarrow> u64 \<Rightarrow> u64 \<Rightarrow> u64 \<Rightarrow> pmemory" where
  "link_table m l f flags = zero_page (m(l := f OR flags)) f"

lemma link_table_commute:
  assumes "is_frame t" "i < 512" "t \<noteq> f"
  shows "link_table m (entry_at t i) f flags = (zero_page m f)(entry_at t i := f OR flags)"
  using assms by (auto simp: link_table_def zero_page_def page_base_entry_at)

text \<open>The situation in which the code hangs the fresh frame \<open>f\<close> at the end of path \<open>p @ [i]\<close>.\<close>

definition fresh_link ::
    "pmemory \<Rightarrow> u64 \<Rightarrow> u64 list \<Rightarrow> u64 \<Rightarrow> u64 \<Rightarrow> u64 \<Rightarrow> u64 \<Rightarrow> bool" where
  "fresh_link m r p t i f flags \<longleftrightarrow>
     sep m r \<and> user_path p \<and> length p < 3 \<and> tab m r p = Some t \<and> i < 512 \<and> user_path (p @ [i])
     \<and> \<not> present (m (entry_at t i)) \<and> is_frame f \<and> not_table m r f
     \<and> flags_only flags \<and> present flags"

lemma fresh_linkD:
  assumes "fresh_link m r p t i f flags"
  shows "sep m r" "user_path p" "length p < 3" "tab m r p = Some t" "i < 512"
    "user_path (p @ [i])" "\<not> present (m (entry_at t i))" "is_frame f" "not_table m r f"
    "flags_only flags" "present flags" "is_frame r" "is_frame t" "t \<noteq> f"
  using assms sep_frame [of m r p t] by (auto simp: fresh_link_def sep_def not_table_def)

lemma link_entry:
  assumes "is_frame f" "flags_only flags" "present flags"
  shows "present (f OR flags)" "\<not> huge (f OR flags)" "pframe (f OR flags) = f"
proof -
  have "\<not> huge f"
    using is_frame_bit [OF assms(1), of 7] by (auto simp: huge_def bit_consts)
  then show "present (f OR flags)" "\<not> huge (f OR flags)" "pframe (f OR flags) = f"
    using assms by (simp_all add: present_or huge_or pframe_or flags_only_def is_frame_def)
qed

lemma fresh_link_zero:
  assumes "fresh_link m r p t i f flags"
  shows "sep (zero_page m f) r" "tab (zero_page m f) r p = Some t"
    "link_table m (entry_at t i) f flags = (zero_page m f)(entry_at t i := f OR flags)"
proof -
  note L = fresh_linkD [OF assms]
  show "sep (zero_page m f) r"
    using tab_zero_page [OF L(12,9)] by (intro sep_mono [OF L(1)]) simp
  show "tab (zero_page m f) r p = Some t"
    using tab_zero_page [OF L(12,9,2)] L(4) by simp
  show "link_table m (entry_at t i) f flags = (zero_page m f)(entry_at t i := f OR flags)"
    by (rule link_table_commute [OF L(13,5,14)])
qed

lemma linked_entry_fresh:
  assumes "fresh_link m r p t i f flags" and "j < 512"
  shows "link_table m (entry_at t i) f flags (entry_at f j) = 0"
proof -
  note L = fresh_linkD [OF assms(1)]
  have "entry_at f j \<noteq> entry_at t i"
    using entry_at_inj [OF L(8,13) assms(2) L(5)] L(14) by auto
  then show ?thesis
    unfolding fresh_link_zero(3) [OF assms(1)]
    using zero_page_entry [OF L(8) assms(2)] by simp
qed

lemma tab_linked:
  assumes A: "fresh_link m r p t i f flags" and q: "user_path q"
  shows "tab (link_table m (entry_at t i) f flags) r q =
    (if q = p @ [i] then Some f
     else if take (Suc (length p)) q = p @ [i] then None else tab m r q)"
proof (cases "take (Suc (length p)) q = p @ [i]")
  case False
  note L = fresh_linkD [OF A] and Z = fresh_link_zero [OF A]
  have "tab (link_table m (entry_at t i) f flags) r q = tab (zero_page m f) r q"
    unfolding Z(3) by (rule tab_upd_other [OF Z(1) L(2) Z(2) L(5) q False])
  then show ?thesis using False tab_zero_page [OF L(12,9) q] by auto
next
  case True
  note L = fresh_linkD [OF A] and Z = fresh_link_zero [OF A]
  obtain q' where q': "q = p @ i # q'"
    using True by (metis append_Cons append_Nil append_assoc append_take_drop_id)
  have "tab (link_table m (entry_at t i) f flags) r p = Some t"
    unfolding Z(3) by (rule tab_upd_at [OF Z(1) L(2) Z(2) L(5)])
  then have *: "tab (link_table m (entry_at t i) f flags) r q =
      tab (link_table m (entry_at t i) f flags) f q'"
    using link_entry [OF L(8,10,11)] by (simp add: q' tab_append Let_def Z(3))
  show ?thesis
  proof (cases q')
    case Nil
    then show ?thesis using * q' by simp
  next
    case (Cons j q'')
    then have "j < 512" using q q' by (auto simp: user_path_def)
    then show ?thesis using True * Cons q' linked_entry_fresh [OF A] by (simp add: Let_def)
  qed
qed

lemma tab_linked_fresh:
  "fresh_link m r p t i f flags \<Longrightarrow>
    tab (link_table m (entry_at t i) f flags) r (p @ [i]) = Some f"
  using tab_linked fresh_linkD(6) by fastforce

lemma sep_linked:
  assumes A: "fresh_link m r p t i f flags"
  shows "sep (link_table m (entry_at t i) f flags) r"
  unfolding sep_def
proof (intro conjI allI impI)
  show "is_frame r" by (rule fresh_linkD(12) [OF A])
next
  fix q q' u
  assume a: "user_path q \<and> user_path q' \<and> tab (link_table m (entry_at t i) f flags) r q = Some u
    \<and> tab (link_table m (entry_at t i) f flags) r q' = Some u"
  then show "q = q'"
    using tab_linked [OF A, of q] tab_linked [OF A, of q'] fresh_linkD(9) [OF A]
      sepD [OF fresh_linkD(1) [OF A], of q q' u]
    by (auto simp: not_table_def split: if_splits)
qed

lemma mmu_walk_linked:
  assumes A: "fresh_link m r p t i f flags" and va: "user_va va"
  shows "mmu_walk (link_table m (entry_at t i) f flags) r va 3 = mmu_walk m r va 3"
proof (cases "vpath va (Suc (length p)) = p @ [i]")
  case False
  note L = fresh_linkD [OF A] and Z = fresh_link_zero [OF A]
  have "mmu_walk (link_table m (entry_at t i) f flags) r va 3 = mmu_walk (zero_page m f) r va 3"
    unfolding Z(3) by (rule mmu_walk_upd_other [OF Z(1) L(2) Z(2) L(5) va False])
  then show ?thesis using mmu_walk_zero_page [OF L(12,9) va] by simp
next
  case True
  note L = fresh_linkD [OF A]
  have v: "vpath va (length p) = p" "pt_index (3 - length p) va = i"
    using True by (simp_all add: vpath_Suc)
  have "mmu_walk m r va 3 = None"
    using L v by (intro mmu_walk_hole [of m r va "length p" t]) auto
  moreover have "mmu_walk (link_table m (entry_at t i) f flags) r va 3 = None"
    using L(3) True tab_linked_fresh [OF A] linked_entry_fresh [OF A pt_index_less]
    by (intro mmu_walk_hole [of _ r va "Suc (length p)" f]) auto
  ultimately show ?thesis by simp
qed

lemma entry_linked_other:
  assumes A: "fresh_link m r p t i f flags"
    and q: "tab m r q = Some u" "u \<noteq> f" "j < 512" "entry_at u j \<noteq> entry_at t i"
  shows "link_table m (entry_at t i) f flags (entry_at u j) = m (entry_at u j)"
  using zero_page_entry [OF sep_frame [OF fresh_linkD(1) [OF A] q(1)] q(3)] q(2,4)
  by (simp add: fresh_link_zero(3) [OF A])

end
