(* ===== verification/Leaves.thy ===== *)
theory Leaves
  imports TableFrames
begin

text \<open>
  The leaves of the table tree: for every address the depth and the entry at which a walk
  ends, whether it maps a page or only reserves the address (an entry without the present
  bit). This is the state of an address space as its owner sees it; the translation of the
  processor is a function of it.
\<close>

section \<open>The leaf of an address\<close>

fun leaf_of :: "pmemory \<Rightarrow> u64 \<Rightarrow> u64 \<Rightarrow> nat \<Rightarrow> (nat \<times> u64) option" where
  "leaf_of m t va 0 =
     (let e = m (entry_at t (pt_index 0 va)) in if e = 0 then None else Some (3, e))"
| "leaf_of m t va (Suc k) =
     (let e = m (entry_at t (pt_index (Suc k) va))
      in if huge e then Some (2 - k, e)
         else if present e then leaf_of m (pframe e) va k
         else None)"

text \<open>An entry at depth \<open>d\<close> that ends a walk with a leaf.\<close>

definition ends_walk :: "nat \<Rightarrow> u64 \<Rightarrow> bool" where
  "ends_walk d e \<longleftrightarrow> (if d = 3 then e \<noteq> 0 else huge e)"

lemma leaf_of_tab:
  "tab m r (vpath va d) = Some t \<Longrightarrow> d \<le> 3 \<Longrightarrow> leaf_of m r va 3 = leaf_of m t va (3 - d)"
proof (induction d arbitrary: t)
  case (Suc d)
  then obtain u where u: "tab m r (vpath va d) = Some u"
    and e: "present (m (entry_at u (pt_index (3 - d) va)))"
      "\<not> huge (m (entry_at u (pt_index (3 - d) va)))"
      "pframe (m (entry_at u (pt_index (3 - d) va))) = t"
    by (auto simp: vpath_Suc tab_snoc_Some)
  have "3 - d = Suc (3 - Suc d)" using Suc.prems(2) by simp
  moreover have "leaf_of m r va 3 = leaf_of m u va (3 - d)"
    using Suc.IH [OF u] Suc.prems(2) by simp
  ultimately show ?case using e by (simp add: Let_def)
qed simp

lemma leaf_of_end:
  assumes "tab m r (vpath va d) = Some t" "d \<le> 3" "ends_walk d (m (entry_at t (pt_index (3 - d) va)))"
  shows "leaf_of m r va 3 = Some (d, m (entry_at t (pt_index (3 - d) va)))"
proof (cases "d = 3")
  case True
  then show ?thesis using leaf_of_tab [OF assms(1,2)] assms(3) by (simp add: ends_walk_def)
next
  case False
  then have "3 - d = Suc (2 - d)" "2 - (2 - d) = d" using assms(2) by auto
  then show ?thesis using leaf_of_tab [OF assms(1,2)] assms(3) False by (simp add: ends_walk_def Let_def)
qed

lemma leaf_of_hole:
  assumes "tab m r (vpath va d) = Some t" "d \<le> 3" "\<not> ends_walk d (m (entry_at t (pt_index (3 - d) va)))"
    and "d < 3 \<Longrightarrow> \<not> present (m (entry_at t (pt_index (3 - d) va)))"
  shows "leaf_of m r va 3 = None"
proof (cases "d = 3")
  case True
  then show ?thesis using leaf_of_tab [OF assms(1,2)] assms(3) by (simp add: ends_walk_def)
next
  case False
  then have "3 - d = Suc (2 - d)" using assms(2) by auto
  then show ?thesis using leaf_of_tab [OF assms(1,2)] assms(2-4) False by (simp add: ends_walk_def Let_def)
qed

lemma leaf_of_Some_aux:
  "tab m r (vpath va (3 - k)) = Some t \<Longrightarrow> k \<le> 3 \<Longrightarrow> leaf_of m t va k = Some (d, e) \<Longrightarrow>
    3 - k \<le> d \<and> d \<le> 3 \<and> (\<exists>u. tab m r (vpath va d) = Some u \<and> e = m (entry_at u (pt_index (3 - d) va)) \<and> ends_walk d e)"
proof (induction k arbitrary: t)
  case 0
  then show ?case by (auto simp: Let_def ends_walk_def split: if_splits)
next
  case (Suc k)
  let ?e = "m (entry_at t (pt_index (Suc k) va))"
  have k: "2 - k = 3 - Suc k" "3 - (3 - Suc k) = Suc k" "3 - k = Suc (3 - Suc k)" using Suc.prems(2) by auto
  show ?case
  proof (cases "huge ?e")
    case True
    then have "(2 - k, ?e) = (d, e)" using Suc.prems(3) by (simp add: Let_def)
    then have d: "d = 2 - k" and e: "e = ?e" by auto
    have "tab m r (vpath va d) = Some t" "3 - d = Suc k" "d \<noteq> 3" "d \<le> 3" "3 - Suc k \<le> d"
      using Suc.prems(1,2) by (simp_all add: d)
    with True e show ?thesis by (intro conjI exI [of _ t]) (simp_all add: ends_walk_def)
  next
    case False
    then have p: "present ?e" and l: "leaf_of m (pframe ?e) va k = Some (d, e)"
      using Suc.prems(3) by (simp_all add: Let_def split: if_splits)
    have "tab m r (vpath va (3 - k)) = Some (pframe ?e)"
      using Suc.prems(1) p False unfolding k(3) vpath_Suc k(2) by (simp add: tab_snoc)
    from Suc.IH [OF this _ l] Suc.prems(2) show ?thesis by auto
  qed
qed

lemma leaf_of_SomeD:
  assumes "leaf_of m r va 3 = Some (d, e)"
  obtains u where "d \<le> 3" "tab m r (vpath va d) = Some u" "e = m (entry_at u (pt_index (3 - d) va))" "ends_walk d e"
  using leaf_of_Some_aux [of m r va 3 r d e] assms that by auto

text \<open>The walk of the processor is a function of the leaf.\<close>

lemma mmu_walk_leaf_of:
  "mmu_walk m r va 3 = (case leaf_of m r va 3 of None \<Rightarrow> None
    | Some (d, e) \<Rightarrow> if present e \<and> 1 \<le> d then Some (leaf_addr (3 - d) e va) else None)"
proof -
  have "mmu_walk m t va k = (case leaf_of m t va k of None \<Rightarrow> None
    | Some (d, e) \<Rightarrow> if present e \<and> 1 \<le> d then Some (leaf_addr (3 - d) e va) else None)" if "k \<le> 3" for t k
    using that
  proof (induction k arbitrary: t)
    case 0
    then show ?case by (auto simp: Let_def present_def)
  next
    case (Suc k)
    then have "k < 2 \<longleftrightarrow> 1 \<le> 2 - k" "3 - (2 - k) = Suc k" by auto
    then show ?case using Suc by (auto simp: Let_def)
  qed
  then show ?thesis by simp
qed

section \<open>Writes\<close>

text \<open>A write that leaves the entries on the path, or only adds to a link, leaves the leaf.\<close>

definition same_link :: "nat \<Rightarrow> u64 \<Rightarrow> u64 \<Rightarrow> bool" where
  "same_link d e e' \<longleftrightarrow> e' = e
     \<or> d < 3 \<and> present e \<and> present e' \<and> \<not> huge e \<and> \<not> huge e' \<and> pframe e' = pframe e"

lemma leaf_of_cong_aux:
  assumes "\<And>d t. d \<le> 3 \<Longrightarrow> tab m r (vpath va d) = Some t \<Longrightarrow>
      same_link d (m (entry_at t (pt_index (3 - d) va))) (m' (entry_at t (pt_index (3 - d) va)))"
  shows "k \<le> 3 \<Longrightarrow> tab m r (vpath va (3 - k)) = Some t \<Longrightarrow> leaf_of m' t va k = leaf_of m t va k"
proof (induction k arbitrary: t)
  case 0
  then show ?case using assms [of 3 t] by (simp add: same_link_def)
next
  case (Suc k)
  let ?e = "m (entry_at t (pt_index (Suc k) va))" and ?e' = "m' (entry_at t (pt_index (Suc k) va))"
  have k: "3 - (3 - Suc k) = Suc k" "3 - k = Suc (3 - Suc k)" using Suc.prems(1) by auto
  have e: "?e' = ?e \<or> present ?e \<and> present ?e' \<and> \<not> huge ?e \<and> \<not> huge ?e' \<and> pframe ?e' = pframe ?e"
  proof -
    have "3 - Suc k \<le> 3" by simp
    from assms [OF this Suc.prems(2)] show ?thesis unfolding k(1) same_link_def by blast
  qed
  show ?case
  proof (cases "present ?e \<and> \<not> huge ?e")
    case True
    have "tab m r (vpath va (3 - k)) = Some (pframe ?e)"
      using Suc.prems True unfolding k(2) vpath_Suc k(1) by (simp add: tab_snoc)
    then show ?thesis using Suc.IH Suc.prems(1) e True by (auto simp: Let_def)
  next
    case False
    then show ?thesis using e by (auto simp: Let_def)
  qed
qed

lemma leaf_of_cong:
  assumes "\<And>d t. d \<le> 3 \<Longrightarrow> tab m r (vpath va d) = Some t \<Longrightarrow>
      same_link d (m (entry_at t (pt_index (3 - d) va))) (m' (entry_at t (pt_index (3 - d) va)))"
  shows "leaf_of m' r va 3 = leaf_of m r va 3"
  using leaf_of_cong_aux [of m r va m' 3 r] assms by simp

lemma leaf_of_upd_other:
  assumes sp: "sep m r" and p: "user_path p" "tab m r p = Some t" and i: "i < 512"
    and va: "user_va va" "vpath va (Suc (length p)) \<noteq> p @ [i]"
  shows "leaf_of (m(entry_at t i := e)) r va 3 = leaf_of m r va 3"
proof (rule leaf_of_cong)
  fix d u
  assume d: "d \<le> 3" and u: "tab m r (vpath va d) = Some u"
  have "vpath va d @ [pt_index (3 - d) va] \<noteq> p @ [i]"
  proof
    assume eq: "vpath va d @ [pt_index (3 - d) va] = p @ [i]"
    then have "length p = d" by (metis append1_eq_conv length_vpath)
    with eq va(2) show False by (simp add: vpath_Suc)
  qed
  then have "entry_at u (pt_index (3 - d) va) \<noteq> entry_at t i"
    by (intro entry_upd_other [OF sp p i user_path_vpath [OF va(1) d] u pt_index_less])
  then show "same_link d (m (entry_at u (pt_index (3 - d) va)))
      ((m(entry_at t i := e)) (entry_at u (pt_index (3 - d) va)))" by (simp add: same_link_def)
qed

text \<open>Storing an entry that is not a link: the leaf of its page is that entry.\<close>

definition entry_leaf :: "nat \<Rightarrow> u64 \<Rightarrow> (nat \<times> u64) option" where
  "entry_leaf d e = (if ends_walk d e then Some (d, e) else None)"

lemma leaf_of_upd:
  assumes sp: "sep m r" and p: "user_path (vpath addr d)" "tab m r (vpath addr d) = Some t" and d: "d \<le> 3"
    and va: "user_va va" and e: "leaf_entry e d"
  shows "leaf_of (m(entry_at t (pt_index (3 - d) addr) := e)) r va 3 =
    (if vpath va (Suc d) = vpath addr (Suc d) then entry_leaf d e else leaf_of m r va 3)"
proof (cases "vpath va (Suc d) = vpath addr (Suc d)")
  case False
  have "vpath va (Suc (length (vpath addr d))) \<noteq> vpath addr d @ [pt_index (3 - d) addr]"
    using False by (simp add: vpath_Suc)
  from leaf_of_upd_other [OF sp p pt_index_less va this] False show ?thesis by simp
next
  case True
  let ?m = "m(entry_at t (pt_index (3 - d) addr) := e)"
  have v: "vpath va d = vpath addr d" "pt_index (3 - d) va = pt_index (3 - d) addr"
    using True by (simp_all add: vpath_Suc)
  have t: "tab ?m r (vpath va d) = Some t" using tab_upd_at [OF sp p pt_index_less] v by simp
  have e': "?m (entry_at t (pt_index (3 - d) va)) = e" using v by simp
  show ?thesis
  proof (cases "ends_walk d e")
    case ends: True
    then show ?thesis using leaf_of_end [OF t d] e' True by (simp add: entry_leaf_def)
  next
    case False
    moreover have "\<not> present e" if "d < 3" using e False that by (auto simp: leaf_entry_def ends_walk_def)
    ultimately show ?thesis using leaf_of_hole [OF t d] e' True by (simp add: entry_leaf_def)
  qed
qed

text \<open>Adding flags to a link.\<close>

lemma leaf_of_or_parent:
  assumes sp: "sep m r" and p: "user_path (vpath addr d)" "tab m r (vpath addr d) = Some t" and d: "d < 3"
    and va: "user_va va" and f: "flags_only f"
    and e: "present (m (entry_at t (pt_index (3 - d) addr)))" "\<not> huge (m (entry_at t (pt_index (3 - d) addr)))"
  shows "leaf_of (m(entry_at t (pt_index (3 - d) addr) := m (entry_at t (pt_index (3 - d) addr)) OR f)) r va 3
    = leaf_of m r va 3"
proof (rule leaf_of_cong)
  fix k u
  assume k: "k \<le> 3" and u: "tab m r (vpath va k) = Some u"
  let ?l = "entry_at t (pt_index (3 - d) addr)"
  show "same_link k (m (entry_at u (pt_index (3 - k) va))) ((m(?l := m ?l OR f)) (entry_at u (pt_index (3 - k) va)))"
  proof (cases "entry_at u (pt_index (3 - k) va) = ?l")
    case True
    have "u = t"
      using entry_at_inj [OF sep_frame [OF sp u] sep_frame [OF sp p(2)] pt_index_less pt_index_less True] by simp
    then have "vpath va k = vpath addr d" using sepD [OF sp user_path_vpath [OF va k] p(1) u] p(2) by simp
    then have "k = d" by (metis length_vpath)
    then show ?thesis using d e f True by (simp add: same_link_def present_or huge_or pframe_or flags_only_def)
  qed (simp add: same_link_def)
qed

text \<open>Hanging a fresh table: what the old entry reserved as a large page is gone.\<close>

lemma leaf_of_linked:
  assumes A: "fresh_link m r p t i f flags" and va: "user_va va"
  shows "leaf_of (link_table m (entry_at t i) f flags) r va 3 =
    (if vpath va (Suc (length p)) = p @ [i] then None else leaf_of m r va 3)"
proof (cases "vpath va (Suc (length p)) = p @ [i]")
  case False
  note L = fresh_linkD [OF A] and Z = fresh_link_zero [OF A]
  have "leaf_of (zero_page m f) r va 3 = leaf_of m r va 3"
  proof (rule leaf_of_cong)
    fix d u assume d: "d \<le> 3" and u: "tab m r (vpath va d) = Some u"
    then have "u \<noteq> f" using L(9) user_path_vpath [OF va d] by (auto simp: not_table_def)
    then show "same_link d (m (entry_at u (pt_index (3 - d) va))) (zero_page m f (entry_at u (pt_index (3 - d) va)))"
      unfolding same_link_def using zero_page_entry [OF is_frame_tab [OF L(12) u] pt_index_less] by simp
  qed
  moreover have "leaf_of (link_table m (entry_at t i) f flags) r va 3 = leaf_of (zero_page m f) r va 3"
    unfolding Z(3) by (rule leaf_of_upd_other [OF Z(1) L(2) Z(2) L(5) va False])
  ultimately show ?thesis using False by simp
next
  case True
  note L = fresh_linkD [OF A]
  have z: "link_table m (entry_at t i) f flags (entry_at f (pt_index (3 - Suc (length p)) va)) = 0"
    by (rule linked_entry_fresh [OF A pt_index_less])
  have "leaf_of (link_table m (entry_at t i) f flags) r va 3 = None"
    using L(3) True tab_linked_fresh [OF A] z
    by (intro leaf_of_hole [of _ r va "Suc (length p)" f]) (auto simp: ends_walk_def huge_def)
  then show ?thesis using True by simp
qed

end
