(* ===== verification/PageTableSet.thy ===== *)
theory PageTableSet
  imports PageTableProofs Leaves
begin

text \<open>
  \<^verbatim>\<open>PageTable::Set\<close> keeps the table tree well formed, maps the page it is given and
  changes no other translation, for any allocator that keeps the \<open>page_source\<close> contract.
\<close>

section \<open>The invariant of a live page table\<close>

definition pt_inv :: "('a \<Rightarrow> bool) \<Rightarrow> ('a \<Rightarrow> u64 set) \<Rightarrow> 'a machine \<Rightarrow> bool" where
  "pt_inv ainv taken s \<longleftrightarrow>
     fractal (pmem s) (cr3 s) \<and> sep (pmem s) (cr3 s) \<and> ainv (alst s)
     \<and> (\<forall>p t. user_path p \<longrightarrow> tab (pmem s) (cr3 s) p = Some t \<longrightarrow> t \<in> taken (alst s))"

definition same_translation :: "'a machine \<Rightarrow> 'a machine \<Rightarrow> bool" where
  "same_translation s s' \<longleftrightarrow> cr3 s' = cr3 s
     \<and> (\<forall>va. user_va va \<longrightarrow> mmu_translate (pmem s') (cr3 s') va = mmu_translate (pmem s) (cr3 s) va)"

definition grown :: "('a \<Rightarrow> bool) \<Rightarrow> ('a \<Rightarrow> u64 set) \<Rightarrow> 'a machine \<Rightarrow> 'a machine \<Rightarrow> bool" where
  "grown ainv taken s s' \<longleftrightarrow>
     pt_inv ainv taken s' \<and> same_translation s s' \<and> invlpgs s' = invlpgs s
     \<and> taken (alst s) \<subseteq> taken (alst s')"

lemma grown_refl: "pt_inv ainv taken s \<Longrightarrow> grown ainv taken s s"
  by (simp add: grown_def same_translation_def)

lemma grown_trans:
  "grown ainv taken s s' \<Longrightarrow> grown ainv taken s' s'' \<Longrightarrow> grown ainv taken s s''"
  by (auto simp: grown_def same_translation_def)

lemma pt_invD:
  assumes "pt_inv ainv taken s"
  shows "fractal (pmem s) (cr3 s)" "sep (pmem s) (cr3 s)" "ainv (alst s)"
    "pframe (cr3 s) = cr3 s"
  using assms by (auto simp: pt_inv_def fractal_def)

lemma slot_entry_other:
  assumes "sep m r" "user_path (p @ [i])" "tab m r p = Some t"
  shows "entry_at r 0x1ff \<noteq> entry_at t i"
proof
  assume eq: "entry_at r 0x1ff = entry_at t i"
  have p: "user_path p" "i < 512" using assms(2) by (auto dest: user_path_snocD)
  have r: "is_frame r" using assms(1) by (simp add: sep_def)
  have "r = t" "i = 0x1ff"
    using entry_at_inj [OF r sep_frame [OF assms(1,3)] _ p(2) eq] by auto
  moreover have "p = []"
    using sepD [OF assms(1) p(1) user_path_Nil assms(3)] \<open>r = t\<close> by simp
  ultimately show False using assms(2) by (simp add: user_path_def)
qed

lemma user_path_step:
  "user_va va \<Longrightarrow> d < 3 \<Longrightarrow> user_path (vpath va d @ [pt_index (3 - d) va])"
  using user_path_vpath [of va "Suc d"] by (simp add: vpath_Suc)

section \<open>Leaves of a machine\<close>

definition leaf :: "'a machine \<Rightarrow> VirtAddr \<Rightarrow> (nat \<times> u64) option" where
  "leaf s va = leaf_of (pmem s) (cr3 s) va 3"

text \<open>
  The table walk of \<^verbatim>\<open>Set\<close> to depth \<open>d\<close> at \<open>addr\<close> replaces a larger page that \<open>addr\<close> only
  reserved; every other leaf stays.
\<close>

definition lost_leaf :: "VirtAddr \<Rightarrow> nat \<Rightarrow> 'a machine \<Rightarrow> VirtAddr \<Rightarrow> bool" where
  "lost_leaf addr d s va \<longleftrightarrow>
     (\<exists>k e. k < d \<and> \<not> present e \<and> leaf s addr = Some (k, e) \<and> leaf s va = Some (k, e))"

definition keeps_leaves :: "VirtAddr \<Rightarrow> nat \<Rightarrow> 'a machine \<Rightarrow> 'a machine \<Rightarrow> bool" where
  "keeps_leaves addr d s s' \<longleftrightarrow> (\<forall>va. user_va va \<longrightarrow>
     leaf s' va = leaf s va \<or> leaf s' va = None \<and> lost_leaf addr d s va)"

lemma keeps_leaves_refl [simp]: "keeps_leaves addr d s s"
  by (simp add: keeps_leaves_def)

lemma keeps_leaves_trans:
  assumes "user_va addr" "keeps_leaves addr d s s1" "keeps_leaves addr d s1 s2"
  shows "keeps_leaves addr d s s2"
  unfolding keeps_leaves_def
proof (intro allI impI)
  fix va assume va: "user_va va"
  note K = assms(2,3) [unfolded keeps_leaves_def, rule_format]
  have 1: "leaf s1 va = leaf s va \<or> leaf s1 va = None \<and> lost_leaf addr d s va"
    and 2: "leaf s2 va = leaf s1 va \<or> leaf s2 va = None \<and> lost_leaf addr d s1 va"
    by (fact K(1) [OF va], fact K(2) [OF va])
  have 3: "leaf s1 addr = leaf s addr \<or> leaf s1 addr = None" using K(1) [OF assms(1)] by (elim disjE conjE) simp_all
  have "lost_leaf addr d s va" if l: "leaf s1 va = leaf s va" and m: "lost_leaf addr d s1 va"
  proof -
    obtain k e where "k < d" "\<not> present e" "leaf s1 addr = Some (k, e)" "leaf s1 va = Some (k, e)"
      using m unfolding lost_leaf_def by blast
    moreover have "leaf s1 addr = leaf s addr" using 3 calculation(3) by simp
    ultimately show ?thesis using l unfolding lost_leaf_def by metis
  qed
  then show "leaf s2 va = leaf s va \<or> leaf s2 va = None \<and> lost_leaf addr d s va"
    using 1 2 by metis
qed

lemma leaf_present_tab:
  "tab (pmem s) (cr3 s) (vpath va d) = Some u \<Longrightarrow> d \<le> 3 \<Longrightarrow>
    ends_walk d (pmem s (entry_at u (pt_index (3 - d) va))) \<Longrightarrow>
    leaf s va = Some (d, pmem s (entry_at u (pt_index (3 - d) va)))"
  by (simp add: leaf_def leaf_of_end)

section \<open>One step of the loop\<close>

lemma grown_or_parent:
  assumes inv: "pt_inv ainv taken s"
    and u: "tab (pmem s) (cr3 s) (vpath addr d) = Some u" and d: "d < 3" and va: "user_va addr"
    and e: "present (pmem s (entry_at u (pt_index (3 - d) addr)))" and f: "flags_only pm"
    and s': "s' = s\<lparr>pmem := (pmem s)(entry_at u (pt_index (3 - d) addr)
      := pmem s (entry_at u (pt_index (3 - d) addr)) OR pm)\<rparr>"
  shows "grown ainv taken s s' \<and> tab (pmem s') (cr3 s') p = tab (pmem s) (cr3 s) p"
proof -
  note I = pt_invD [OF inv]
  have L: "same_links (pmem s) (pmem s')"
    using same_links_or [of "pmem s", OF e f] s' by simp
  have tab: "tab (pmem s') (cr3 s') q = tab (pmem s) (cr3 s) q" for q
    using tab_same_links [OF L] s' by simp
  have "entry_at (cr3 s) 0x1ff \<noteq> entry_at u (pt_index (3 - d) addr)"
    by (rule slot_entry_other [OF I(2) user_path_step [OF va d] u])
  then have "fractal (pmem s') (cr3 s')"
    using I(1) s' by (simp add: fractal_def)
  moreover have "sep (pmem s') (cr3 s')"
    using sep_mono [OF I(2), of "pmem s'"] tab s' by simp
  ultimately have "pt_inv ainv taken s'"
    using inv tab s' by (auto simp: pt_inv_def)
  moreover have "same_translation s s'"
    using mmu_walk_same_links [OF L] s' by (auto simp: same_translation_def mmu_translate_def)
  ultimately show ?thesis using tab s' by (simp add: grown_def)
qed

lemma grown_link:
  assumes inv: "pt_inv ainv taken s"
    and u: "tab (pmem s) (cr3 s) (vpath addr d) = Some u" and d: "d < 3" and va: "user_va addr"
    and e: "\<not> present (pmem s (entry_at u (pt_index (3 - d) addr)))"
    and f: "flags_only pm" "present pm"
    and a: "ainv al" "is_frame fr" "fr \<notin> taken (alst s)" "insert fr (taken (alst s)) \<subseteq> taken al"
    and s': "s' = s\<lparr>alst := al,
      pmem := link_table (pmem s) (entry_at u (pt_index (3 - d) addr)) fr pm\<rparr>"
  shows "grown ainv taken s s' \<and> tab (pmem s') (cr3 s') (vpath addr (Suc d)) = Some fr
    \<and> fresh_link (pmem s) (cr3 s) (vpath addr d) u (pt_index (3 - d) addr) fr pm"
proof -
  note I = pt_invD [OF inv]
  let ?i = "pt_index (3 - d) addr"
  have nt: "not_table (pmem s) (cr3 s) fr"
    using inv a(3) by (auto simp: pt_inv_def not_table_def)
  have F: "fresh_link (pmem s) (cr3 s) (vpath addr d) u ?i fr pm"
    using I(2) u d e f a(2) nt user_path_vpath [OF va, of d] user_path_step [OF va d]
    by (simp add: fresh_link_def pt_index_less)
  have tab: "tab (pmem s') (cr3 s') q = Some v \<Longrightarrow> user_path q \<Longrightarrow>
      v = fr \<or> tab (pmem s) (cr3 s) q = Some v" for q v
    using tab_linked [OF F] s' by (auto split: if_splits)
  have "entry_at (cr3 s) 0x1ff \<noteq> entry_at u ?i"
    by (rule slot_entry_other [OF I(2) user_path_step [OF va d] u])
  moreover have "cr3 s \<noteq> fr"
    using nt user_path_Nil unfolding not_table_def by (metis tab.simps(1))
  ultimately have "pmem s' (entry_at (cr3 s) 0x1ff) = pmem s (entry_at (cr3 s) 0x1ff)"
    using entry_linked_other [OF F, where q = "[]" and u = "cr3 s" and j = "0x1ff"] s' by simp
  then have "fractal (pmem s') (cr3 s')"
    using I(1) s' by (simp add: fractal_def)
  moreover have "sep (pmem s') (cr3 s')"
    using sep_linked [OF F] s' by simp
  moreover have "v \<in> taken (alst s')"
    if "user_path q" "tab (pmem s') (cr3 s') q = Some v" for q v
    using tab [OF that(2,1)] inv that(1) a(4) s' by (auto simp: pt_inv_def)
  ultimately have "pt_inv ainv taken s'"
    using a(1) s' unfolding pt_inv_def by simp
  moreover have "same_translation s s'"
    using mmu_walk_linked [OF F] s' I(4) by (simp add: same_translation_def mmu_translate_def)
  ultimately show ?thesis
    using tab_linked_fresh [OF F] a(4) s' F by (simp add: grown_def vpath_Suc)
qed

lemma leaves_or_parent:
  assumes inv: "pt_inv ainv taken s"
    and u: "tab (pmem s) (cr3 s) (vpath addr d) = Some u" and d: "d < 3" and va: "user_va addr"
    and e: "present (pmem s (entry_at u (pt_index (3 - d) addr)))"
      "\<not> huge (pmem s (entry_at u (pt_index (3 - d) addr)))" and f: "flags_only pm"
  shows "keeps_leaves addr k s (s\<lparr>pmem := (pmem s)(entry_at u (pt_index (3 - d) addr)
      := pmem s (entry_at u (pt_index (3 - d) addr)) OR pm)\<rparr>)"
  using leaf_of_or_parent [OF pt_invD(2) [OF inv] user_path_vpath [OF va] u d _ f e] d
  by (simp add: keeps_leaves_def leaf_def)

lemma leaves_link:
  assumes F: "fresh_link (pmem s) (cr3 s) (vpath addr d) u (pt_index (3 - d) addr) fr pm"
    and d: "d < k"
  shows "keeps_leaves addr k s (s\<lparr>alst := al,
      pmem := link_table (pmem s) (entry_at u (pt_index (3 - d) addr)) fr pm\<rparr>)"
  unfolding keeps_leaves_def
proof (intro allI impI)
  fix va assume va: "user_va va"
  note L = fresh_linkD [OF F]
  let ?e = "pmem s (entry_at u (pt_index (3 - d) addr))"
  let ?s' = "s\<lparr>alst := al, pmem := link_table (pmem s) (entry_at u (pt_index (3 - d) addr)) fr pm\<rparr>"
  have l: "leaf ?s' va = (if vpath va (Suc d) = vpath addr (Suc d) then None else leaf s va)"
    using leaf_of_linked [OF F va] by (simp add: leaf_def vpath_Suc)
  show "leaf ?s' va = leaf s va \<or> leaf ?s' va = None \<and> lost_leaf addr k s va"
  proof (cases "vpath va (Suc d) = vpath addr (Suc d)")
    case True
    then have v: "vpath va d = vpath addr d" "pt_index (3 - d) va = pt_index (3 - d) addr"
      by (simp_all add: vpath_Suc)
    have T: "tab (pmem s) (cr3 s) (vpath va d) = Some u" "tab (pmem s) (cr3 s) (vpath addr d) = Some u" "d < 3"
      using L(3,4) v by simp_all
    show ?thesis
    proof (cases "huge ?e")
      case True
      then have "leaf s va = Some (d, ?e)" "leaf s addr = Some (d, ?e)"
        using leaf_present_tab [OF T(1)] leaf_present_tab [OF T(2)] T(3) v by (simp_all add: ends_walk_def)
      then show ?thesis using l L(7) d \<open>vpath va (Suc d) = vpath addr (Suc d)\<close> by (auto simp: lost_leaf_def)
    next
      case False
      then have "leaf s va = None"
        using leaf_of_hole [OF T(1)] T(3) L(7) v by (simp add: leaf_def ends_walk_def)
      then show ?thesis using l by simp
    qed
  qed (simp add: l)
qed

section \<open>The loop\<close>

text \<open>A large page on the path above depth \<open>d\<close>, which makes \<^verbatim>\<open>Set\<close> fail.\<close>

definition large_above :: "'a machine \<Rightarrow> VirtAddr \<Rightarrow> nat \<Rightarrow> bool" where
  "large_above s addr d \<longleftrightarrow>
     (\<exists>k < d. \<exists>u. tab (pmem s) (cr3 s) (vpath addr k) = Some u
        \<and> present (pmem s (entry_at u (pt_index (3 - k) addr)))
        \<and> huge (pmem s (entry_at u (pt_index (3 - k) addr))))"

text \<open>What one iteration of the loop does to the machine.\<close>

definition table_step ::
    "('a \<Rightarrow> PhysSize \<Rightarrow> PhysSize \<Rightarrow> (PhysAddr option \<times> 'a) res) \<Rightarrow> u64 \<Rightarrow> VirtAddr \<Rightarrow> 'a machine \<Rightarrow> 'a machine \<Rightarrow> bool" where
  "table_step A pm addr s s' \<longleftrightarrow> (\<exists>p i u. user_path (p @ [i]) \<and> p @ [i] = vpath addr (Suc (length p)) \<and>
     tab (pmem s) (cr3 s) p = Some u \<and>
     ((present (pmem s (entry_at u i)) \<and> \<not> huge (pmem s (entry_at u i))
        \<and> s' = s\<lparr>pmem := (pmem s)(entry_at u i := pmem s (entry_at u i) OR pm)\<rparr>)
      \<or> (\<exists>f al. A (alst s) 0x1000 0x1000 = Inr (Some f, al) \<and> fresh_link (pmem s) (cr3 s) p u i f pm
        \<and> s' = s\<lparr>alst := al, pmem := link_table (pmem s) (entry_at u i) f pm\<rparr>)))"

lemma table_stepI:
  assumes "user_va addr" "d < 3" and u: "tab (pmem s) (cr3 s) (vpath addr d) = Some u"
    and "(present (pmem s (entry_at u (pt_index (3 - d) addr))) \<and> \<not> huge (pmem s (entry_at u (pt_index (3 - d) addr)))
        \<and> s' = s\<lparr>pmem := (pmem s)(entry_at u (pt_index (3 - d) addr) := pmem s (entry_at u (pt_index (3 - d) addr)) OR pm)\<rparr>)
      \<or> (\<exists>f al. A (alst s) 0x1000 0x1000 = Inr (Some f, al)
        \<and> fresh_link (pmem s) (cr3 s) (vpath addr d) u (pt_index (3 - d) addr) f pm
        \<and> s' = s\<lparr>alst := al, pmem := link_table (pmem s) (entry_at u (pt_index (3 - d) addr)) f pm\<rparr>)"
  shows "table_step A pm addr s s'"
proof -
  have "vpath addr d @ [pt_index (3 - d) addr] = vpath addr (Suc (length (vpath addr d)))"
    by (simp add: vpath_Suc)
  then show ?thesis unfolding table_step_def using user_path_step [OF assms(1,2)] u assms(4) by blast
qed

context page_source
begin

lemma Set_loop_step:
  assumes t: "al_Alloc (allocator t) = Alloc" and pm: "flags_only pm" "present pm"
    and va: "user_va addr" and td: "td \<le> 3" "Suc n \<le> td"
    and inv: "pt_inv invar taken s"
    and u: "tab (pmem s) (cr3 s) (vpath addr (td - Suc n)) = Some u"
  obtains (panic) "Set_loop t addr pm td (Suc n) s =
      Inl (Panic ''PageTable::Set() - allocation failed'')"
  | (large) "Set_loop t addr pm td (Suc n) s = Inr (False, s)" "large_above s addr td"
  | (step) s' v where "Set_loop t addr pm td (Suc n) s = Set_loop t addr pm td n s'"
      "grown invar taken s s'" "tab (pmem s') (cr3 s') (vpath addr (td - n)) = Some v"
      "keeps_leaves addr td s s'" "table_step Alloc pm addr s s'"
proof -
  let ?d = "td - Suc n"
  let ?l = "entry_at u (pt_index (3 - ?d) addr)"
  have d: "?d < 3" "Suc ?d = td - n" using td by auto
  note I = pt_invD [OF inv]
  have rd: "read_entry s addr ?d = Inr (pmem s ?l)"
    using read_entry_ok [OF I(1) u] d(1) by simp
  show ?thesis
  proof (cases "present (pmem s ?l)")
    case True
    show ?thesis
    proof (cases "huge (pmem s ?l)")
      case h: True
      have "large_above s addr td"
        using u True h td by (auto simp: large_above_def intro!: exI [of _ ?d])
      with True h rd show ?thesis
        by (intro large) (simp_all add: present_def huge_def Let_def)
    next
      case False
      let ?s' = "s\<lparr>pmem := (pmem s)(?l := pmem s ?l OR pm)\<rparr>"
      have G: "grown invar taken s ?s' \<and> tab (pmem ?s') (cr3 ?s') p = tab (pmem s) (cr3 s) p" for p
        by (rule grown_or_parent [OF inv u d(1) va True pm(1) refl])
      have "tab (pmem s) (cr3 s) (vpath addr (td - n)) = Some (pframe (pmem s ?l))"
        using u True False unfolding d(2) [symmetric] vpath_Suc by (simp add: tab_snoc Let_def)
      then have T: "tab (pmem ?s') (cr3 ?s') (vpath addr (td - n)) = Some (pframe (pmem s ?l))"
        by (rule trans [OF conjunct2 [OF G]])
      have L: "Set_loop t addr pm td (Suc n) s = Set_loop t addr pm td n ?s'"
        using True False rd write_entry_ok [OF I(1) u] d(1)
        by (simp add: present_def huge_def Let_def)
      have "table_step Alloc pm addr s ?s'"
        using True False by (intro table_stepI [OF va d(1) u]) blast
      then show ?thesis
        by (rule step [OF L conjunct1 [OF G] T leaves_or_parent [OF inv u d(1) va True False pm(1)]])
    qed
  next
    case False
    show ?thesis
    proof (cases rule: pageE [OF I(3)])
      case (1 a')
      then show ?thesis
        using False rd t by (intro panic) (simp add: present_def Let_def GetAllocator_def)
    next
      case (2 f a')
      let ?s1 = "s\<lparr>alst := a', pmem := (pmem s)(?l := f OR pm)\<rparr>"
      let ?s' = "s\<lparr>alst := a', pmem := link_table (pmem s) ?l f pm\<rparr>"
      note G = grown_link [OF inv u d(1) va False pm 2(2-5) refl]
      have le: "present (f OR pm)" "\<not> huge (f OR pm)" "pframe (f OR pm) = f"
        using link_entry [OF 2(3) pm] by auto
      have u1: "tab (pmem ?s1) (cr3 ?s1) (vpath addr ?d) = Some u"
        using tab_upd_at [OF I(2) user_path_vpath [OF va] u pt_index_less] d(1) by simp
      then have tab1: "tab (pmem ?s1) (cr3 ?s1) (vpath addr (Suc ?d)) = Some f"
        using le unfolding vpath_Suc by (simp add: tab_snoc Let_def)
      have fr1: "fractal (pmem ?s1) (cr3 ?s1)"
        using slot_entry_other [OF I(2) user_path_step [OF va d(1)] u] I(1)
        by (simp add: fractal_def)
      have "bindE (GetTableStart addr (Suc ?d)) (Bzero_page ?s1) = Inr ?s'"
        using Bzero_ok [OF fr1 tab1] d(1) by (simp add: link_table_def)
      then have "bindE (GetTableStart addr (Suc ?d)) (\<lambda>v. bindE (Bzero_page ?s1 v) h) = h ?s'" for h
        using bindE_assoc [of "GetTableStart addr (Suc ?d)" "Bzero_page ?s1" h] by simp
      moreover have "write_entry (s\<lparr>alst := a'\<rparr>) addr ?d (f OR pm) = Inr ?s1"
        using write_entry_ok [of "s\<lparr>alst := a'\<rparr>" addr ?d u] I(1) u d(1) by simp
      ultimately have L: "Set_loop t addr pm td (Suc n) s = Set_loop t addr pm td n ?s'"
        using False rd t 2(1) by (simp add: present_def Let_def GetAllocator_def)
      have "keeps_leaves addr td s ?s'" using leaves_link [of s addr ?d u f pm td a'] G td by simp
      moreover have "table_step Alloc pm addr s ?s'"
        using 2(1) G by (intro table_stepI [OF va d(1) u]) blast
      ultimately show ?thesis using step [OF L conjunct1 [OF G] _] G d(2) by simp
    qed
  qed
qed

lemma Set_loop_ok:
  assumes t: "al_Alloc (allocator t) = Alloc" and pm: "flags_only pm" "present pm"
    and va: "user_va addr" and td: "td \<le> 3"
  shows "n \<le> td \<Longrightarrow> pt_inv invar taken s \<Longrightarrow>
    tab (pmem s) (cr3 s) (vpath addr (td - n)) = Some u \<Longrightarrow>
    Set_loop t addr pm td n s = Inl (Panic ''PageTable::Set() - allocation failed'')
    \<or> (\<exists>s'. Set_loop t addr pm td n s = Inr (False, s') \<and> grown invar taken s s'
         \<and> large_above s' addr td)
    \<or> (\<exists>s' v. Set_loop t addr pm td n s = Inr (True, s') \<and> grown invar taken s s'
         \<and> tab (pmem s') (cr3 s') (vpath addr td) = Some v \<and> keeps_leaves addr td s s'
         \<and> (table_step Alloc pm addr)\<^sup>*\<^sup>* s s')"
proof (induction n arbitrary: s u)
  case 0
  then show ?case by (auto intro: grown_refl)
next
  case (Suc n)
  show ?case
  proof (cases rule: Set_loop_step [OF t pm va td Suc.prems])
    case 1
    then show ?thesis by blast
  next
    case 2
    then show ?thesis using grown_refl [OF Suc.prems(2)] by blast
  next
    case (3 s' v)
    have "n \<le> td" "pt_inv invar taken s'"
      using Suc.prems(1) 3(2) by (simp_all add: grown_def)
    from Suc.IH [OF this 3(3)] show ?thesis
      unfolding 3(1) using grown_trans [OF 3(2)] keeps_leaves_trans [OF va 3(4)]
        converse_rtranclp_into_rtranclp [of "table_step Alloc pm addr", OF 3(5)] by blast
  qed
qed

end

section \<open>The whole operation\<close>

text \<open>What a translation gives on the page whose entry at depth \<open>d\<close> is \<open>e\<close>.\<close>

definition entry_translation :: "u64 \<Rightarrow> nat \<Rightarrow> VirtAddr \<Rightarrow> u64 option" where
  "entry_translation e d va =
     (if canonical va \<and> present e \<and> 1 \<le> d then Some (leaf_addr (3 - d) e va) else None)"

text \<open>The addresses of the page at \<open>addr\<close> are those with the same indexes down to depth \<open>d\<close>.\<close>

definition same_page :: "nat \<Rightarrow> VirtAddr \<Rightarrow> VirtAddr \<Rightarrow> bool" where
  "same_page d addr va \<longleftrightarrow> vpath va (Suc d) = vpath addr (Suc d)"

definition page_set ::
    "('a \<Rightarrow> bool) \<Rightarrow> ('a \<Rightarrow> u64 set) \<Rightarrow> 'a machine \<Rightarrow> VirtAddr \<Rightarrow> nat \<Rightarrow> u64 \<Rightarrow> 'a machine \<Rightarrow> bool" where
  "page_set ainv taken s addr d e s' \<longleftrightarrow>
     pt_inv ainv taken s' \<and> cr3 s' = cr3 s \<and> invlpgs s' = invlpgs s
     \<and> taken (alst s) \<subseteq> taken (alst s')
     \<and> (\<exists>u. tab (pmem s') (cr3 s') (vpath addr d) = Some u \<and> pmem s' (entry_at u (pt_index (3 - d) addr)) = e)
     \<and> (\<forall>va. user_va va \<longrightarrow> mmu_translate (pmem s') (cr3 s') va =
          (if same_page d addr va then entry_translation e d va
           else mmu_translate (pmem s) (cr3 s) va))"

lemma page_set_translate:
  "page_set ainv taken s addr d e s' \<Longrightarrow> user_va va \<Longrightarrow> mmu_translate (pmem s') (cr3 s') va =
    (if same_page d addr va then entry_translation e d va else mmu_translate (pmem s) (cr3 s) va)"
  unfolding page_set_def by blast

lemma page_set_final:
  assumes inv: "pt_inv ainv taken s"
    and u: "tab (pmem s) (cr3 s) (vpath addr d) = Some u" and d: "d \<le> 3" and va: "user_va addr"
    and e: "leaf_entry e d"
    and s': "s' = s\<lparr>pmem := (pmem s)(entry_at u (pt_index (3 - d) addr) := e)\<rparr>"
  shows "page_set ainv taken s addr d e s'"
proof -
  note I = pt_invD [OF inv]
  let ?i = "pt_index (3 - d) addr"
  have up: "user_path (vpath addr d)" by (rule user_path_vpath [OF va d])
  have tab: "tab (pmem s') (cr3 s') q = Some v \<Longrightarrow> user_path q \<Longrightarrow>
      tab (pmem s) (cr3 s) q = Some v" for q v
    using tab_upd_leaf [OF I(2) up u pt_index_less, of e q "3 - d" addr] e s'
    by (auto split: if_splits)
  have "entry_at (cr3 s) 0x1ff \<noteq> entry_at u ?i"
  proof (cases "d < 3")
    case True
    then show ?thesis using slot_entry_other [OF I(2) user_path_step [OF va] u] by simp
  next
    case False
    then have d3: "d = 3" using d by simp
    show ?thesis
    proof
      assume eq: "entry_at (cr3 s) 0x1ff = entry_at u ?i"
      have "is_frame (cr3 s)" by (simp add: is_frame_def I(4))
      then have "cr3 s = u"
        using entry_at_inj [OF _ sep_frame [OF I(2) u] _ pt_index_less eq] by auto
      then have "vpath addr d = []"
        using sepD [OF I(2) up user_path_Nil u] by simp
      then show False using d3 by (metis length_vpath list.size(3) zero_neq_numeral)
    qed
  qed
  then have "fractal (pmem s') (cr3 s')"
    using I(1) s' by (simp add: fractal_def)
  moreover have "sep (pmem s') (cr3 s')"
    using sep_mono [OF I(2), of "pmem s'"] tab s' by simp
  ultimately have "pt_inv ainv taken s'"
    using inv tab s' unfolding pt_inv_def by fastforce
  moreover have "mmu_translate (pmem s') (cr3 s') va =
      (if same_page d addr va then entry_translation e d va
       else mmu_translate (pmem s) (cr3 s) va)" if v: "user_va va" for va
  proof (cases "same_page d addr va")
    case False
    then have "mmu_walk (pmem s') (cr3 s) va 3 = mmu_walk (pmem s) (cr3 s) va 3"
      using mmu_walk_upd_other [OF I(2) up u pt_index_less v] s'
      by (simp add: same_page_def vpath_Suc)
    with False show ?thesis using s' I(4) by (simp add: mmu_translate_def)
  next
    case True
    then have p: "vpath va d = vpath addr d" "pt_index (3 - d) va = ?i"
      by (simp_all add: same_page_def vpath_Suc)
    have u': "tab (pmem s') (cr3 s') (vpath va d) = Some u"
      using tab_upd_at [OF I(2) up u pt_index_less] s' p by simp
    have e': "pmem s' (entry_at u (pt_index (3 - d) va)) = e"
      using s' p by simp
    have "mmu_walk (pmem s') (cr3 s') va 3 =
        (if present e \<and> 1 \<le> d then Some (leaf_addr (3 - d) e va) else None)"
    proof (cases "present e")
      case False
      then show ?thesis using mmu_walk_hole [OF u' d] e' by simp
    next
      case pe: True
      show ?thesis
      proof (cases "d = 0")
        case False
        then show ?thesis
          using mmu_walk_leaf [OF u' d pe _ e'] e pe by (auto simp: leaf_entry_def)
      next
        case True
        have "huge e" using e pe True by (simp add: leaf_entry_def)
        moreover have "u = cr3 s'"
          using u' True by simp
        ultimately show ?thesis
          using mmu_walk_top_huge [of "pmem s'" "cr3 s'" va] e' True by simp
      qed
    qed
    then show ?thesis
      using True s' I(4) by (simp add: mmu_translate_def entry_translation_def)
  qed
  moreover have "tab (pmem s') (cr3 s') (vpath addr d) = Some u"
    using tab_upd_at [OF I(2) up u pt_index_less] s' by simp
  ultimately show ?thesis
    using s' by (simp add: page_set_def)
qed

text \<open>The leaves after an entry is stored.\<close>

definition leaf_set :: "VirtAddr \<Rightarrow> nat \<Rightarrow> u64 \<Rightarrow> 'a machine \<Rightarrow> 'a machine \<Rightarrow> bool" where
  "leaf_set addr d e s s' \<longleftrightarrow> (\<forall>va. user_va va \<longrightarrow>
     (if same_page d addr va then leaf s' va = entry_leaf d e
      else leaf s' va = leaf s va \<or> leaf s' va = None \<and> lost_leaf addr d s va))"

lemma leaf_set_final:
  assumes inv: "pt_inv ainv taken s1" and k: "keeps_leaves addr d s s1"
    and u: "tab (pmem s1) (cr3 s1) (vpath addr d) = Some u" and d: "d \<le> 3" and va: "user_va addr"
    and e: "leaf_entry e d"
  shows "leaf_set addr d e s (s1\<lparr>pmem := (pmem s1)(entry_at u (pt_index (3 - d) addr) := e)\<rparr>)"
proof -
  have "leaf (s1\<lparr>pmem := (pmem s1)(entry_at u (pt_index (3 - d) addr) := e)\<rparr>) v =
      (if same_page d addr v then entry_leaf d e else leaf s1 v)" if "user_va v" for v
    using leaf_of_upd [OF pt_invD(2) [OF inv] user_path_vpath [OF va d] u d that e]
    by (simp add: leaf_def same_page_def)
  then show ?thesis using k by (auto simp: leaf_set_def keeps_leaves_def)
qed

lemma page_set_grown:
  assumes "grown ainv taken s s1" "page_set ainv taken s1 addr d e s'"
  shows "page_set ainv taken s addr d e s'"
  using assms by (auto simp: grown_def page_set_def same_translation_def)

context page_source
begin

lemma Set_ok:
  assumes t: "al_Alloc (allocator t) = Alloc" "IsSet t s" and c: "noncritical c"
    and pm: "flags_only pm" "present pm" and va: "user_va addr" and d: "d \<le> 3"
    and al: "addr mod level_size d = 0" and inv: "pt_inv invar taken s" and e: "leaf_entry e d"
  obtains (panic) "Set c t s addr e pm d = Inl (Panic ''PageTable::Set() - allocation failed'')"
  | (large) s' where "Set c t s addr e pm d = Inr (None, s')" "grown invar taken s s'"
      "large_above s' addr d"
  | (stored) s' over where "Set c t s addr e pm d = Inr (Some over, s')"
      "page_set invar taken s addr d e s'"
      "\<And>va. \<not> over \<Longrightarrow> user_va va \<Longrightarrow> same_page d addr va \<Longrightarrow> mmu_translate (pmem s) (cr3 s) va = None"
      "leaf_set addr d e s s'" "\<exists>s1 u. (table_step Alloc pm addr)\<^sup>*\<^sup>* s s1 \<and> pt_inv invar taken s1
          \<and> tab (pmem s1) (cr3 s1) (vpath addr d) = Some u
          \<and> s' = s1\<lparr>pmem := (pmem s1)(entry_at u (pt_index (3 - d) addr) := e)\<rparr>"
proof -
  have S: "Set c t s addr e pm d =
    bindE (Set_loop t addr pm d d s) (\<lambda>(ok, s).
       if \<not> ok then Inr (None, s)
       else bindE (read_entry s addr d) (\<lambda>old.
         bindE (write_entry s addr d e) (\<lambda>s. Inr (Some (old \<noteq> 0), s))))"
    using t(2) c al d by (simp add: Set_def)
  have u: "tab (pmem s) (cr3 s) (vpath addr (d - d)) = Some (cr3 s)" by simp
  consider (p) "Set_loop t addr pm d d s = Inl (Panic ''PageTable::Set() - allocation failed'')"
    | (l) s' where "Set_loop t addr pm d d s = Inr (False, s')" "grown invar taken s s'"
        "large_above s' addr d"
    | (ok) s' v where "Set_loop t addr pm d d s = Inr (True, s')" "grown invar taken s s'"
        "tab (pmem s') (cr3 s') (vpath addr d) = Some v" "keeps_leaves addr d s s'"
        "(table_step Alloc pm addr)\<^sup>*\<^sup>* s s'"
    using Set_loop_ok [OF t(1) pm va d order_refl inv u] by blast
  then show ?thesis
  proof cases
    case p
    then show ?thesis using panic S by simp
  next
    case (l s')
    then show ?thesis using large S by simp
  next
    case (ok s1 v)
    let ?l = "entry_at v (pt_index (3 - d) addr)"
    let ?s' = "s1\<lparr>pmem := (pmem s1)(?l := e)\<rparr>"
    have inv1: "pt_inv invar taken s1" using ok(2) by (simp add: grown_def)
    note fr = pt_invD(1) [OF inv1]
    have R: "Set c t s addr e pm d = Inr (Some (pmem s1 ?l \<noteq> 0), ?s')"
      using S ok(1) read_entry_ok [OF fr ok(3) d] write_entry_ok [OF fr ok(3) d] by simp
    show ?thesis
    proof (rule stored [OF R page_set_grown [OF ok(2) page_set_final [OF inv1 ok(3) d va e refl]]])
      fix va
      assume z: "\<not> pmem s1 ?l \<noteq> 0" and v: "user_va va" "same_page d addr va"
      have "mmu_walk (pmem s1) (cr3 s1) va 3 = None"
        using mmu_walk_hole [of "pmem s1" "cr3 s1" va d v] ok(3) v(2) z d
        by (simp add: same_page_def vpath_Suc)
      then have "mmu_translate (pmem s1) (cr3 s1) va = None"
        using pt_invD(4) [OF inv1] by (simp add: mmu_translate_def)
      then show "mmu_translate (pmem s) (cr3 s) va = None"
        using ok(2) v(1) unfolding grown_def same_translation_def by metis
    qed (rule leaf_set_final [OF inv1 ok(4,3) d va e], use ok(3,5) inv1 in blast)
  qed
qed

end

end
