(* ===== verification/PageTableRead.thy ===== *)
theory PageTableRead
  imports PageTableSet
begin

text \<open>
  \<^verbatim>\<open>PageTable::Walk\<close> and \<^verbatim>\<open>PageTable::Read\<close> against the processor's own translation: the
  depth at which the walk stops, the entry it finds there and the size it reports.
\<close>

section \<open>Where the walk stops\<close>

text \<open>The walk reaches depth \<open>d\<close> and finds entry \<open>e\<close> in the table of that depth.\<close>

definition reaches :: "'a machine \<Rightarrow> VirtAddr \<Rightarrow> nat \<Rightarrow> u64 \<Rightarrow> bool" where
  "reaches s va d e \<longleftrightarrow> d \<le> 3 \<and>
     (\<exists>t. tab (pmem s) (cr3 s) (vpath va d) = Some t \<and> e = pmem s (entry_at t (pt_index (3 - d) va)))"

lemma reaches_tab:
  "reaches s va d e \<Longrightarrow> present e \<Longrightarrow> \<not> huge e \<Longrightarrow>
    tab (pmem s) (cr3 s) (vpath va (Suc d)) = Some (pframe e)"
  by (auto simp: reaches_def vpath_Suc tab_snoc Let_def)

lemma Walk_loop_stops:
  assumes "fractal (pmem s) (cr3 s)"
  shows "n < 4 \<Longrightarrow> tab (pmem s) (cr3 s) (vpath va (3 - n)) = Some t \<Longrightarrow>
    \<exists>d e. Walk_loop s va (Suc n) e0 = Inr (d, e) \<and>
      ((d \<le> 3 \<and> reaches s va d e \<and> (huge e \<or> \<not> present e))
       \<or> (d = 4 \<and> reaches s va 3 e \<and> \<not> huge e \<and> present e))"
proof (induction n arbitrary: t e0)
  case 0
  let ?e = "pmem s (entry_at t (pt_index 0 va))"
  have r: "read_entry s va 3 = Inr ?e" "reaches s va 3 ?e"
    using read_entry_ok [OF assms, of va 3 t] 0 by (auto simp: reaches_def)
  have h: "huge ?e \<longleftrightarrow> ?e AND 0x80 \<noteq> 0" and p: "present ?e \<longleftrightarrow> ?e AND 1 \<noteq> 0"
    by (simp_all add: huge_def present_def)
  show ?case
  proof (cases "huge ?e \<or> \<not> present ?e")
    case True
    with r h p show ?thesis by auto
  next
    case False
    with r h p have "Walk_loop s va (Suc 0) e0 = Inr (4, ?e)" by simp
    with False r(2) show ?thesis by blast
  qed
next
  case (Suc n)
  let ?d = "3 - Suc n"
  let ?e = "pmem s (entry_at t (pt_index (3 - ?d) va))"
  have d: "?d \<le> 3" "Suc ?d = 3 - n" using Suc.prems(1) by auto
  have r: "read_entry s va ?d = Inr ?e" "reaches s va ?d ?e"
    using read_entry_ok [OF assms Suc.prems(2) d(1)] Suc.prems(2) d(1) by (auto simp: reaches_def)
  show ?case
  proof (cases "huge ?e \<or> \<not> present ?e")
    case True
    then show ?thesis using r d(1) by (auto simp: huge_def present_def)
  next
    case False
    then have T: "tab (pmem s) (cr3 s) (vpath va (3 - n)) = Some (pframe ?e)"
      using reaches_tab [OF r(2)] unfolding d(2) by simp
    have "Walk_loop s va (Suc (Suc n)) e0 = Walk_loop s va (Suc n) ?e"
      using False r(1) unfolding Walk_loop.simps(2) [of s va "Suc n"]
      by (simp add: huge_def present_def)
    then show ?thesis using Suc.IH [OF _ T, of ?e] Suc.prems(1) by simp
  qed
qed

lemma Walk_stops:
  assumes c: "noncritical c" and t: "IsSet t s" and fr: "fractal (pmem s) (cr3 s)"
  obtains (hole) d e where "Walk c t s va = Inr (- 1, e, level_size d)" "reaches s va d e"
      "\<not> present e" "\<not> huge e"
  | (leaf) d e where "Walk c t s va = Inr (int d, e, level_size d)" "reaches s va d e"
      "huge e \<or> (d = 3 \<and> present e)"
proof -
  have "tab (pmem s) (cr3 s) (vpath va (3 - 3)) = Some (cr3 s)" by simp
  from Walk_loop_stops [OF fr _ this, of 0] obtain d e where
    L: "Walk_loop s va 4 0 = Inr (d, e)" and
    D: "(d \<le> 3 \<and> reaches s va d e \<and> (huge e \<or> \<not> present e))
      \<or> (d = 4 \<and> reaches s va 3 e \<and> \<not> huge e \<and> present e)"
    by (auto simp: numeral_eq_Suc simp del: Walk_loop.simps)
  have W: "Walk c t s va = (if d = 4 \<or> huge e then
      (let d = (if d = 4 then 3 else d) in Inr (int d, e, level_size d))
    else Inr (- 1, e, level_size d))"
    using c t L by (simp add: Walk_def huge_def)
  show ?thesis
  proof (cases "d = 4 \<or> huge e")
    case True
    then show ?thesis using D W leaf [of "if d = 4 then 3 else d" e] by (auto simp: Let_def)
  next
    case False
    then show ?thesis using D W hole by auto
  qed
qed

section \<open>Agreement with the processor\<close>

lemma reaches_walk:
  "reaches s va d e \<Longrightarrow> mmu_walk (pmem s) (cr3 s) va 3 =
    (if \<not> present e then None
     else if d = 3 then Some (leaf_addr 0 e va)
     else if huge e then (if 1 \<le> d then Some (leaf_addr (3 - d) e va) else None)
     else mmu_walk (pmem s) (pframe e) va (2 - d))"
proof -
  assume r: "reaches s va d e"
  then obtain t where t: "tab (pmem s) (cr3 s) (vpath va d) = Some t"
    and e: "e = pmem s (entry_at t (pt_index (3 - d) va))" and d: "d \<le> 3"
    by (auto simp: reaches_def)
  have W: "mmu_walk (pmem s) (cr3 s) va 3 = mmu_walk (pmem s) t va (3 - d)"
    by (rule mmu_walk_tab [OF t d])
  show ?thesis
  proof (cases "d = 3")
    case True
    then show ?thesis using W e by (simp add: Let_def)
  next
    case False
    then have k: "3 - d = Suc (2 - d)" "2 - d < 2 \<longleftrightarrow> 1 \<le> d" using d by auto
    show ?thesis using W e False unfolding k(1) mmu_walk.simps by (simp add: Let_def k(2))
  qed
qed

lemma reaches_same_page:
  "reaches s va d e \<Longrightarrow> same_page d va vb \<Longrightarrow> reaches s vb d e"
  by (auto simp: reaches_def same_page_def vpath_Suc)

lemma level_size_mask: "d \<le> 3 \<Longrightarrow> level_size d - 1 = mask (12 + 9 * (3 - d))"
proof -
  assume "d \<le> 3"
  then consider "d = 0" | "d = 1" | "d = 2" | "d = 3" by linarith
  then show ?thesis by cases (simp_all add: level_size_def mask_eq_exp_minus_1)
qed

text \<open>The address \<^verbatim>\<open>Read\<close> gives for a leaf entry keeps the frame bits the processor uses.\<close>

lemma Read_frame_4k: "pframe (e AND 0x7ffffffffffff000) = pframe e"
  unfolding pframe_mask mask_consts by (intro bit_word_eqI) (auto simp: bit_simps)

lemma Read_frame_2m: "pframe (e AND 0x7fffffffffe00000) = pframe e AND NOT (mask 21)"
  unfolding pframe_mask mask_consts by (intro bit_word_eqI) (auto simp: bit_simps)

definition read_attributes :: "u64 \<Rightarrow> attributes" where
  "read_attributes e = \<lparr>executable = \<not> bit e 63, writable = bit e 1, cachable = True\<rparr>"

text \<open>The complete behaviour of \<^verbatim>\<open>Read\<close>.\<close>

lemma Read_cases:
  assumes c: "noncritical c" and t: "IsSet t s" and fr: "fractal (pmem s) (cr3 s)"
  obtains (hole) d e where "Read c t s va = Inr (None, level_size d)" "reaches s va d e"
      "\<not> present e" "\<not> huge e"
  | (big) d e where "Read c t s va = Inl (AssertFail ''depth >= 2'')" "reaches s va d e" "huge e"
      "d < 2"
  | (page) d e p where "Read c t s va = Inr (Some (p, read_attributes e), level_size d)"
      "reaches s va d e" "huge e \<or> (d = 3 \<and> present e)" "d = 2 \<or> d = 3"
      "p = (if d = 3 then e AND 0x7ffffffffffff000 else e AND 0x7fffffffffe00000)"
proof (cases rule: Walk_stops [OF c t fr, of va])
  case (1 d e)
  then have "Read c t s va = Inr (None, level_size d)"
    using c t by (simp add: Read_def)
  with 1 show ?thesis by (intro hole) auto
next
  case (2 d e)
  have nz: "e \<noteq> 0" using 2(3) by (auto simp: huge_def present_def)
  have d: "d \<le> 3" using 2(2) by (simp add: reaches_def)
  show ?thesis
  proof (cases "d < 2")
    case True
    then have "huge e" using 2(3) by auto
    moreover have "Read c t s va = Inl (AssertFail ''depth >= 2'')"
      using c t 2(1) nz True by (simp add: Read_def)
    ultimately show ?thesis using True 2(2) by (intro big) auto
  next
    case False
    then have d2: "d = 2 \<or> d = 3" using d by auto
    have "Read c t s va = Inr (Some (if d = 3 then e AND 0x7ffffffffffff000
        else e AND 0x7fffffffffe00000, read_attributes e), level_size d)"
      using c t 2(1) nz False by (simp add: Read_def read_attributes_def bit_consts)
    with 2 d2 show ?thesis by (intro page) auto
  qed
qed

lemma Read_agrees:
  assumes c: "noncritical c" and t: "IsSet t s" and fr: "fractal (pmem s) (cr3 s)"
  shows "(case Read c t s va of
      Inl f \<Rightarrow> f = AssertFail ''depth >= 2''
    | Inr (None, sz) \<Rightarrow> mmu_translate (pmem s) (cr3 s) va = None
    | Inr (Some (p, attrs), sz) \<Rightarrow>
        mmu_translate (pmem s) (cr3 s) va \<in> {None, Some (pframe p OR (va AND (sz - 1)))})"
proof -
  have r: "pframe (cr3 s) = cr3 s" using fr by (simp add: fractal_def)
  show ?thesis
  proof (cases rule: Read_cases [OF c t fr, of va])
    case (1 d e)
    then show ?thesis using reaches_walk [OF 1(2)] r by (simp add: mmu_translate_def)
  next
    case (2 d e)
    then show ?thesis by simp
  next
    case (3 d e p)
    from 3(4) have "pframe p OR (va AND (level_size d - 1)) = leaf_addr (3 - d) e va"
      using 3(5) level_size_mask [of d] by (auto simp: leaf_addr_def Read_frame_4k Read_frame_2m)
    moreover have "mmu_walk (pmem s) (cr3 s) va 3 \<in> {None, Some (leaf_addr (3 - d) e va)}"
      using reaches_walk [OF 3(2)] 3(3,4) by auto
    ultimately show ?thesis using 3(1) r by (auto simp: mmu_translate_def)
  qed
qed

text \<open>A hole reported with a size has no translation anywhere in the block of that size.\<close>

lemma Walk_hole:
  assumes c: "noncritical c" and t: "IsSet t s" and fr: "fractal (pmem s) (cr3 s)"
    and w: "Walk c t s va = Inr (- 1, e, sz)"
  shows "\<exists>d \<le> 3. sz = level_size d \<and>
    (\<forall>vb. same_page d va vb \<longrightarrow> mmu_translate (pmem s) (cr3 s) vb = None)"
proof (cases rule: Walk_stops [OF c t fr, of va])
  case (1 d e')
  have "mmu_translate (pmem s) (cr3 s) vb = None" if "same_page d va vb" for vb
    using reaches_walk [OF reaches_same_page [OF 1(2) that]] 1(3) fr
    by (simp add: mmu_translate_def fractal_def)
  moreover have "sz = level_size d" "d \<le> 3" using w 1 by (simp_all add: reaches_def)
  ultimately show ?thesis by blast
next
  case 2
  then show ?thesis using w by simp
qed

section \<open>Reading back an entry\<close>

lemma tab_prefix:
  "tab m r (p @ q) \<noteq> None \<Longrightarrow> tab m r p \<noteq> None"
  by (auto simp: tab_append split: option.splits)

lemma vpath_add: "vpath va (d + k) = vpath va d @ map (\<lambda>j. pt_index (3 - j) va) [d..<d + k]"
  by (induction k) (simp_all add: vpath_def)

lemma reaches_before:
  assumes "reaches s va d e" "reaches s va d' e'" "d' < d"
  shows "present e' \<and> \<not> huge e'"
proof -
  obtain k where d: "d = Suc d' + k" using assms(3) less_iff_Suc_add by auto
  have "tab (pmem s) (cr3 s) (vpath va (Suc d')) \<noteq> None"
    using assms(1) tab_prefix unfolding reaches_def d vpath_add [of va "Suc d'"] by blast
  then show ?thesis
    using assms(2) by (auto simp: reaches_def vpath_Suc tab_snoc Let_def split: if_splits)
qed

lemma reaches_unique:
  assumes "reaches s va d e" "huge e \<or> (d = 3 \<and> present e)"
    and "reaches s va d' e'" "huge e' \<or> d' = 3 \<or> \<not> present e'"
  shows "d = d' \<and> e = e'"
proof -
  have "d \<le> 3" "d' \<le> 3" using assms(1,3) by (simp_all add: reaches_def)
  then have "d = d'"
    using reaches_before [OF assms(1,3)] reaches_before [OF assms(3,1)] assms(2,4)
    by (meson linorder_neqE_nat not_le)
  then show ?thesis using assms(1,3) by (auto simp: reaches_def)
qed

lemma Read_reached:
  assumes c: "noncritical c" and t: "IsSet t s" and fr: "fractal (pmem s) (cr3 s)"
    and r: "reaches s va d e" "huge e \<or> (d = 3 \<and> present e)" "2 \<le> d"
  shows "Read c t s va = Inr (Some (if d = 3 then e AND 0x7ffffffffffff000
    else e AND 0x7fffffffffe00000, read_attributes e), level_size d)"
proof (cases rule: Read_cases [OF c t fr, of va])
  case (1 d' e')
  then show ?thesis using reaches_unique [OF r(1,2) 1(2)] r(2) by auto
next
  case (2 d' e')
  then show ?thesis using reaches_unique [OF r(1,2) 2(2)] r(3) by auto
next
  case (3 d' e' p)
  then show ?thesis using reaches_unique [OF r(1,2) 3(2)] by auto
qed

end
