(* ===== verification/Spans.thy ===== *)
theory Spans
  imports PageTableRead
begin

text \<open>
  Runs of pages as address ranges: which addresses belong to which page of a run, and what
  the entries \<open>phys + i * pageSize\<close> translate them to. This turns the page-by-page result
  of \<^verbatim>\<open>Set\<close> into the statement about \<^verbatim>\<open>SetList\<close> that its callers rely on: a linear map of
  the whole range.
\<close>

section \<open>Pages of canonical addresses\<close>

definition page_bits :: "nat \<Rightarrow> nat" where
  "page_bits d = 12 + 9 * (3 - d)"

lemma unat_not: "unat (NOT va) = 0xFFFFFFFFFFFFFFFF - unat va" for va :: u64
proof -
  have "NOT va = - 1 - va" by (simp add: not_eq_complement)
  then show ?thesis by (simp add: unat_sub)
qed

lemma canonical_bits:
  assumes va: "canonical va" and n: "47 \<le> n" "n < 64"
  shows "bit va n = bit va 47"
proof (cases "va \<le> 0x7FFFFFFFFFFF")
  case True
  then have "unat va < 2 ^ 47" by (simp add: word_le_nat_alt)
  from bit_less_exp [OF this] n(1) show ?thesis by (meson le_refl leD)
next
  case False
  then have "unat (NOT va) < 2 ^ 47"
    using va unat_less_2p [of va] by (simp add: canonical_def unat_not word_le_nat_alt)
  from bit_less_exp [OF this] have "bit va m" if "47 \<le> m" "m < 64" for m
    using that by (auto simp: bit_simps not_less [symmetric])
  with n show ?thesis by simp
qed

lemma drop_bit_eq_iff:
  "drop_bit k a = drop_bit k b \<longleftrightarrow> (\<forall>n. k \<le> n \<longrightarrow> bit a n = bit b n)" for a b :: u64
proof
  assume "drop_bit k a = drop_bit k b"
  then have "bit (drop_bit k a) (n - k) = bit (drop_bit k b) (n - k)" for n by simp
  then show "\<forall>n. k \<le> n \<longrightarrow> bit a n = bit b n" by (auto simp: bit_simps) (metis le_add_diff_inverse)+
next
  assume "\<forall>n. k \<le> n \<longrightarrow> bit a n = bit b n"
  then show "drop_bit k a = drop_bit k b" by (intro bit_word_eqI) (simp add: bit_simps)
qed

lemma pt_index_eq_iff:
  "pt_index k a = pt_index k b \<longleftrightarrow> (\<forall>n. 12 + 9 * k \<le> n \<longrightarrow> n < 21 + 9 * k \<longrightarrow> bit a n = bit b n)"
proof
  assume e: "pt_index k a = pt_index k b"
  show "\<forall>n. 12 + 9 * k \<le> n \<longrightarrow> n < 21 + 9 * k \<longrightarrow> bit a n = bit b n"
  proof (intro allI impI)
    fix n assume n: "12 + 9 * k \<le> n" "n < 21 + 9 * k"
    have "bit (pt_index k a) (n - (12 + 9 * k)) = bit (pt_index k b) (n - (12 + 9 * k))"
      using e by simp
    then show "bit a n = bit b n"
      using n by (simp add: pt_index_def mask_consts bit_simps) (auto dest: bit_imp_le_length)
  qed
next
  assume "\<forall>n. 12 + 9 * k \<le> n \<longrightarrow> n < 21 + 9 * k \<longrightarrow> bit a n = bit b n"
  then show "pt_index k a = pt_index k b"
    by (intro bit_word_eqI) (auto simp: pt_index_def mask_consts bit_simps)
qed

lemma same_page_index:
  "same_page d a b \<longleftrightarrow> (\<forall>j \<le> d. pt_index (3 - j) b = pt_index (3 - j) a)"
  by (auto simp: same_page_def vpath_def less_Suc_eq_le)

lemma same_page_iff:
  assumes "canonical a" "canonical b" and d: "d \<le> 3"
  shows "same_page d a b \<longleftrightarrow> drop_bit (page_bits d) a = drop_bit (page_bits d) b"
proof
  assume p: "same_page d a b"
  have lo: "bit a n = bit b n" if n: "page_bits d \<le> n" "n < 48" for n
  proof -
    define j where "j = (n - 12) div 9"
    have j: "12 + 9 * j \<le> n" "n < 21 + 9 * j" "j \<le> 3" "3 - d \<le> j"
      using n d unfolding j_def page_bits_def by (auto simp: div_le_mono less_mult_imp_div_less)
    then have "pt_index (3 - (3 - j)) b = pt_index (3 - (3 - j)) a"
      using p [unfolded same_page_index, rule_format, of "3 - j"] by simp
    then show ?thesis using j by (simp add: pt_index_eq_iff)
  qed
  have "bit a n = bit b n" if n: "page_bits d \<le> n" for n
  proof (cases "n < 48")
    case False
    have "bit a 47 = bit b 47" using lo [of 47] by (simp add: page_bits_def)
    then show ?thesis
      using False canonical_bits [OF assms(1), of n] canonical_bits [OF assms(2), of n]
      by (cases "n < 64") (auto dest: bit_imp_le_length)
  qed (use lo n in simp)
  then show "drop_bit (page_bits d) a = drop_bit (page_bits d) b" by (simp add: drop_bit_eq_iff)
next
  assume "drop_bit (page_bits d) a = drop_bit (page_bits d) b"
  then show "same_page d a b"
    using d by (auto simp: same_page_index pt_index_eq_iff drop_bit_eq_iff page_bits_def)
qed

section \<open>Pages as ranges\<close>

lemma unat_level_size: "d \<le> 3 \<Longrightarrow> unat (level_size d) = 2 ^ page_bits d"
proof -
  assume "d \<le> 3"
  then consider "d = 0" | "d = 1" | "d = 2" | "d = 3" by linarith
  then show ?thesis by cases (simp_all add: level_size_def page_bits_def)
qed

lemma div_range: "0 < p \<Longrightarrow> q = v div p \<longleftrightarrow> p * q \<le> v \<and> v < p * q + p" for p q v :: nat
  using div_nat_eqI [of p q v] times_div_less_eq_dividend [of p v] dividend_less_times_div [of p v]
  by (auto simp: mult.commute)

lemma drop_bit_range:
  fixes a va :: u64
  assumes "unat a mod 2 ^ k = 0"
  shows "drop_bit k a = drop_bit k va \<longleftrightarrow> unat a \<le> unat va \<and> unat va < unat a + 2 ^ k"
proof -
  have "drop_bit k a = drop_bit k va \<longleftrightarrow> unat a div 2 ^ k = unat va div 2 ^ k"
    by (simp only: word_unat_eq_iff unat_drop_bit_eq) (simp add: drop_bit_eq_div)
  moreover have "unat a = 2 ^ k * (unat a div 2 ^ k)"
    using assms by (simp add: mult_div_mod_eq [symmetric] flip: minus_mod_eq_mult_div)
  ultimately show ?thesis
    using div_range [of "2 ^ k" "unat a div 2 ^ k" "unat va"] by simp
qed

lemma user_va_iff:
  assumes "canonical va"
  shows "user_va va \<longleftrightarrow> va < UserEnd"
proof -
  have top: "UserEnd = NOT (mask 39)" by (simp add: UserEnd_def mask_eq_exp_minus_1)
  have slot: "pt_index 3 va = 0x1ff \<longleftrightarrow> (\<forall>n. 39 \<le> n \<longrightarrow> n < 48 \<longrightarrow> bit va n)"
  proof -
    have "pt_index 3 (- 1) = 0x1ff"
      by (simp add: pt_index_def mask_consts) (intro bit_word_eqI, auto simp: bit_simps)
    then show ?thesis using pt_index_eq_iff [of 3 va "- 1"] by simp
  qed
  have "UserEnd \<le> va" if "pt_index 3 va = 0x1ff"
  proof -
    have b: "bit va n" if "39 \<le> n" "n < 64" for n
      using slot \<open>pt_index 3 va = 0x1ff\<close> canonical_bits [OF assms, of n] that
      by (cases "n < 48") auto
    have "NOT (mask 39) OR va = va"
      by (rule bit_word_eqI) (auto simp: bit_simps b)
    then show ?thesis unfolding top by (metis le_word_or2 or.commute)
  qed
  moreover have "pt_index 3 va = 0x1ff" if "UserEnd \<le> va"
  proof -
    have "unat (NOT va) < 2 ^ 39"
      using that unat_less_2p [of va] by (simp add: UserEnd_def unat_not word_le_nat_alt)
    note less = bit_less_exp [OF this]
    have "bit va n" if "39 \<le> n" "n < 48" for n
      using that less [of n] by (cases "bit va n") (simp_all add: bit_simps)
    then show ?thesis unfolding slot by blast
  qed
  ultimately show ?thesis by (auto simp: user_va_def not_le [symmetric])
qed

section \<open>A run of pages\<close>

definition run_ok :: "nat \<Rightarrow> VirtAddr \<Rightarrow> nat \<Rightarrow> bool" where
  "run_ok d virt n \<longleftrightarrow> d \<le> 3 \<and> unat virt mod 2 ^ page_bits d = 0
     \<and> (unat virt + n * 2 ^ page_bits d \<le> 2 ^ 47
        \<or> (0xFFFF800000000000 \<le> unat virt \<and> unat virt + n * 2 ^ page_bits d \<le> unat UserEnd))"

definition in_run :: "nat \<Rightarrow> VirtAddr \<Rightarrow> nat \<Rightarrow> VirtAddr \<Rightarrow> bool" where
  "in_run d virt n va \<longleftrightarrow> unat virt \<le> unat va \<and> unat va < unat virt + n * 2 ^ page_bits d"

lemma page_bits_le: "page_bits d \<le> 39"
  by (simp add: page_bits_def)

lemma in_run_canonical: "run_ok d virt n \<Longrightarrow> in_run d virt n va \<Longrightarrow> canonical va \<and> va < UserEnd"
  by (auto simp: run_ok_def in_run_def canonical_def UserEnd_def word_le_nat_alt word_less_nat_alt)

lemma run_start:
  assumes "run_ok d virt (Suc n)"
  shows "canonical virt" "user_va virt" "virt mod level_size d = 0" "d \<le> 3"
proof -
  have "in_run d virt (Suc n) virt" by (simp add: in_run_def)
  with in_run_canonical [OF assms this] show "canonical virt" "user_va virt"
    by (simp_all add: user_va_iff)
  show "d \<le> 3" "virt mod level_size d = 0"
    using assms by (simp_all add: run_ok_def word_unat_eq_iff unat_mod unat_level_size)
qed

lemma run_next:
  assumes "run_ok d virt (Suc n)"
  shows "unat (virt + level_size d) = unat virt + 2 ^ page_bits d"
    and "run_ok d (virt + level_size d) n"
proof -
  have d: "unat (level_size d) = 2 ^ page_bits d"
    using assms by (simp add: run_ok_def unat_level_size)
  have "unat virt + 2 ^ page_bits d \<le> unat virt + Suc n * 2 ^ page_bits d" by simp
  then have "unat virt + 2 ^ page_bits d < 2 ^ 64"
    using assms by (auto simp: run_ok_def UserEnd_def)
  then show u: "unat (virt + level_size d) = unat virt + 2 ^ page_bits d"
    using d by (subst unat_add_lem [THEN iffD1]) simp_all
  show "run_ok d (virt + level_size d) n"
    using assms unfolding run_ok_def u by (auto simp: add.assoc mod_add_eq)
qed

lemma in_run_Suc:
  assumes "run_ok d virt (Suc n)" "canonical va"
  shows "in_run d virt (Suc n) va \<longleftrightarrow> same_page d virt va \<or> in_run d (virt + level_size d) n va"
    and "in_run d (virt + level_size d) n va \<Longrightarrow> \<not> same_page d virt va"
proof -
  have "same_page d virt va \<longleftrightarrow> unat virt \<le> unat va \<and> unat va < unat virt + 2 ^ page_bits d"
    using same_page_iff [OF run_start(1) [OF assms(1)] assms(2) run_start(4) [OF assms(1)]]
      drop_bit_range assms(1) by (simp add: run_ok_def)
  then show "in_run d virt (Suc n) va \<longleftrightarrow> same_page d virt va \<or> in_run d (virt + level_size d) n va"
    "in_run d (virt + level_size d) n va \<Longrightarrow> \<not> same_page d virt va"
    using run_next(1) [OF assms(1)] by (auto simp: in_run_def)
qed

end
