(* ===== verification/SetListProofs.thy ===== *)
theory SetListProofs
  imports Spans
begin

text \<open>
  \<^verbatim>\<open>PageTable::SetList\<close>: a run of pages mapped to a run of frames is a linear map of the
  whole address range, and no address outside the range changes its translation.
\<close>

section \<open>The entries of a run\<close>

definition frames_ok :: "nat \<Rightarrow> PhysAddr \<Rightarrow> nat \<Rightarrow> bool" where
  "frames_ok d p n \<longleftrightarrow> unat p mod 2 ^ page_bits d = 0 \<and> unat p + n * 2 ^ page_bits d \<le> 2 ^ 52"

lemma page_bits_12: "2 ^ 12 dvd (2 :: nat) ^ page_bits d"
  by (rule le_imp_power_dvd) (simp add: page_bits_def)

lemma frames_frame:
  assumes "frames_ok d p (Suc n)"
  shows "is_frame p"
proof (rule aligned_is_frame)
  have "2 ^ page_bits d dvd unat p" using assms by (auto simp: frames_ok_def)
  then have "2 ^ 12 dvd unat p" using page_bits_12 [of d] by (rule dvd_trans [rotated])
  then show "unat p mod 0x1000 = 0" by simp
  have "unat p < unat p + Suc n * 2 ^ page_bits d" by simp
  also have "\<dots> \<le> 2 ^ 52" using assms by (simp add: frames_ok_def)
  finally show "unat p < 2 ^ 52" .
qed

lemma frames_next:
  assumes "d \<le> 3" "frames_ok d p (Suc n)"
  shows "unat (p + level_size d) = unat p + 2 ^ page_bits d"
    and "frames_ok d (p + level_size d) n"
proof -
  have "unat p + 2 ^ page_bits d \<le> 2 ^ 52" using assms(2) by (simp add: frames_ok_def)
  then show u: "unat (p + level_size d) = unat p + 2 ^ page_bits d"
    using unat_level_size [OF assms(1)] by (subst unat_add_lem [THEN iffD1]) simp_all
  show "frames_ok d (p + level_size d) n"
    using assms(2) unfolding frames_ok_def u by (simp add: add.assoc)
qed

lemma frame_or_flags:
  assumes "is_frame p" "pframe f = 0"
  shows "p OR f = p + f"
proof -
  have "p AND f = 0"
  proof (rule bit_word_eqI)
    fix n :: nat
    have "\<not> bit (pframe f) n" using assms(2) by simp
    then show "bit (p AND f) n = bit 0 n"
      using is_frame_bit [OF assms(1), of n] by (auto simp: pframe_mask bit_simps)
  qed
  then show ?thesis by (simp add: disjunctive_add_eq_or)
qed

text \<open>Stepping to the next page steps the frame and keeps the flags.\<close>

lemma entry_next:
  assumes "d \<le> 3" "frames_ok d p (Suc (Suc n))" "pframe f = 0"
  shows "(p OR f) + level_size d = (p + level_size d) OR f"
  using frame_or_flags [OF frames_frame [OF assms(2)] assms(3)]
    frame_or_flags [OF frames_frame [OF frames_next(2) [OF assms(1,2)]] assms(3)]
  by (simp add: ac_simps)

lemma run_leaf:
  assumes p: "frames_ok d p (Suc n)" and f: "pframe f = 0" and d: "d \<le> 3"
    and v: "unat virt mod 2 ^ page_bits d = 0" "unat virt \<le> unat va"
      "unat va < unat virt + 2 ^ page_bits d"
  shows "leaf_addr (3 - d) (p OR f) va = p + (va - virt)"
proof -
  let ?B = "page_bits d"
  have pb: "?B \<le> n" if "bit p n" for n
    using bit_aligned [of p ?B n] p that by (simp add: frames_ok_def)
  have "pframe (p OR f) = p"
    using frames_frame [OF p] f by (simp add: pframe_or is_frame_def)
  then have "leaf_addr (3 - d) (p OR f) va = (p AND NOT (mask ?B)) OR (va AND mask ?B)"
    by (simp add: leaf_addr_def page_bits_def)
  also have "p AND NOT (mask ?B) = p"
    by (rule bit_word_eqI) (auto simp: bit_simps dest: pb bit_imp_le_length)
  also have "p OR (va AND mask ?B) = p + (va AND mask ?B)"
  proof -
    have "p AND (va AND mask ?B) = 0"
      by (rule bit_word_eqI) (auto simp: bit_simps dest: pb)
    then show ?thesis by (simp add: disjunctive_add_eq_or)
  qed
  also have "va AND mask ?B = va - virt"
  proof -
    obtain q where q: "unat virt = 2 ^ ?B * q" using v(1) by auto
    have "unat (va - virt) = unat va - unat virt"
      using v(2) by (simp add: unat_sub word_le_nat_alt)
    moreover have "unat va mod 2 ^ ?B = unat va - unat virt"
    proof -
      have "unat va = (unat va - unat virt) + 2 ^ ?B * q" using v(2) q by simp
      then have "unat va mod 2 ^ ?B = (unat va - unat virt) mod 2 ^ ?B"
        by (metis mod_mult_self2)
      moreover have "unat va - unat virt < 2 ^ ?B" using v(2,3) by linarith
      ultimately show ?thesis by simp
    qed
    ultimately show ?thesis by (simp add: word_unat_eq_iff word_and_mask_eq_mod)
  qed
  finally show ?thesis .
qed

section \<open>CalcMask and reading back\<close>

lemma bit_if: "bit (if b then x else y) n \<longleftrightarrow> (if b then bit x n else bit y n)"
  by simp

lemma bit_NX: "bit (push_bit 63 (1 :: u64)) n \<longleftrightarrow> n = 63"
  using bit_const_NX [of n] by simp

lemma CalcMask_bits:
  "bit (CalcMask sz k a) n \<longleftrightarrow> n = 0 \<or> (n = 7 \<and> sz \<noteq> 0x1000) \<or> (n = 8 \<and> k) \<or> (n = 2 \<and> \<not> k)
     \<or> (n = 63 \<and> \<not> executable a) \<or> (n = 1 \<and> writable a)"
  unfolding CalcMask_def bit_or_iff bit_if bit_NX bit_consts bit_0_eq bot_apply bot_bool_def by auto

lemma CalcMask_flags:
  "pframe (CalcMask sz k a) = 0" "present (CalcMask sz k a)"
  "huge (CalcMask sz k a) \<longleftrightarrow> sz \<noteq> 0x1000"
proof -
  show "pframe (CalcMask sz k a) = 0"
    unfolding pframe_mask by (rule bit_word_eqI) (auto simp: bit_and_iff bit_mask_iff bit_not_iff CalcMask_bits)
qed (simp_all add: present_def huge_def bit_consts CalcMask_bits)

lemma CalcDepth_cases:
  assumes "CalcDepth sz = Inr d"
  shows "(sz = 0x1000 \<and> d = 3) \<or> (sz = 0x200000 \<and> d = 2) \<or> (sz = 0x40000000 \<and> d = 1)"
    and "sz = level_size d" "1 \<le> d" "d \<le> 3" "d = 3 \<or> sz \<noteq> 0x1000"
  using assms by (auto simp: CalcDepth_def level_size_def split: if_splits)

lemma Read_frame_or:
  assumes p: "unat p mod 2 ^ page_bits d = 0" "unat p < 2 ^ 52" and d: "d = 2 \<or> d = 3"
  shows "((p OR CalcMask sz k a) AND (if d = 3 then 0x7ffffffffffff000 else 0x7fffffffffe00000)) = p"
    and "read_attributes (p OR CalcMask sz k a) = \<lparr>executable = executable a, writable = writable a, cachable = True\<rparr>"
proof -
  have b: "bit p n \<Longrightarrow> page_bits d \<le> n \<and> n < 52" for n
    using bit_aligned [of p "page_bits d" n] bit_less_exp [OF p(2), of n] p(1) by simp
  have nb: "\<not> bit p 63" "\<not> bit p 1" using b [of 63] b [of 1] by (auto simp: page_bits_def)
  show "((p OR CalcMask sz k a) AND (if d = 3 then 0x7ffffffffffff000 else 0x7fffffffffe00000)) = p"
  proof (rule bit_word_eqI)
    fix n :: nat
    show "bit ((p OR CalcMask sz k a) AND (if d = 3 then 0x7ffffffffffff000 else 0x7fffffffffe00000)) n = bit p n"
      using d b [of n] unfolding mask_consts bit_and_iff bit_or_iff bit_if CalcMask_bits
      by (auto simp: bit_simps page_bits_def)
  qed
  show "read_attributes (p OR CalcMask sz k a) = \<lparr>executable = executable a, writable = writable a, cachable = True\<rparr>"
    using nb by (simp add: read_attributes_def bit_or_iff CalcMask_bits)
qed

section \<open>The loop\<close>

definition linear_map ::
    "nat \<Rightarrow> VirtAddr \<Rightarrow> PhysAddr \<Rightarrow> nat \<Rightarrow> 'a machine \<Rightarrow> 'a machine \<Rightarrow> bool" where
  "linear_map d virt p n s s' \<longleftrightarrow>
     (\<forall>va. canonical va \<longrightarrow> va < UserEnd \<longrightarrow> mmu_translate (pmem s') (cr3 s') va =
       (if in_run d virt n va then Some (p + (va - virt)) else mmu_translate (pmem s) (cr3 s) va))"

lemma linear_map_0 [simp]: "linear_map d virt p 0 s s"
  by (auto simp: linear_map_def in_run_def)

lemma linear_map_Suc:
  assumes r: "run_ok d virt (Suc n)" and p: "frames_ok d p (Suc n)" "pframe f = 0"
    and e: "present f" "1 \<le> d"
    and set: "page_set ainv taken s virt d (p OR f) s1"
    and rest: "linear_map d (virt + level_size d) (p + level_size d) n s1 s'"
  shows "linear_map d virt p (Suc n) s s'"
  unfolding linear_map_def
proof (intro allI impI)
  fix va assume c: "canonical va" and u: "va < UserEnd"
  note S = in_run_Suc [OF r c]
  have d: "d \<le> 3" "unat virt mod 2 ^ page_bits d = 0" using r by (simp_all add: run_ok_def)
  have s1: "mmu_translate (pmem s1) (cr3 s1) va =
      (if same_page d virt va then entry_translation (p OR f) d va
       else mmu_translate (pmem s) (cr3 s) va)"
    using set user_va_iff [OF c] u unfolding page_set_def by blast
  have R: "mmu_translate (pmem s') (cr3 s') va =
      (if in_run d (virt + level_size d) n va then Some (p + (va - virt))
       else mmu_translate (pmem s1) (cr3 s1) va)"
    using rest c u by (simp add: linear_map_def)
  show "mmu_translate (pmem s') (cr3 s') va =
      (if in_run d virt (Suc n) va then Some (p + (va - virt))
       else mmu_translate (pmem s) (cr3 s) va)"
  proof (cases "same_page d virt va")
    case True
    then have "unat virt \<le> unat va \<and> unat va < unat virt + 2 ^ page_bits d"
      using same_page_iff [OF run_start(1) [OF r] c d(1)] drop_bit_range [OF d(2)] by simp
    with run_leaf [OF p d(1,2)] have "entry_translation (p OR f) d va = Some (p + (va - virt))"
      using c e by (simp add: entry_translation_def present_or)
    then show ?thesis using R s1 S True by auto
  next
    case False
    then show ?thesis using R s1 S by simp
  qed
qed

section \<open>The leaves of a run\<close>

text \<open>The entry of the page of a run that holds an address, when the first page has \<open>e\<close>.\<close>

definition run_entry :: "nat \<Rightarrow> VirtAddr \<Rightarrow> u64 \<Rightarrow> VirtAddr \<Rightarrow> u64" where
  "run_entry d virt e va = e + of_nat ((unat va - unat virt) div 2 ^ page_bits d) * level_size d"

definition run_ends :: "nat \<Rightarrow> u64 \<Rightarrow> nat \<Rightarrow> bool" where
  "run_ends d e n \<longleftrightarrow> (\<forall>i < n. ends_walk d (e + of_nat i * level_size d))"

text \<open>
  The run gets its entries; outside it only what a larger page reserved together with an
  address of the run is lost.
\<close>

definition run_lost :: "nat \<Rightarrow> VirtAddr \<Rightarrow> nat \<Rightarrow> 'a machine \<Rightarrow> VirtAddr \<Rightarrow> bool" where
  "run_lost d virt n s va \<longleftrightarrow> (\<exists>w k x. in_run d virt n w \<and> k < d \<and> \<not> present x
     \<and> leaf s w = Some (k, x) \<and> leaf s va = Some (k, x))"

definition leaf_run :: "nat \<Rightarrow> VirtAddr \<Rightarrow> nat \<Rightarrow> u64 \<Rightarrow> 'a machine \<Rightarrow> 'a machine \<Rightarrow> bool" where
  "leaf_run d virt n e s s' \<longleftrightarrow> (\<forall>va. canonical va \<longrightarrow> va < UserEnd \<longrightarrow>
     (if in_run d virt n va then leaf s' va = Some (d, run_entry d virt e va)
      else leaf s' va = leaf s va \<or> leaf s' va = None \<and> run_lost d virt n s va))"

lemma leaf_run_0 [simp]: "leaf_run d virt 0 e s s"
  by (auto simp: leaf_run_def in_run_def)

lemma leaf_runD:
  assumes "leaf_run d virt n e s s'" "canonical va" "va < UserEnd"
  shows "in_run d virt n va \<Longrightarrow> leaf s' va = Some (d, run_entry d virt e va)"
    and "\<not> in_run d virt n va \<Longrightarrow> leaf s' va = leaf s va \<or> leaf s' va = None \<and> run_lost d virt n s va"
  using assms unfolding leaf_run_def by (metis, metis)

lemma run_entry_first:
  "unat virt \<le> unat va \<Longrightarrow> unat va < unat virt + 2 ^ page_bits d \<Longrightarrow> run_entry d virt e va = e"
  by (simp add: run_entry_def)

lemma run_entry_next:
  assumes v: "unat (virt + level_size d) = unat virt + 2 ^ page_bits d" and a: "unat virt + 2 ^ page_bits d \<le> unat va"
  shows "run_entry d (virt + level_size d) (e + level_size d) va = run_entry d virt e va"
proof -
  let ?k = "unat va - (unat virt + 2 ^ page_bits d)"
  have "unat va - unat virt = ?k + 2 ^ page_bits d" using a by simp
  moreover have "(?k + 2 ^ page_bits d) div 2 ^ page_bits d = Suc (?k div 2 ^ page_bits d)"
    by (subst div_add_self2) simp_all
  ultimately have "(unat va - unat virt) div 2 ^ page_bits d = Suc (?k div 2 ^ page_bits d)" by simp
  then show ?thesis unfolding run_entry_def v by (simp add: algebra_simps)
qed

lemma leaf_run_Suc:
  assumes r: "run_ok d virt (Suc n)" and set: "leaf_set virt d e s s1" and e: "ends_walk d e"
    and rest: "leaf_run d (virt + level_size d) n (e + level_size d) s1 s'"
  shows "leaf_run d virt (Suc n) e s s'"
  unfolding leaf_run_def
proof (intro allI impI)
  fix va assume c: "canonical va" and u: "va < UserEnd"
  note S = in_run_Suc [OF r c] and R = leaf_runD [OF rest c u] and n = run_next [OF r]
  have set': "if same_page d virt v then leaf s1 v = entry_leaf d e
      else leaf s1 v = leaf s v \<or> leaf s1 v = None \<and> lost_leaf virt d s v"
    if "canonical v" "v < UserEnd" for v
    using set user_va_iff [OF that(1)] that unfolding leaf_set_def by blast
  have d: "d \<le> 3" "unat virt mod 2 ^ page_bits d = 0" using r by (simp_all add: run_ok_def)
  have virt: "in_run d virt (Suc n) virt" by (simp add: in_run_def)
  show "if in_run d virt (Suc n) va then leaf s' va = Some (d, run_entry d virt e va)
      else leaf s' va = leaf s va \<or> leaf s' va = None \<and> run_lost d virt (Suc n) s va"
  proof (cases "same_page d virt va")
    case True
    then have v: "unat virt \<le> unat va \<and> unat va < unat virt + 2 ^ page_bits d"
      using same_page_iff [OF run_start(1) [OF r] c d(1)] drop_bit_range [OF d(2)] by simp
    have l: "leaf s1 va = Some (d, e)" using set' [OF c u] True e by (simp add: entry_leaf_def)
    have "\<not> in_run d (virt + level_size d) n va" using S True by blast
    then have "leaf s' va = leaf s1 va" using R(2) l by (auto simp: run_lost_def)
    then show ?thesis using S True l run_entry_first v by simp
  next
    case False
    have l: "leaf s1 va = leaf s va \<or> leaf s1 va = None \<and> lost_leaf virt d s va"
      using set' [OF c u] False by simp
    show ?thesis
    proof (cases "in_run d (virt + level_size d) n va")
      case True
      then have "unat virt + 2 ^ page_bits d \<le> unat va" using n(1) by (simp add: in_run_def)
      then show ?thesis using R(1) True S run_entry_next [OF n(1)] by simp
    next
      case out: False
      have keep: "run_lost d virt (Suc n) s va" if l': "leaf s1 va = leaf s va" and x: "run_lost d (virt + level_size d) n s1 va"
      proof -
        obtain w k y where w: "in_run d (virt + level_size d) n w" "k < d" "\<not> present y"
          "leaf s1 w = Some (k, y)" "leaf s1 va = Some (k, y)" using x unfolding run_lost_def by blast
        have cw: "canonical w" "w < UserEnd" using in_run_canonical [OF n(2) w(1)] by auto
        then have np: "\<not> same_page d virt w" and iw: "in_run d virt (Suc n) w"
          using in_run_Suc [OF r] w(1) by blast+
        then have "leaf s1 w = leaf s w" using set' [OF cw] w(4) by simp
        then show ?thesis using iw w l' unfolding run_lost_def by metis
      qed
      have lost: "run_lost d virt (Suc n) s va" if "lost_leaf virt d s va"
        using that virt unfolding lost_leaf_def run_lost_def by blast
      have "\<not> in_run d virt (Suc n) va" using S False out by blast
      moreover have "leaf s' va = leaf s va \<or> leaf s' va = None \<and> run_lost d virt (Suc n) s va"
        using R(2) [OF out] l keep lost by metis
      ultimately show ?thesis by simp
    qed
  qed
qed

lemma run_ends_Suc: "run_ends d e (Suc n) \<Longrightarrow> ends_walk d e \<and> run_ends d (e + level_size d) n"
proof -
  assume r: "run_ends d e (Suc n)"
  have "ends_walk d (e + level_size d + of_nat i * level_size d)" if "i < n" for i
  proof -
    have "ends_walk d (e + of_nat (Suc i) * level_size d)" using r that unfolding run_ends_def by blast
    then show ?thesis by (simp add: algebra_simps)
  qed
  moreover have "ends_walk d (e + of_nat 0 * level_size d)" using r unfolding run_ends_def by blast
  ultimately show ?thesis by (simp add: run_ends_def)
qed

context page_source
begin

lemma SetList_loop_total:
  assumes t: "al_Alloc (allocator t) = Alloc" and c: "noncritical c"
    and pm: "flags_only pm" "present pm"
    and f: "pframe f = 0" "present f" "d = 3 \<or> huge f" and d: "1 \<le> d"
  shows "run_ok d virt n \<Longrightarrow> frames_ok d p n \<Longrightarrow> pml4 t = cr3 s \<Longrightarrow> pt_inv invar taken s \<Longrightarrow>
    (0 < n \<Longrightarrow> e = p OR f) \<Longrightarrow>
    SetList_loop c t n virt e (level_size d) pm d ow s
      \<in> {Inl (Panic ''PageTable::Set() - allocation failed''), Inl (Panic ''PageTable::SetList() - Set() failed'')}
    \<or> (\<exists>ow' s'. SetList_loop c t n virt e (level_size d) pm d ow s = Inr (ow', s') \<and>
        pt_inv invar taken s' \<and> cr3 s' = cr3 s \<and> linear_map d virt p n s s'
        \<and> taken (alst s) \<subseteq> taken (alst s') \<and> leaf_run d virt n e s s')"
proof (induction n arbitrary: virt p s ow e)
  case 0
  then show ?case by simp
next
  case (Suc n)
  note st = run_start [OF Suc.prems(1)] and nx = run_next [OF Suc.prems(1)]
  have e: "e = p OR f" using Suc.prems(5) by simp
  have leaf: "leaf_entry (p OR f) d" and ends: "ends_walk d (p OR f)"
    using f(2,3) present_or [of p f] by (auto simp: leaf_entry_def huge_or ends_walk_def)
  have set: "IsSet t s" using Suc.prems(3) by (simp add: IsSet_def GetPml4_def)
  show ?case
  proof (cases rule: Set_ok [OF t set c pm st(2,4,3) Suc.prems(4) leaf])
    case 1
    then show ?thesis by (simp add: e)
  next
    case (2 s1)
    then show ?thesis by (simp add: e)
  next
    case (3 s1 over)
    then have s1: "pml4 t = cr3 s1" "pt_inv invar taken s1" "cr3 s1 = cr3 s"
      "taken (alst s) \<subseteq> taken (alst s1)"
      using Suc.prems(3) by (simp_all add: page_set_def)
    have L: "SetList_loop c t (Suc n) virt e (level_size d) pm d ow s =
      SetList_loop c t n (virt + level_size d) (e + level_size d) (level_size d) pm d
        (if ow = Some True then ow else Some over) s1"
      using 3(1) by (simp add: e)
    have E: "0 < n \<Longrightarrow> e + level_size d = (p + level_size d) OR f"
      using entry_next [OF st(4) _ f(1)] Suc.prems(2) e by (cases n) auto
    from Suc.IH [OF nx(2) frames_next(2) [OF st(4) Suc.prems(2)] s1(1,2) E] show ?thesis
      unfolding L using linear_map_Suc [OF Suc.prems(1,2) f(1,2) d 3(2)] s1(3,4)
        leaf_run_Suc [OF Suc.prems(1) 3(4) ends] by (fastforce simp: e)
  qed
qed

end

end
