(* ===== verification/UnsetProofs.thy ===== *)
theory UnsetProofs
  imports PageTableRead
begin

text \<open>
  \<^verbatim>\<open>PageTable::Unset\<close> removes one page and gives back the tables it empties, without
  changing the translation of any other address, for any allocator that keeps the
  \<open>page_pool\<close> contract.
\<close>

section \<open>Reading a whole table\<close>

definition table_start :: "nat \<Rightarrow> VirtAddr \<Rightarrow> VirtAddr" where
  "table_start d va = window d va AND NOT (mask 12)"

lemma GetTableStart_ok: "d \<le> 3 \<Longrightarrow> GetTableStart va d = Inr (table_start d va)"
  by (simp add: GetTableStart_def GetTableEntry_window table_start_def mask_consts)

lemma table_slot_or:
  assumes "i < 512"
  shows "table_start d va + 8 * i = table_start d va OR push_bit 3 i"
proof -
  have "table_start d va AND push_bit 3 i = 0"
    using index_bit [OF assms]
    by (intro bit_word_eqI) (fastforce simp: table_start_def bit_simps)
  then show ?thesis
    by (simp add: push_bit_eq_mult disjunctive_add_eq_or mult.commute)
qed

lemma table_slot_facts:
  assumes i: "i < 512" and d: "d \<le> 3"
  shows "canonical (table_start d va OR push_bit 3 i)"
    and "pt_index k (table_start d va OR push_bit 3 i) = pt_index k (window d va)"
    and "(table_start d va OR push_bit 3 i) AND mask 12 = push_bit 3 i"
proof -
  have b: "bit i n \<Longrightarrow> n < 9" for n by (rule index_bit [OF i])
  show "canonical (table_start d va OR push_bit 3 i)"
    using d by (intro canonical_top bit_word_eqI) (auto simp: table_start_def window_def bit_simps)
  have "pt_index k (table_start d va OR push_bit 3 i) = pt_index k (table_start d va)"
    by (rule bit_word_eqI) (auto simp: pt_index_def bit_simps dest: b)
  then show "pt_index k (table_start d va OR push_bit 3 i) = pt_index k (window d va)"
    by (simp add: table_start_def pt_index_page)
  show "(table_start d va OR push_bit 3 i) AND mask 12 = push_bit 3 i"
    by (rule bit_word_eqI) (auto simp: table_start_def bit_simps dest: b)
qed

lemma table_slot:
  assumes fr: "fractal (pmem s) (cr3 s)" and t: "tab (pmem s) (cr3 s) (vpath va d) = Some t"
    and d: "d \<le> 3" and i: "i < 512"
  shows "vread s (table_start d va + 8 * i) = Inr (pmem s (entry_at t i))"
proof -
  have "mmu_translate (pmem s) (cr3 s) (table_start d va + 8 * i) = Some (entry_at t i)"
    using mmu_translate_window [OF fr t d table_slot_facts(1,2) [OF i d]]
      entry_at_or [OF is_frame_tab [OF fractal_is_frame [OF fr] t] i] table_slot_facts(3) [OF i d]
    by (simp add: table_slot_or [OF i])
  then show ?thesis by (simp add: vread_def)
qed

lemma table_used_ok:
  assumes "fractal (pmem s) (cr3 s)" "tab (pmem s) (cr3 s) (vpath va d) = Some t" "d \<le> 3"
  shows "n \<le> 512 \<Longrightarrow> table_used s (table_start d va) n =
    Inr (\<exists>i < 512. 512 - n \<le> i \<and> pmem s (entry_at t (of_nat i)) \<noteq> 0)"
proof (induction n)
  case (Suc n)
  have i: "(of_nat (0x1ff - n) :: u64) < 512"
    by (simp add: word_less_nat_alt unat_of_nat take_bit_nat_eq_self_iff)
  have "512 - Suc n = 0x1ff - n" by simp
  then have split: "(512 - Suc n \<le> i) \<longleftrightarrow> i = 0x1ff - n \<or> 512 - n \<le> i" for i
    using Suc.prems by auto
  show ?case
    using table_slot [OF assms i] Suc unfolding split
    by (auto simp: conj_disj_distribR conj_disj_distribL ex_disj_distrib)
qed auto

section \<open>Finding the mapping\<close>

lemma Unset_find_ok:
  assumes "fractal (pmem s) (cr3 s)"
  shows "n \<le> 3 \<Longrightarrow> tab (pmem s) (cr3 s) (vpath va (3 - n)) = Some t \<Longrightarrow>
    Unset_find s va n = Inl (Panic ''PageTable::Unset() - no mapping found'')
    \<or> (\<exists>d e. Unset_find s va n = Inr d \<and> reaches s va d e \<and> (huge e \<or> d = 3))"
proof (induction n arbitrary: t)
  case 0
  then show ?case by (auto simp: reaches_def)
next
  case (Suc n)
  have d: "2 - n = 3 - Suc n" "Suc (2 - n) = 3 - n" "2 - n \<le> 3" using Suc.prems(1) by auto
  let ?e = "pmem s (entry_at t (pt_index (3 - (2 - n)) va))"
  have T: "tab (pmem s) (cr3 s) (vpath va (2 - n)) = Some t"
    using Suc.prems(2) unfolding d(1) .
  have r: "read_entry s va (2 - n) = Inr ?e" "reaches s va (2 - n) ?e"
    using read_entry_ok [OF assms T d(3)] T d(3) by (auto simp: reaches_def)
  have F: "Unset_find s va (Suc n) = (if huge ?e then Inr (2 - n)
      else if \<not> present ?e then Inl (Panic ''PageTable::Unset() - no mapping found'')
      else Unset_find s va n)"
    using r(1) by (simp add: huge_def present_def)
  show ?case
  proof (cases "huge ?e \<or> \<not> present ?e")
    case True
    then show ?thesis unfolding F using r(2) by (cases "huge ?e") auto
  next
    case False
    then have "tab (pmem s) (cr3 s) (vpath va (3 - n)) = Some (pframe ?e)"
      using reaches_tab [OF r(2)] unfolding d(2) by simp
    then show ?thesis unfolding F using Suc.IH Suc.prems(1) False by simp
  qed
qed

section \<open>Freeing emptied tables\<close>

text \<open>
  The code frees bits 12 to 62 of a parent entry, the processor reads bits 12 to 51; they
  agree on entries whose ignored bits are clear.
\<close>

definition plain_path :: "'a machine \<Rightarrow> VirtAddr \<Rightarrow> nat \<Rightarrow> bool" where
  "plain_path s va d \<longleftrightarrow>
     (\<forall>j < d. \<forall>e. reaches s va j e \<longrightarrow> present e \<longrightarrow> \<not> huge e \<longrightarrow> e AND 0x7FFFFFFFFFFFF000 = pframe e)"

text \<open>
  Every table on the path belongs to the allocator, or another leaf than the one at \<open>va\<close>
  keeps it in use.
\<close>

definition pinned :: "'a machine \<Rightarrow> VirtAddr \<Rightarrow> nat \<Rightarrow> bool" where
  "pinned s va j \<longleftrightarrow> (\<exists>w. user_va w \<and> vpath w j = vpath va j \<and> leaf s w \<noteq> None
     \<and> (\<forall>k e. leaf s va = Some (k, e) \<longrightarrow> \<not> same_page k va w))"

definition pages_path :: "('a \<Rightarrow> PhysAddr set) \<Rightarrow> 'a machine \<Rightarrow> VirtAddr \<Rightarrow> nat \<Rightarrow> bool" where
  "pages_path pages s va d \<longleftrightarrow>
     (\<forall>j t. 1 \<le> j \<and> j \<le> d \<longrightarrow> tab (pmem s) (cr3 s) (vpath va j) = Some t \<longrightarrow>
        t \<in> pages (alst s) \<or> pinned s va j)"

definition same_leaves :: "'a machine \<Rightarrow> 'a machine \<Rightarrow> bool" where
  "same_leaves s s' \<longleftrightarrow> (\<forall>va. user_va va \<longrightarrow> leaf s' va = leaf s va)"

lemma pinned_same_leaves: "same_leaves s s' \<Longrightarrow> user_va va \<Longrightarrow> pinned s' va j = pinned s va j"
  unfolding same_leaves_def pinned_def by metis

lemma leaf_clear:
  assumes inv: "pt_inv ainv taken s" and va: "user_va addr" and d: "d \<le> 3"
    and u: "tab (pmem s) (cr3 s) (vpath addr d) = Some u" and v: "user_va v"
  shows "leaf (s\<lparr>pmem := (pmem s)(entry_at u (pt_index (3 - d) addr) := 0)\<rparr>) v =
    (if same_page d addr v then None else leaf s v)"
  using leaf_of_upd [OF pt_invD(2) [OF inv] user_path_vpath [OF va d] u d v, of 0]
  by (simp add: leaf_def same_page_def leaf_entry_def entry_leaf_def ends_walk_def huge_def)

lemma empty_table_leaf:
  assumes "tab (pmem s) (cr3 s) (vpath w (Suc d)) = Some v" "d < 3" "\<forall>i < 512. pmem s (entry_at v i) = 0"
  shows "leaf s w = None"
  unfolding leaf_def using assms pt_index_less
  by (intro leaf_of_hole [OF assms(1)]) (auto simp: ends_walk_def huge_def)

text \<open>
  The two conditions for the whole tree, a set \<open>K\<close> of addresses keeping tables that are not
  the allocator's in use.
\<close>

definition plain_tables :: "'a machine \<Rightarrow> bool" where
  "plain_tables s \<longleftrightarrow> (\<forall>p i t. user_path (p @ [i]) \<longrightarrow> tab (pmem s) (cr3 s) p = Some t \<longrightarrow>
     present (pmem s (entry_at t i)) \<longrightarrow> \<not> huge (pmem s (entry_at t i)) \<longrightarrow>
     pmem s (entry_at t i) AND 0x7FFFFFFFFFFFF000 = pframe (pmem s (entry_at t i)))"

definition owned_tables :: "('a \<Rightarrow> PhysAddr set) \<Rightarrow> VirtAddr set \<Rightarrow> 'a machine \<Rightarrow> bool" where
  "owned_tables pages K s \<longleftrightarrow> (\<forall>p t. user_path p \<longrightarrow> p \<noteq> [] \<longrightarrow> tab (pmem s) (cr3 s) p = Some t \<longrightarrow>
     t \<in> pages (alst s) \<or> (\<exists>w \<in> K. vpath w (length p) = p))"

lemma plain_tables_path: "plain_tables s \<Longrightarrow> user_va va \<Longrightarrow> d \<le> 3 \<Longrightarrow> plain_path s va d"
  unfolding plain_path_def
proof (intro allI impI)
  fix j e assume p: "plain_tables s" "user_va va" "d \<le> 3" "j < d" and R: "reaches s va j e" "present e" "\<not> huge e"
  then have "user_path (vpath va j @ [pt_index (3 - j) va])" by (intro user_path_step) simp_all
  then show "e AND 0x7FFFFFFFFFFFF000 = pframe e"
    using p(1) R unfolding plain_tables_def reaches_def by blast
qed

lemma owned_tables_path:
  assumes "owned_tables pages K s" "user_va va" "d \<le> 3"
    and "\<And>w. w \<in> K \<Longrightarrow> user_va w \<and> leaf s w \<noteq> None \<and> (\<forall>k e. leaf s va = Some (k, e) \<longrightarrow> \<not> same_page k va w)"
  shows "pages_path pages s va d"
  unfolding pages_path_def
proof (intro allI impI, elim conjE)
  fix j t assume j: "1 \<le> j" "j \<le> d" and t: "tab (pmem s) (cr3 s) (vpath va j) = Some t"
  have "user_path (vpath va j)" "vpath va j \<noteq> []"
    using user_path_vpath [OF assms(2)] j assms(3) length_vpath [of va j] by fastforce+
  with assms(1) t have "t \<in> pages (alst s) \<or> (\<exists>w \<in> K. vpath w j = vpath va j)"
    unfolding owned_tables_def by (metis length_vpath)
  then show "t \<in> pages (alst s) \<or> pinned s va j" using assms(4) unfolding pinned_def by blast
qed

text \<open>Unset only takes tables away.\<close>

definition fewer_tables :: "'a machine \<Rightarrow> 'a machine \<Rightarrow> bool" where
  "fewer_tables s s' \<longleftrightarrow> (\<forall>q v. user_path q \<longrightarrow> tab (pmem s') (cr3 s') q = Some v \<longrightarrow> tab (pmem s) (cr3 s) q = Some v)"

lemma fewer_tables_refl [simp]: "fewer_tables s s"
  by (simp add: fewer_tables_def)

lemma fewer_tables_trans: "fewer_tables s s1 \<Longrightarrow> fewer_tables s1 s2 \<Longrightarrow> fewer_tables s s2"
  by (simp add: fewer_tables_def)

text \<open>Storing an entry that is not a link keeps both.\<close>

lemma tab_store:
  assumes inv: "pt_inv ainv taken s" and va: "user_va addr" and d: "d \<le> 3"
    and u: "tab (pmem s) (cr3 s) (vpath addr d) = Some u" and e: "leaf_entry e d"
    and q: "user_path q" "tab ((pmem s)(entry_at u (pt_index (3 - d) addr) := e)) (cr3 s) q = Some v"
  shows "tab (pmem s) (cr3 s) q = Some v"
  using tab_upd_leaf [OF pt_invD(2) [OF inv] user_path_vpath [OF va d] u pt_index_less, of e q "3 - d" addr] e q
  by (simp split: if_splits)

lemma store_tables:
  assumes inv: "pt_inv ainv taken s" and va: "user_va addr" and d: "d \<le> 3"
    and u: "tab (pmem s) (cr3 s) (vpath addr d) = Some u" and e: "leaf_entry e d"
    and s': "s' = s\<lparr>pmem := (pmem s)(entry_at u (pt_index (3 - d) addr) := e)\<rparr>"
  shows "(plain_tables s \<longrightarrow> plain_tables s') \<and> (owned_tables pages K s \<longrightarrow> owned_tables pages K s')
    \<and> fewer_tables s s'"
proof (intro conjI impI)
  note sub = tab_store [OF inv va d u e]
  assume pl: "plain_tables s"
  show "plain_tables s'"
    unfolding plain_tables_def s'
  proof (intro allI impI)
    let ?l = "entry_at u (pt_index (3 - d) addr)"
    fix p i t assume p: "user_path (p @ [i])"
      and t: "tab (pmem (s\<lparr>pmem := (pmem s)(?l := e)\<rparr>)) (cr3 (s\<lparr>pmem := (pmem s)(?l := e)\<rparr>)) p = Some t"
      and P: "present (pmem (s\<lparr>pmem := (pmem s)(?l := e)\<rparr>) (entry_at t i))"
        "\<not> huge (pmem (s\<lparr>pmem := (pmem s)(?l := e)\<rparr>) (entry_at t i))"
    have p': "user_path p" "i < 512" using user_path_snocD [OF p] by auto
    have t': "tab (pmem s) (cr3 s) p = Some t" using sub [OF p'(1)] t by simp
    have "entry_at t i \<noteq> ?l"
    proof
      assume eq: "entry_at t i = ?l"
      have fr: "is_frame t" "is_frame u" using sep_frame [OF pt_invD(2) [OF inv]] t' u by blast+
      have "t = u" using entry_at_inj [OF fr p'(2) pt_index_less eq] by simp
      then have "p = vpath addr d"
        using sepD [OF pt_invD(2) [OF inv] p'(1) user_path_vpath [OF va d] t'] u by simp
      then have "d < 3" using p by (simp add: user_path_def)
      then show False using e P eq by (simp add: leaf_entry_def)
    qed
    then show "pmem (s\<lparr>pmem := (pmem s)(?l := e)\<rparr>) (entry_at t i) AND 0x7FFFFFFFFFFFF000 =
        pframe (pmem (s\<lparr>pmem := (pmem s)(?l := e)\<rparr>) (entry_at t i))"
      using pl p t' P by (simp add: plain_tables_def)
  qed
next
  note sub = tab_store [OF inv va d u e]
  assume "owned_tables pages K s"
  then show "owned_tables pages K s'" using sub unfolding owned_tables_def s' by simp
qed (use tab_store [OF inv va d u e] s' in \<open>simp add: fewer_tables_def\<close>)

lemma take_vpath: "j \<le> d \<Longrightarrow> take j (vpath va d) = vpath va j"
  by (simp add: vpath_def take_map)

text \<open>Clearing the entry of depth \<open>d\<close> leaves the path above it as it was.\<close>

lemma clear_above:
  assumes inv: "pt_inv ainv taken s" and va: "user_va addr" and d: "d \<le> 3"
    and u: "tab (pmem s) (cr3 s) (vpath addr d) = Some u"
    and s': "pmem s' = (pmem s)(entry_at u (pt_index (3 - d) addr) := 0)" "cr3 s' = cr3 s"
  shows "j \<le> d \<Longrightarrow> tab (pmem s') (cr3 s') (vpath addr j) = tab (pmem s) (cr3 s) (vpath addr j)"
    and "j < d \<Longrightarrow> reaches s' addr j e \<longleftrightarrow> reaches s addr j e"
proof -
  note I = pt_invD [OF inv]
  have up: "user_path (vpath addr j)" if "j \<le> 3" for j by (rule user_path_vpath [OF va that])
  have T: "tab (pmem s') (cr3 s') (vpath addr j) = tab (pmem s) (cr3 s) (vpath addr j)" if "j \<le> d" for j
  proof -
    have "length (take (Suc d) (vpath addr j)) \<noteq> length (vpath addr d @ [pt_index (3 - d) addr])"
      using that by simp
    then have "take (Suc (length (vpath addr d))) (vpath addr j) \<noteq> vpath addr d @ [pt_index (3 - d) addr]"
      by (metis length_vpath)
    then show ?thesis
      using tab_upd_other [OF I(2) up u pt_index_less up] d that s' by simp
  qed
  then show "j \<le> d \<Longrightarrow> tab (pmem s') (cr3 s') (vpath addr j) = tab (pmem s) (cr3 s) (vpath addr j)" .
  have E: "pmem s' (entry_at t (pt_index (3 - j) addr)) = pmem s (entry_at t (pt_index (3 - j) addr))"
    if "j < d" "tab (pmem s) (cr3 s) (vpath addr j) = Some t" for t
  proof -
    have "length (vpath addr j @ [pt_index (3 - j) addr]) \<noteq> length (vpath addr d @ [pt_index (3 - d) addr])"
      using that(1) by simp
    then have "vpath addr j @ [pt_index (3 - j) addr] \<noteq> vpath addr d @ [pt_index (3 - d) addr]"
      by metis
    then have "entry_at t (pt_index (3 - j) addr) \<noteq> entry_at u (pt_index (3 - d) addr)"
      using that d by (intro entry_upd_other [OF I(2) up u pt_index_less up that(2) pt_index_less]) auto
    then show ?thesis using s'(1) by simp
  qed
  show "j < d \<Longrightarrow> reaches s' addr j e \<longleftrightarrow> reaches s addr j e"
    using E T by (auto simp: reaches_def)
qed

lemma reaches_leaf:
  assumes "reaches s va d e" "huge e \<or> d = 3"
  shows "leaf s va = entry_leaf d e"
proof -
  obtain u where u: "d \<le> 3" "tab (pmem s) (cr3 s) (vpath va d) = Some u" "e = pmem s (entry_at u (pt_index (3 - d) va))"
    using assms(1) by (auto simp: reaches_def)
  show ?thesis
  proof (cases "ends_walk d e")
    case True
    then show ?thesis using leaf_of_end [OF u(2,1)] u(3) by (simp add: leaf_def entry_leaf_def)
  next
    case False
    then have "\<not> (d < 3)" using assms(2) by (auto simp: ends_walk_def)
    then show ?thesis using leaf_of_hole [OF u(2,1)] u(3) False by (simp add: leaf_def entry_leaf_def)
  qed
qed

text \<open>Clearing the leaf of \<open>addr\<close> takes no table from the leaves that pin it.\<close>

lemma pinned_clear:
  assumes inv: "pt_inv ainv taken s" and va: "user_va addr"
    and u: "tab (pmem s) (cr3 s) (vpath addr d) = Some u" and e: "reaches s addr d e" "huge e \<or> d = 3"
    and p: "pinned s addr j"
  shows "pinned (s\<lparr>pmem := (pmem s)(entry_at u (pt_index (3 - d) addr) := 0)\<rparr>) addr j"
proof -
  have d: "d \<le> 3" using e(1) by (simp add: reaches_def)
  obtain w where w: "user_va w" "vpath w j = vpath addr j" "leaf s w \<noteq> None"
    "\<And>k e. leaf s addr = Some (k, e) \<Longrightarrow> \<not> same_page k addr w" using p unfolding pinned_def by blast
  have "\<not> same_page d addr w"
  proof
    assume s: "same_page d addr w"
    have "reaches s w d e"
      using e(1) s by (auto simp: reaches_def same_page_def vpath_Suc)
    then have "leaf s w = entry_leaf d e" "leaf s addr = entry_leaf d e"
      using reaches_leaf e by blast+
    then show False using w(3,4) s by (auto simp: entry_leaf_def split: if_splits)
  qed
  moreover have "same_page d addr addr" by (simp add: same_page_def)
  ultimately show ?thesis
    using leaf_clear [OF inv va d u] w(1-3) va by (auto simp: pinned_def)
qed

text \<open>A table all of whose entries are clear translates nothing, and unlinking it removes it.\<close>

lemma unlink_empty:
  assumes inv: "pt_inv ainv taken s" and va: "user_va addr" and d: "d < 3"
    and u: "tab (pmem s) (cr3 s) (vpath addr d) = Some u"
    and v: "tab (pmem s) (cr3 s) (vpath addr (Suc d)) = Some v"
    and z: "\<forall>i < 512. pmem s (entry_at v i) = 0"
    and s1: "s1 = s\<lparr>pmem := (pmem s)(entry_at u (pt_index (3 - d) addr) := 0)\<rparr>"
  shows "pt_inv ainv taken s1 \<and> same_translation s s1 \<and> not_table (pmem s1) (cr3 s1) v \<and> same_leaves s s1"
proof -
  note I = pt_invD [OF inv]
  have up: "user_path (vpath addr d)" "user_path (vpath addr (Suc d))"
    using user_path_vpath [OF va] d by simp_all
  have leaf: "leaf_entry 0 d" by (simp add: leaf_entry_def)
  have P: "page_set ainv taken s addr d 0 s1"
    using d by (intro page_set_final [OF inv u _ va leaf s1]) simp
  have "mmu_translate (pmem s) (cr3 s) va = None" if "user_va va" "same_page d addr va" for va
  proof -
    have "vpath va (Suc d) = vpath addr (Suc d)" using that(2) by (simp add: same_page_def)
    then have "mmu_walk (pmem s) (cr3 s) va 3 = None"
      using mmu_walk_hole [of "pmem s" "cr3 s" va "Suc d" v] v d z pt_index_less by simp
    then show ?thesis using I(4) by (simp add: mmu_translate_def)
  qed
  then have T: "same_translation s s1"
    using P s1 unfolding page_set_def same_translation_def
    by (auto simp: entry_translation_def)
  have "not_table (pmem s1) (cr3 s1) v"
    unfolding not_table_def
  proof (intro allI impI notI)
    fix q assume q: "user_path q" and t: "tab (pmem s1) (cr3 s1) q = Some v"
    have U: "tab (pmem s1) (cr3 s1) q =
        (if take (Suc d) q = vpath addr d @ [pt_index (3 - d) addr] then None else tab (pmem s) (cr3 s) q)"
      using tab_upd_leaf [OF I(2) up(1) u pt_index_less _ q, of 0] leaf s1 by simp
    then have "tab (pmem s) (cr3 s) q = Some v" using t by (simp split: if_splits)
    then have "q = vpath addr (Suc d)" using sepD [OF I(2) q up(2) _ v] by simp
    then have "take (Suc d) q = vpath addr d @ [pt_index (3 - d) addr]"
      by (simp add: vpath_Suc)
    then show False using U t by simp
  qed
  moreover have "same_leaves s s1"
    unfolding same_leaves_def
  proof (intro allI impI)
    fix w assume w: "user_va w"
    have d': "d \<le> 3" using d by simp
    have "leaf s w = None" if "same_page d addr w"
      using empty_table_leaf [of s w d v] that v d z by (simp add: same_page_def)
    then show "leaf s1 w = leaf s w" using leaf_clear [OF inv va d' u w] s1 by simp
  qed
  ultimately show ?thesis using P T by (simp add: page_set_def)
qed

lemma pt_inv_free:
  assumes "pt_inv ainv taken s" and "not_table (pmem s) (cr3 s) v"
    and "ainv al" "taken (alst s) - {v} \<subseteq> taken al"
  shows "pt_inv ainv taken (s\<lparr>invlpgs := l, alst := al\<rparr>)"
  using assms unfolding pt_inv_def not_table_def by (simp add: subset_iff) metis

lemma same_translation_trans:
  "same_translation s s' \<Longrightarrow> same_translation s' s'' \<Longrightarrow> same_translation s s''"
  by (auto simp: same_translation_def)

context page_pool
begin

lemma Unset_free_step:
  assumes t: "al_Free (allocator t) = Free" and inv: "pt_inv invar taken s" and va: "user_va addr"
    and d: "d < 3" and v: "tab (pmem s) (cr3 s) (vpath addr (Suc d)) = Some v"
    and plain: "plain_path s addr (Suc d)" and pg: "pages_path pages s addr (Suc d)"
  obtains (used) "Unset_free t addr (Suc d) s = Inr s"
  | (freed) s' u where "Unset_free t addr (Suc d) s = Unset_free t addr d s'"
      "pt_inv invar taken s'" "same_translation s s'" "plain_path s' addr d"
      "pages_path pages s' addr d" "tab (pmem s') (cr3 s') (vpath addr d) = Some u" "same_leaves s s'"
      "plain_tables s \<longrightarrow> plain_tables s'" "owned_tables pages K s \<longrightarrow> owned_tables pages K s'"
      "fewer_tables s s'"
proof -
  note I = pt_invD [OF inv]
  obtain u where u: "tab (pmem s) (cr3 s) (vpath addr d) = Some u"
    and e: "pframe (pmem s (entry_at u (pt_index (3 - d) addr))) = v"
    using v by (auto simp: vpath_Suc tab_snoc_Some)
  let ?l = "entry_at u (pt_index (3 - d) addr)"
  have d': "Suc d \<le> 3" "d \<le> 3" using d by auto
  have used: "table_used s (table_start (Suc d) addr) 0x200 =
      Inr (\<exists>i < 512. pmem s (entry_at v (of_nat i)) \<noteq> 0)"
    using table_used_ok [OF I(1) v d'(1), of 512] by simp
  show ?thesis
  proof (cases "\<exists>i < 512. pmem s (entry_at v (of_nat i)) \<noteq> 0")
    case True
    then show ?thesis
      using GetTableStart_ok [OF d'(1)] used \<open>Unset_free t addr (Suc d) s = Inr s \<Longrightarrow> thesis\<close> by simp
  next
    case False
    have z: "\<forall>i < 512. pmem s (entry_at v i) = 0"
    proof (intro allI impI)
      fix i :: u64 assume "i < 512"
      then have "unat i < 512" by (simp add: word_less_nat_alt)
      then show "pmem s (entry_at v i) = 0" using False by (metis of_nat_unat ucast_id)
    qed
    let ?s1 = "s\<lparr>pmem := (pmem s)(?l := 0)\<rparr>"
    have L: "pt_inv invar taken ?s1" "same_translation s ?s1" "not_table (pmem ?s1) (cr3 ?s1) v"
        "same_leaves s ?s1"
      using unlink_empty [OF inv va d u v z refl] by auto
    have "\<not> pinned s addr (Suc d)"
      using empty_table_leaf [of s _ d v] v d z by (auto simp: pinned_def)
    then have vp: "v \<in> pages (alst s)" using pg v by (auto simp: pages_path_def)
    obtain al where al: "Free (alst s) v = Inr al" "invar al" "taken (alst s) - {v} \<subseteq> taken al"
      "pages (alst s) - {v} \<subseteq> pages al"
      using page_free [OF I(3) vp] by blast
    let ?s' = "s\<lparr>pmem := (pmem s)(?l := 0),
      invlpgs := invlpgs s @ [(table_start (Suc d) addr, 0x1000)], alst := al\<rparr>"
    have R: "reaches s addr d (pmem s ?l)" using u d'(2) by (auto simp: reaches_def)
    moreover have "present (pmem s ?l)" "\<not> huge (pmem s ?l)" using v u by (simp_all add: vpath_Suc tab_snoc_Some)
    ultimately have mem: "pmem s ?l AND 0x7FFFFFFFFFFFF000 = v"
      using plain e by (auto simp: plain_path_def)
    have S: "Unset_free t addr (Suc d) s = Unset_free t addr d ?s'"
      using GetTableStart_ok [OF d'(1)] used False read_entry_ok [OF I(1) u d'(2)]
        write_entry_ok [OF I(1) u d'(2)] t al(1) mem
      by (simp add: Let_def DistributeInvlpg_def GetAllocator_def)
    have inv': "pt_inv invar taken ?s'"
      using pt_inv_free [OF L(1,3) al(2)] al(3) by simp
    have tr: "same_translation s ?s'"
      using L(2) by (simp add: same_translation_def)
    have s': "pmem ?s' = (pmem s)(?l := 0)" "cr3 ?s' = cr3 s" by simp_all
    note A = clear_above [OF inv va d'(2) u s']
    have "plain_path ?s' addr d"
      using plain A(2) unfolding plain_path_def by (meson less_SucI)
    moreover have T: "(plain_tables s \<longrightarrow> plain_tables ?s1) \<and> (owned_tables pages K s \<longrightarrow> owned_tables pages K ?s1)
        \<and> fewer_tables s ?s1"
      using d'(2) by (intro store_tables [OF inv va _ u _ refl]) (simp_all add: leaf_entry_def)
    then have "plain_tables s \<longrightarrow> plain_tables ?s'" by (simp add: plain_tables_def)
    moreover have "fewer_tables s ?s'" using T by (simp add: fewer_tables_def)
    moreover have "owned_tables pages K s \<longrightarrow> owned_tables pages K ?s'"
      using T L(3) al(4) unfolding owned_tables_def not_table_def by (simp add: subset_iff) metis
    moreover have sl: "same_leaves s ?s'"
      using L(4) by (simp add: same_leaves_def leaf_def)
    moreover have "pages_path pages ?s' addr d"
      unfolding pages_path_def pinned_same_leaves [OF sl va]
    proof (intro allI impI, elim conjE)
      fix j w assume j: "1 \<le> j" "j \<le> d" and w: "tab (pmem ?s') (cr3 ?s') (vpath addr j) = Some w"
      then have w': "tab (pmem s) (cr3 s) (vpath addr j) = Some w" using A(1) by simp
      then have "w \<in> pages (alst s) \<or> pinned s addr j" using pg j by (auto simp: pages_path_def)
      moreover have "w \<noteq> v"
      proof
        assume "w = v"
        then have "vpath addr j = vpath addr (Suc d)"
          using sepD [OF I(2) _ _ w'] v user_path_vpath [OF va] j(2) d by simp
        then have "j = Suc d" by (metis length_vpath)
        then show False using j(2) by simp
      qed
      ultimately show "w \<in> pages (alst ?s') \<or> pinned s addr j" using al(4) by auto
    qed
    moreover have "tab (pmem ?s') (cr3 ?s') (vpath addr d) = Some u" using A(1) u by simp
    ultimately show ?thesis using freed [OF S inv' tr] by blast
  qed
qed

lemma Unset_free_ok:
  assumes t: "al_Free (allocator t) = Free" and va: "user_va addr"
  shows "d \<le> 3 \<Longrightarrow> pt_inv invar taken s \<Longrightarrow> tab (pmem s) (cr3 s) (vpath addr d) = Some v \<Longrightarrow>
    plain_path s addr d \<Longrightarrow> pages_path pages s addr d \<Longrightarrow>
    \<exists>s'. Unset_free t addr d s = Inr s' \<and> pt_inv invar taken s' \<and> same_translation s s' \<and> same_leaves s s'
      \<and> (plain_tables s \<longrightarrow> plain_tables s') \<and> (owned_tables pages K s \<longrightarrow> owned_tables pages K s')
      \<and> fewer_tables s s'"
proof (induction d arbitrary: s v)
  case 0
  then show ?case by (simp add: same_translation_def same_leaves_def)
next
  case (Suc d)
  from Suc.prems(1) have d: "d < 3" by simp
  show ?case
  proof (cases rule: Unset_free_step [where K = K, OF t Suc.prems(2) va d Suc.prems(3-5)])
    case 1
    then show ?thesis using Suc.prems(2) by (auto simp: same_translation_def same_leaves_def)
  next
    case (2 s' u)
    have "d \<le> 3" using d by simp
    from Suc.IH [OF this 2(2,6,4,5)] show ?thesis
      unfolding 2(1) using same_translation_trans [OF 2(3)] 2(7-9) fewer_tables_trans [OF 2(10)] unfolding same_leaves_def by metis
  qed
qed

lemma Unset_ok:
  assumes t: "al_Free (allocator t) = Free" "IsSet t s" and c: "noncritical c"
    and va: "user_va addr" "addr AND 0xfff = 0" and inv: "pt_inv invar taken s"
    and plain: "plain_path s addr 3" and pg: "pages_path pages s addr 3"
  shows "(Unset_find s addr 3 = Inl (Panic ''PageTable::Unset() - no mapping found'')
      \<and> Unset c t s addr = Inl (Panic ''PageTable::Unset() - no mapping found''))
    \<or> (\<exists>d e s'. Unset_find s addr 3 = Inr d \<and> Unset c t s addr = Inr (True, s') \<and> reaches s addr d e \<and> (huge e \<or> d = 3)
         \<and> pt_inv invar taken s' \<and> cr3 s' = cr3 s
         \<and> (\<forall>va. user_va va \<longrightarrow> mmu_translate (pmem s') (cr3 s) va =
              (if same_page d addr va then None else mmu_translate (pmem s) (cr3 s) va))
         \<and> (\<forall>va. user_va va \<longrightarrow> leaf s' va = (if same_page d addr va then None else leaf s va))
         \<and> (plain_tables s \<longrightarrow> plain_tables s') \<and> (owned_tables pages K s \<longrightarrow> owned_tables pages K s')
         \<and> fewer_tables s s')"
proof -
  note I = pt_invD [OF inv]
  have U: "Unset c t s addr = bindE (Unset_find s addr 3) (\<lambda>depth.
     bindE (write_entry s addr depth 0) (\<lambda>s. bindE (Unset_free t addr depth s) (\<lambda>s. Inr (True, s))))"
    using t c va by (simp add: Unset_def)
  have "tab (pmem s) (cr3 s) (vpath addr (3 - 3)) = Some (cr3 s)" by simp
  from Unset_find_ok [OF I(1) _ this] consider
    (p) "Unset_find s addr 3 = Inl (Panic ''PageTable::Unset() - no mapping found'')"
    | (f) d e where "Unset_find s addr 3 = Inr d" "reaches s addr d e" "huge e \<or> d = 3" by blast
  then show ?thesis
  proof cases
    case p
    then show ?thesis using U by simp
  next
    case (f d e)
    then obtain u where d: "d \<le> 3" and u: "tab (pmem s) (cr3 s) (vpath addr d) = Some u"
      by (auto simp: reaches_def)
    let ?s1 = "s\<lparr>pmem := (pmem s)(entry_at u (pt_index (3 - d) addr) := 0)\<rparr>"
    have "leaf_entry 0 d" by (simp add: leaf_entry_def)
    from page_set_final [OF inv u d va(1) this refl] have P: "page_set invar taken s addr d 0 ?s1" .
    then have inv1: "pt_inv invar taken ?s1" by (simp add: page_set_def)
    have s1: "pmem ?s1 = (pmem s)(entry_at u (pt_index (3 - d) addr) := 0)" "cr3 ?s1 = cr3 s"
      by simp_all
    note A = clear_above [OF inv va(1) d u s1]
    have "tab (pmem ?s1) (cr3 ?s1) (vpath addr d) = Some u" using A(1) u by simp
    moreover have "plain_path ?s1 addr d"
      using plain A(2) d unfolding plain_path_def by (meson less_le_trans)
    moreover have "pages_path pages ?s1 addr d"
      unfolding pages_path_def
    proof (intro allI impI, elim conjE)
      fix j w assume j: "1 \<le> j" "j \<le> d" and w: "tab (pmem ?s1) (cr3 ?s1) (vpath addr j) = Some w"
      then have "w \<in> pages (alst s) \<or> pinned s addr j" using pg A(1) d by (auto simp: pages_path_def)
      then show "w \<in> pages (alst ?s1) \<or> pinned ?s1 addr j"
        using pinned_clear [OF inv va(1) u f(2,3)] by auto
    qed
    ultimately obtain s' where s': "Unset_free t addr d ?s1 = Inr s'" "pt_inv invar taken s'"
      "same_translation ?s1 s'" "same_leaves ?s1 s'"
      "plain_tables ?s1 \<longrightarrow> plain_tables s'" "owned_tables pages K ?s1 \<longrightarrow> owned_tables pages K s'"
      "fewer_tables ?s1 s'"
      using Unset_free_ok [OF t(1) va(1) d inv1] by blast
    have "Unset c t s addr = Inr (True, s')"
      using U f(1) write_entry_ok [OF I(1) u d] s'(1) by simp
    moreover have "mmu_translate (pmem s') (cr3 s) v =
        (if same_page d addr v then None else mmu_translate (pmem s) (cr3 s) v)" if "user_va v" for v
      using P s'(3) that by (auto simp: page_set_def same_translation_def entry_translation_def)
    moreover have "leaf s' v = (if same_page d addr v then None else leaf s v)" if "user_va v" for v
      using leaf_clear [OF inv va(1) d u that] s'(4) that by (simp add: same_leaves_def)
    moreover have "(plain_tables s \<longrightarrow> plain_tables ?s1) \<and> (owned_tables pages K s \<longrightarrow> owned_tables pages K ?s1)
        \<and> fewer_tables s ?s1"
      by (intro store_tables [OF inv va(1) d u _ refl]) (simp add: leaf_entry_def)
    ultimately show ?thesis using f s'(2,3,5,6) fewer_tables_trans [OF _ s'(7)]
      by (auto simp: same_translation_def)
  qed
qed

end

end
