(* ===== verification/Regions.thy ===== *)
theory Regions
  imports Prelude
begin

text \<open>
  Physical memory regions: the list of lower and upper regions the boot loader reports
  (\<^verbatim>\<open>src/arch/x64/public/region-list.cpp\<close>, \<^verbatim>\<open>src/arch/x64/public/multiboot-region-list.cpp\<close>,
  \<^verbatim>\<open>src/arch/x64/public/multiboot.hpp\<close>). The class \<^verbatim>\<open>Region\<close> and the fixed-size region list
  come from the ANAlloc library, which is not part of the repository: they are a record of
  operations, and \<open>analloc_ok\<close> states what they are documented to do.
\<close>

section \<open>The ANAlloc interface\<close>

record 'r analloc =
  an_Region :: "u64 \<Rightarrow> u64 \<Rightarrow> 'r"
  an_GetStart :: "'r \<Rightarrow> u64"
  an_GetEnd :: "'r \<Rightarrow> u64"
  an_Contains :: "'r \<Rightarrow> u64 \<Rightarrow> bool"
  an_Insert :: "'r list \<Rightarrow> 'r \<Rightarrow> nat \<Rightarrow> 'r list option"

text \<open>
  A region covers the addresses from its start up to its end; a fixed list accepts an
  insertion while it has fewer elements than its maximum.
\<close>

definition MaximumCount :: nat where
  "MaximumCount = 8"

definition analloc_ok :: "'r analloc \<Rightarrow> bool" where
  "analloc_ok an \<longleftrightarrow>
     (\<forall>s l. an_GetStart an (an_Region an s l) = s \<and> an_GetEnd an (an_Region an s l) = s + l)
     \<and> (\<forall>r a. an_Contains an r a \<longleftrightarrow> an_GetStart an r \<le> a \<and> a < an_GetEnd an r)
     \<and> (\<forall>xs r i. i \<le> length xs \<longrightarrow>
          an_Insert an xs r i =
            (if length xs < MaximumCount then Some (take i xs @ r # drop i xs) else None))"

lemma analloc_okD:
  assumes "analloc_ok an"
  shows "an_GetStart an (an_Region an s l) = s" "an_GetEnd an (an_Region an s l) = s + l"
    "an_Contains an r a \<longleftrightarrow> an_GetStart an r \<le> a \<and> a < an_GetEnd an r"
    "i \<le> length xs \<Longrightarrow> an_Insert an xs r i =
       (if length xs < MaximumCount then Some (take i xs @ r # drop i xs) else None)"
  using assms by (simp_all add: analloc_ok_def)

section \<open>Region lists\<close>

record 'r region_list =
  lowerRegions :: "'r list"
  upperRegions :: "'r list"

text \<open>The first element of a list that passes a test, as the code's counting loops find it.\<close>

fun first_such :: "('r \<Rightarrow> bool) \<Rightarrow> 'r list \<Rightarrow> 'r option" where
  "first_such P [] = None"
| "first_such P (x # xs) = (if P x then Some x else first_such P xs)"

lemma first_such_Some: "first_such P xs = Some x \<Longrightarrow> x \<in> set xs \<and> P x"
  by (induction xs) (auto split: if_splits)

lemma first_such_None: "first_such P xs = None \<longleftrightarrow> (\<forall>x \<in> set xs. \<not> P x)"
  by (induction xs) auto

definition FindRegion :: "'r analloc \<Rightarrow> 'r region_list \<Rightarrow> PhysAddr \<Rightarrow> 'r option" where
  "FindRegion an R addr =
     (case first_such (\<lambda>r. an_Contains an r addr) (lowerRegions R) of
        Some r \<Rightarrow> Some r
      | None \<Rightarrow> first_such (\<lambda>r. an_Contains an r addr) (upperRegions R))"

definition NextRegion :: "'r analloc \<Rightarrow> 'r region_list \<Rightarrow> 'r \<Rightarrow> 'r option" where
  "NextRegion an R reg =
     (case first_such (\<lambda>r. an_GetStart an r > an_GetStart an reg) (lowerRegions R) of
        Some r \<Rightarrow> Some r
      | None \<Rightarrow> first_such (\<lambda>r. an_GetStart an r > an_GetStart an reg) (upperRegions R))"

definition all_regions :: "'r region_list \<Rightarrow> 'r list" where
  "all_regions R = lowerRegions R @ upperRegions R"

lemma FindRegion_Some:
  "FindRegion an R a = Some r \<Longrightarrow> r \<in> set (all_regions R) \<and> an_Contains an r a"
  by (auto simp: FindRegion_def all_regions_def split: option.splits dest: first_such_Some)

lemma FindRegion_None:
  "FindRegion an R a = None \<longleftrightarrow> (\<forall>r \<in> set (all_regions R). \<not> an_Contains an r a)"
  by (auto simp: FindRegion_def all_regions_def first_such_None split: option.splits
      dest: first_such_Some)

lemma NextRegion_Some:
  "NextRegion an R reg = Some r \<Longrightarrow>
    r \<in> set (all_regions R) \<and> an_GetStart an reg < an_GetStart an r"
  by (auto simp: NextRegion_def all_regions_def split: option.splits dest: first_such_Some)

lemma NextRegion_None:
  "NextRegion an R reg = None \<longleftrightarrow>
    (\<forall>r \<in> set (all_regions R). an_GetStart an r \<le> an_GetStart an reg)"
proof (cases "NextRegion an R reg")
  case None
  then show ?thesis
    by (auto simp: NextRegion_def all_regions_def first_such_None not_less split: option.splits)
next
  case (Some r)
  with NextRegion_Some [OF Some] show ?thesis by (auto simp: not_le intro!: bexI [of _ r])
qed

text \<open>
  What the rest of the kernel relies on: the regions are disjoint, non-empty, and end
  within the 52-bit physical address space.
\<close>

definition regions_ok :: "'r analloc \<Rightarrow> 'r region_list \<Rightarrow> bool" where
  "regions_ok an R \<longleftrightarrow> analloc_ok an
     \<and> (\<forall>r \<in> set (all_regions R). an_GetStart an r < an_GetEnd an r \<and> an_GetEnd an r \<le> 0x10000000000000)
     \<and> (\<forall>r \<in> set (all_regions R). \<forall>q \<in> set (all_regions R).
          an_GetStart an r < an_GetStart an q \<longrightarrow> an_GetEnd an r \<le> an_GetStart an q)"

section \<open>Building the list from the multiboot memory map\<close>

record mmap_info =
  mi_size :: u32
  base_addr :: u64
  mi_length :: u64
  mi_type :: u32

definition AddRegion :: "'r analloc \<Rightarrow> 'r region_list \<Rightarrow> 'r \<Rightarrow> 'r region_list res" where
  "AddRegion an R region =
     (let lower = an_GetStart an region < 0x100000000;
          list = (if lower then lowerRegions R else upperRegions R);
          insertIndex =
            length (takeWhile (\<lambda>r. \<not> an_GetStart an r > an_GetStart an region) list)
      in case an_Insert an list region insertIndex of
           None \<Rightarrow> Inl (Panic ''MultibootRegionList::AddRegion() - region overflow'')
         | Some l \<Rightarrow>
             Inr (if lower then R\<lparr>lowerRegions := l\<rparr> else R\<lparr>upperRegions := l\<rparr>))"

text \<open>What the loop body does with one entry of the memory map.\<close>

definition add_entry :: "'r analloc \<Rightarrow> mmap_info \<Rightarrow> 'r region_list \<Rightarrow> 'r region_list res" where
  "add_entry an info R =
     (if mi_type info \<noteq> 1 then Inr R
      else if base_addr info + mi_length info \<le> 0x100000 then Inr R
      else
        (let start = base_addr info; len = mi_length info;
             (start, len) = (if start \<le> 0x100000 then (0, len + start) else (start, len))
         in if start < 0x100000000 \<and> start + len > 0x100000000 then
              (let lowSize = 0x100000000 - start
               in bindE (AddRegion an R (an_Region an start lowSize)) (\<lambda>R.
                    AddRegion an R (an_Region an 0x100000000 (len - lowSize))))
            else AddRegion an R (an_Region an start len)))"

text \<open>
  The loop walks memory by the size field of each entry. Nothing in the code bounds it,
  so None is not returning.
\<close>

partial_function (option) mmap_loop ::
    "'r analloc \<Rightarrow> (u64 \<Rightarrow> mmap_info) \<Rightarrow> u64 \<Rightarrow> u32 \<Rightarrow> 'r region_list \<Rightarrow> 'r region_list res option" where
  "mmap_loop an mem next mmapLen R =
     (if mmapLen = 0 then Some (Inr R)
      else
        (let info = mem next
         in case add_entry an info R of
              Inl f \<Rightarrow> Some (Inl f)
            | Inr R' \<Rightarrow> mmap_loop an mem (next + ucast (mi_size info) + 4)
                 (mmapLen - (mi_size info + 4)) R'))"

definition MultibootRegionList_new ::
    "'r analloc \<Rightarrow> (u64 \<Rightarrow> mmap_info) \<Rightarrow> u32 \<Rightarrow> u32 \<Rightarrow> 'r region_list res option" where
  "MultibootRegionList_new an mem mmap_length mmap_addr =
     (if mmap_addr + mmap_length > 0x100000 then
        Some (Inl (Panic ''GRUB memory map is placed beyond 1MB -- might be destroyed!''))
      else
        (case mmap_loop an mem (ucast mmap_addr) mmap_length \<lparr>lowerRegions = [], upperRegions = []\<rparr> of
           None \<Rightarrow> None
         | Some (Inl f) \<Rightarrow> Some (Inl f)
         | Some (Inr R) \<Rightarrow>
             if length (lowerRegions R) = 0 then
               Some (Inl (Panic ''MultibootRegionList::Initialize() - no lower regions found''))
             else Some (Inr R)))"

section \<open>Insertion keeps the lists sorted\<close>

definition list_sorted :: "'r analloc \<Rightarrow> 'r region_list \<Rightarrow> bool" where
  "list_sorted an R \<longleftrightarrow>
     sorted (map (an_GetStart an) (lowerRegions R)) \<and> sorted (map (an_GetStart an) (upperRegions R))
     \<and> (\<forall>r \<in> set (lowerRegions R). an_GetStart an r < 0x100000000 \<and> an_GetEnd an r \<le> 0x100000000)
     \<and> (\<forall>r \<in> set (upperRegions R). 0x100000000 \<le> an_GetStart an r)"

lemma set_take_drop: "set (take i xs) \<union> set (drop i xs) = set xs"
  by (metis append_take_drop_id set_append)

lemma sorted_insert_at:
  assumes "sorted (map f xs)"
    and "i = length (takeWhile (\<lambda>r. f r \<le> f x) xs)"
  shows "sorted (map f (take i xs @ x # drop i xs))"
  using assms
proof (induction xs arbitrary: i)
  case (Cons y xs)
  show ?case
  proof (cases "f y \<le> f x")
    case True
    let ?n = "length (takeWhile (\<lambda>r. f r \<le> f x) xs)"
    have "sorted (map f (take ?n xs @ x # drop ?n xs))" using Cons by simp
    moreover have "\<forall>z \<in> set (take ?n xs @ x # drop ?n xs). f y \<le> f z"
      using True Cons.prems(1) set_take_drop [of ?n xs] by auto
    ultimately show ?thesis using True Cons.prems(2) by auto
  next
    case False
    with Cons.prems show ?thesis by (auto intro: order_trans less_imp_le)
  qed
qed simp

lemma an_Insert_sorted:
  assumes "analloc_ok an"
    and "an_Insert an xs r (length (takeWhile (\<lambda>q. \<not> an_GetStart an q > an_GetStart an r) xs)) = Some l"
  shows "set l = insert r (set xs)"
    and "sorted (map (an_GetStart an) xs) \<Longrightarrow> sorted (map (an_GetStart an) l)"
proof -
  let ?i = "length (takeWhile (\<lambda>q. an_GetStart an q \<le> an_GetStart an r) xs)"
  have l: "l = take ?i xs @ r # drop ?i xs"
    using assms(2) analloc_okD(4) [OF assms(1), of ?i xs r]
    by (simp add: length_takeWhile_le not_less split: if_splits)
  show "set l = insert r (set xs)" using set_take_drop [of ?i xs] by (auto simp: l)
  show "sorted (map (an_GetStart an) xs) \<Longrightarrow> sorted (map (an_GetStart an) l)"
    unfolding l by (rule sorted_insert_at) simp_all
qed

lemma AddRegion_ok:
  assumes an: "analloc_ok an" and "AddRegion an R r = Inr R'" and "list_sorted an R"
    and "an_GetStart an r < 0x100000000 \<longrightarrow> an_GetEnd an r \<le> 0x100000000"
  shows "list_sorted an R' \<and> set (all_regions R') = insert r (set (all_regions R))"
  using assms(2-4) an_Insert_sorted [OF an]
  by (auto simp: AddRegion_def Let_def all_regions_def list_sorted_def split: option.splits if_splits)

section \<open>The whole memory map\<close>

definition covers :: "'r analloc \<Rightarrow> 'r region_list \<Rightarrow> u64 \<Rightarrow> bool" where
  "covers an R a \<longleftrightarrow> (\<exists>r \<in> set (all_regions R). an_Contains an r a)"

text \<open>
  The addresses an entry contributes: an available entry that reaches above the first
  megabyte, stretched down to 0 when it starts within it.
\<close>

definition entry_covers :: "mmap_info \<Rightarrow> u64 \<Rightarrow> bool" where
  "entry_covers e a \<longleftrightarrow> mi_type e = 1 \<and> 0x100000 < unat (base_addr e) + unat (mi_length e)
     \<and> (base_addr e \<le> 0x100000 \<or> base_addr e \<le> a) \<and> unat a < unat (base_addr e) + unat (mi_length e)"

definition entry_fits :: "mmap_info \<Rightarrow> bool" where
  "entry_fits e \<longleftrightarrow> unat (base_addr e) + unat (mi_length e) < 2 ^ 64"

lemma AddRegion_covers:
  assumes "analloc_ok an" "AddRegion an R (an_Region an st len) = Inr R'" "list_sorted an R"
    and "st < 0x100000000 \<longrightarrow> st + len \<le> 0x100000000"
  shows "list_sorted an R' \<and> (\<forall>a. covers an R' a \<longleftrightarrow> covers an R a \<or> (st \<le> a \<and> a < st + len))"
  using AddRegion_ok [OF assms(1-3)] assms(4) analloc_okD(1-3) [OF assms(1)]
  by (auto simp: covers_def)

lemma add_entry_ok:
  assumes an: "analloc_ok an" and a: "add_entry an e R = Inr R'" and R: "list_sorted an R"
    and f: "entry_fits e"
  shows "list_sorted an R' \<and> (\<forall>a. covers an R' a \<longleftrightarrow> covers an R a \<or> entry_covers e a)"
proof -
  let ?b = "base_addr e" and ?l = "mi_length e"
  have sum: "unat (?b + ?l) = unat ?b + unat ?l"
    using f by (simp add: entry_fits_def unat_add_lem [symmetric])
  show ?thesis
  proof (cases "mi_type e = 1 \<and> 0x100000 < ?b + ?l")
    case False
    then have "R' = R" "\<not> entry_covers e a" for a
      using a sum by (auto simp: add_entry_def entry_covers_def word_less_nat_alt word_le_nat_alt
        split: if_splits)
    then show ?thesis using R by simp
  next
    case True
    define st where "st = (if ?b \<le> 0x100000 then 0 else ?b)"
    define en where "en = ?b + ?l"
    have cov: "entry_covers e a \<longleftrightarrow> st \<le> a \<and> a < en" for a
      using True sum by (auto simp: entry_covers_def st_def en_def word_less_nat_alt word_le_nat_alt)
    have len: "st + (if ?b \<le> 0x100000 then ?l + ?b else ?l) = en"
      by (simp add: st_def en_def add.commute)
    define ln where "ln = (if ?b \<le> 0x100000 then ?l + ?b else ?l)"
    have E: "add_entry an e R = (if st < 0x100000000 \<and> en > 0x100000000 then
        bindE (AddRegion an R (an_Region an st (0x100000000 - st))) (\<lambda>R.
          AddRegion an R (an_Region an 0x100000000 (ln - (0x100000000 - st))))
        else AddRegion an R (an_Region an st ln))"
    proof -
      have t: "\<not> mi_type e \<noteq> 1" "\<not> ?b + ?l \<le> 0x100000" using True by (simp_all add: not_le)
      have p: "(if ?b \<le> 0x100000 then (0, ?l + ?b) else (?b, ?l)) = (st, ln)"
        by (simp add: st_def ln_def)
      show ?thesis
        unfolding add_entry_def Let_def p prod.case len [folded ln_def] by (simp only: t if_False)
    qed
    have ln: "st + ln = en" using len by (simp add: ln_def)
    have s1: "st + (0x100000000 - st) = 0x100000000" by simp
    have s2: "0x100000000 + (ln - (0x100000000 - st)) = en" using ln by (simp add: algebra_simps)
    show ?thesis
    proof (cases "st < 0x100000000 \<and> en > 0x100000000")
      case split: True
      obtain R1 where R1: "AddRegion an R (an_Region an st (0x100000000 - st)) = Inr R1"
        and R': "AddRegion an R1 (an_Region an 0x100000000 (ln - (0x100000000 - st))) = Inr R'"
        using a split E by (auto simp: bindE_Inr_iff)
      note 1 = AddRegion_covers [OF an R1 R, unfolded s1]
      have "list_sorted an R1" using 1 by simp
      from 1 AddRegion_covers [OF an R' this, unfolded s2] show ?thesis
        using split cov by (auto intro: less_trans less_le_trans le_less_trans)
    next
      case False
      have "AddRegion an R (an_Region an st ln) = Inr R'"
        using a unfolding E if_not_P [OF False] .
      moreover have "st < 0x100000000 \<longrightarrow> en \<le> 0x100000000" using False by (auto simp: not_less)
      ultimately show ?thesis using AddRegion_covers [OF an _ R, of st ln R'] by (simp add: cov ln)
    qed
  qed
qed

text \<open>A memory map of the given entries, laid out one after the other.\<close>

fun mmap_at :: "(u64 \<Rightarrow> mmap_info) \<Rightarrow> u64 \<Rightarrow> mmap_info list \<Rightarrow> bool" where
  "mmap_at mem next [] = True"
| "mmap_at mem next (e # es) \<longleftrightarrow> mem next = e \<and> mmap_at mem (next + ucast (mi_size e) + 4) es"

definition entries_bytes :: "mmap_info list \<Rightarrow> nat" where
  "entries_bytes es = sum_list (map (\<lambda>e. unat (mi_size e) + 4) es)"

fun add_entries :: "'r analloc \<Rightarrow> mmap_info list \<Rightarrow> 'r region_list \<Rightarrow> 'r region_list res" where
  "add_entries an [] R = Inr R"
| "add_entries an (e # es) R = bindE (add_entry an e R) (add_entries an es)"

lemma mmap_loop_returns:
  "mmap_at mem next es \<Longrightarrow> unat mmapLen = entries_bytes es \<Longrightarrow>
    mmap_loop an mem next mmapLen R = Some (add_entries an es R)"
proof (induction es arbitrary: "next" mmapLen R)
  case Nil
  then show ?case by (subst mmap_loop.simps) (simp add: entries_bytes_def unat_eq_0)
next
  case (Cons e es)
  have n: "unat mmapLen = unat (mi_size e) + 4 + entries_bytes es"
    using Cons.prems(2) by (simp add: entries_bytes_def)
  then have nz: "mmapLen \<noteq> 0" by auto
  have sz: "unat (mi_size e + 4) = unat (mi_size e) + 4"
    using n unat_less_2p [of mmapLen] by (subst unat_add_lem [THEN iffD1]) simp_all
  have "mi_size e + 4 \<le> mmapLen" using n sz by (simp add: word_le_nat_alt)
  then have "unat (mmapLen - (mi_size e + 4)) = entries_bytes es"
    using n sz by (simp add: unat_sub)
  then have "mmap_loop an mem (next + ucast (mi_size e) + 4) (mmapLen - (mi_size e + 4)) R'
      = Some (add_entries an es R')" for R'
    using Cons by simp
  then show ?case
    using nz Cons.prems(1) by (subst mmap_loop.simps) (auto simp: Let_def split: sum.split)
qed

lemma add_entries_ok:
  assumes an: "analloc_ok an"
  shows "add_entries an es R = Inr R' \<Longrightarrow> list_sorted an R \<Longrightarrow> \<forall>e \<in> set es. entry_fits e \<Longrightarrow>
    list_sorted an R' \<and> (\<forall>a. covers an R' a \<longleftrightarrow> covers an R a \<or> (\<exists>e \<in> set es. entry_covers e a))"
proof (induction es arbitrary: R)
  case (Cons e es)
  then obtain R1 where R1: "add_entry an e R = Inr R1" "add_entries an es R1 = Inr R'"
    by (auto simp: bindE_Inr_iff)
  have "entry_fits e" using Cons.prems(3) by simp
  from Cons.IH [OF R1(2)] add_entry_ok [OF an R1(1) Cons.prems(2) this] Cons.prems(3)
  show ?case by auto
qed simp

text \<open>
  C25. Given a memory map laid out as the boot loader documents it, building the region
  list terminates; when it does not panic, the lower and upper lists are sorted, split at
  4 GB, and cover exactly the available memory that reaches above the first megabyte, with
  the first megabyte joined to an entry that starts in it.
\<close>

theorem MultibootRegionList_ok:
  assumes "analloc_ok an" and "mmap_at mem (ucast addr) es" and "unat len = entries_bytes es"
    and "\<forall>e \<in> set es. entry_fits e"
  shows "\<exists>r. MultibootRegionList_new an mem len addr = Some r \<and>
    (\<forall>R. r = Inr R \<longrightarrow> lowerRegions R \<noteq> [] \<and> list_sorted an R
       \<and> (\<forall>a. covers an R a \<longleftrightarrow> (\<exists>e \<in> set es. entry_covers e a)))"
proof (cases "addr + len > 0x100000")
  case True
  then show ?thesis by (simp add: MultibootRegionList_new_def)
next
  case False
  let ?R0 = "\<lparr>lowerRegions = [], upperRegions = []\<rparr>"
  have L: "mmap_loop an mem (ucast addr) len ?R0 = Some (add_entries an es ?R0)"
    by (rule mmap_loop_returns [OF assms(2,3)])
  have "list_sorted an ?R0" "\<not> covers an ?R0 a" for a
    by (simp_all add: list_sorted_def covers_def all_regions_def)
  with add_entries_ok [OF assms(1) _ _ assms(4), of ?R0] False L show ?thesis
    by (auto simp: MultibootRegionList_new_def split: sum.split)
qed

text \<open>A concrete region type on which the interface's laws hold, for the witnesses.\<close>

definition ex_analloc :: "(u64 \<times> u64) analloc" where
  "ex_analloc =
     \<lparr>an_Region = (\<lambda>s l. (s, s + l)), an_GetStart = fst, an_GetEnd = snd,
      an_Contains = (\<lambda>(s, e) a. s \<le> a \<and> a < e),
      an_Insert = (\<lambda>xs r i. if length xs < MaximumCount then Some (take i xs @ r # drop i xs) else None)\<rparr>"

lemma ex_analloc_ok: "analloc_ok ex_analloc"
  by (auto simp: analloc_ok_def ex_analloc_def)

definition ex_mmap :: "u64 \<Rightarrow> mmap_info" where
  "ex_mmap a =
     (if a = 0x9000 then \<lparr>mi_size = 20, base_addr = 0, mi_length = 0x9FC00, mi_type = 1\<rparr>
      else \<lparr>mi_size = 20, base_addr = 0x100000, mi_length = 0x7F00000, mi_type = 1\<rparr>)"

theorem MultibootRegionList_ok_witness:
  "\<exists>r. MultibootRegionList_new ex_analloc ex_mmap 48 0x9000 = Some r \<and>
    (\<forall>R. r = Inr R \<longrightarrow> lowerRegions R \<noteq> [] \<and> list_sorted ex_analloc R
       \<and> (\<forall>a. covers ex_analloc R a \<longleftrightarrow>
            (\<exists>e \<in> set [ex_mmap 0x9000, ex_mmap 0x9018]. entry_covers e a)))"
  by (rule MultibootRegionList_ok [OF ex_analloc_ok])
    (simp_all add: ex_mmap_def entries_bytes_def entry_fits_def)

end
