(* ===== verification/StepAllocator.thy ===== *)
theory StepAllocator
  imports Regions Allocator
begin

text \<open>
  The boot-time allocator (\<^verbatim>\<open>src/arch/x64/pmm/step-allocator.cpp\<close>): its state is the a0
  address, and it only ever steps forward through the regions of physical memory. The
  other operations of the allocator interface panic.
\<close>

section \<open>Operations\<close>

text \<open>The adjustment of \<^verbatim>\<open>lastAddr\<close> to an alignment within a region.\<close>

definition step_fit :: "'r analloc \<Rightarrow> 'r \<Rightarrow> PhysSize \<Rightarrow> PhysAddr \<Rightarrow> PhysAddr" where
  "step_fit an reg align lastAddr =
     (let lastAddr = (if lastAddr mod align \<noteq> 0 then lastAddr + (align - lastAddr mod align)
                      else lastAddr)
      in if lastAddr > an_GetEnd an reg then an_GetEnd an reg - 1 else lastAddr)"

function step_loop ::
    "'r analloc \<Rightarrow> 'r region_list \<Rightarrow> PhysSize \<Rightarrow> PhysSize \<Rightarrow> 'r \<Rightarrow> PhysAddr
     \<Rightarrow> PhysAddr option \<times> PhysAddr" where
  "step_loop an R sz align reg lastAddr =
     (if lastAddr + sz > an_GetEnd an reg then
        (case NextRegion an R reg of
           None \<Rightarrow> (None, lastAddr)
         | Some reg' \<Rightarrow> step_loop an R sz align reg' (step_fit an reg' align (an_GetStart an reg')))
      else (Some lastAddr, lastAddr + sz))"
  by pat_completeness auto
termination
proof (relation "measure (\<lambda>(an, R, sz, align, reg, lastAddr).
    card {r \<in> set (all_regions R). an_GetStart an reg < an_GetStart an r})")
  fix an :: "'r analloc" and R sz align reg lastAddr reg'
  assume "NextRegion an R reg = Some reg'"
  then have n: "reg' \<in> set (all_regions R)" "an_GetStart an reg < an_GetStart an reg'"
    by (simp_all add: NextRegion_Some)
  then have "{r \<in> set (all_regions R). an_GetStart an reg' < an_GetStart an r}
      \<subset> {r \<in> set (all_regions R). an_GetStart an reg < an_GetStart an r}"
    by (auto intro: less_trans)
  then show "((an, R, sz, align, reg', step_fit an reg' align (an_GetStart an reg')),
      an, R, sz, align, reg, lastAddr) \<in> measure (\<lambda>(an, R, sz, align, reg, lastAddr).
    card {r \<in> set (all_regions R). an_GetStart an reg < an_GetStart an r})"
    by (simp add: psubset_card_mono)
qed simp

declare step_loop.simps [simp del]

definition StepAllocator_Alloc ::
    "'r analloc \<Rightarrow> 'r region_list \<Rightarrow> PhysAddr \<Rightarrow> PhysSize \<Rightarrow> PhysSize
     \<Rightarrow> (PhysAddr option \<times> PhysAddr) res" where
  "StepAllocator_Alloc an R lastAddr sz align =
     (case (case FindRegion an R lastAddr of
              Some reg \<Rightarrow> Some reg | None \<Rightarrow> FindRegion an R (lastAddr - 1)) of
        None \<Rightarrow> Inr (None, lastAddr)
      | Some reg \<Rightarrow>
          if align = 0 then Inl DivideError
          else Inr (step_loop an R sz align reg (step_fit an reg align lastAddr)))"

definition GetLastAddress :: "PhysAddr \<Rightarrow> PhysAddr" where
  "GetLastAddress lastAddr = lastAddr"

definition StepAllocator_ops :: "'r analloc \<Rightarrow> 'r region_list \<Rightarrow> PhysAddr allocator_ops" where
  "StepAllocator_ops an R =
     \<lparr>al_Alloc = StepAllocator_Alloc an R,
      al_Free = (\<lambda>_ _. Inl (Panic ''StepAllocator::Free() - unsupported'')),
      al_Owns = (\<lambda>_ _. Inl (Panic ''StepAllocator::Owns() - unsupported'')),
      al_Used = (\<lambda>_. Inl (Panic ''StepAllocator::Used() - unsupported'')),
      al_Available = (\<lambda>_. Inl (Panic ''StepAllocator::Available() - unsupported'')),
      al_Total = (\<lambda>_. Inl (Panic ''StepAllocator::Total() - unsupported''))\<rparr>"

section \<open>What an allocation returns\<close>

text \<open>
  The alignments and sizes for which the address arithmetic cannot wrap. A size of one
  byte is left out: an alignment that runs past the end of a region then returns the
  region's a0 byte.
\<close>

definition step_request :: "PhysSize \<Rightarrow> PhysSize \<Rightarrow> bool" where
  "step_request sz align \<longleftrightarrow> 2 \<le> unat sz \<and> unat sz \<le> 2 ^ 60 \<and> 0 < unat align \<and> unat align \<le> 2 ^ 60"

lemma regions_okD:
  assumes "regions_ok an R" "r \<in> set (all_regions R)"
  shows "an_GetStart an r < an_GetEnd an r" "unat (an_GetEnd an r) \<le> 2 ^ 52"
    "q \<in> set (all_regions R) \<Longrightarrow> an_GetStart an r < an_GetStart an q \<Longrightarrow>
      an_GetEnd an r \<le> an_GetStart an q"
  using assms by (auto simp: regions_ok_def word_le_nat_alt)

lemma step_fit_cases:
  assumes R: "regions_ok an R" "reg \<in> set (all_regions R)" and a: "a \<le> an_GetEnd an reg"
    and rq: "step_request sz align"
  defines "b \<equiv> step_fit an reg align a"
  shows "(a \<le> b \<and> b \<le> an_GetEnd an reg \<and> b mod align = 0) \<or> b = an_GetEnd an reg - 1"
proof -
  have "unat a \<le> 2 ^ 52" using regions_okD(2) [OF R] a by (simp add: word_le_nat_alt)
  with round_up [of a align] rq a show ?thesis
    by (auto simp: b_def step_fit_def step_request_def Let_def not_less)
qed

text \<open>The position of the search: a region reached from the lower bound \<open>lb\<close>, and an address in it.\<close>

definition step_at ::
    "'r analloc \<Rightarrow> 'r region_list \<Rightarrow> PhysAddr \<Rightarrow> PhysSize \<Rightarrow> 'r \<Rightarrow> PhysAddr \<Rightarrow> bool" where
  "step_at an R lb align reg a \<longleftrightarrow>
     reg \<in> set (all_regions R) \<and> lb \<le> an_GetEnd an reg \<and> an_GetStart an reg \<le> a
     \<and> ((lb \<le> a \<and> a \<le> an_GetEnd an reg \<and> a mod align = 0) \<or> a = an_GetEnd an reg - 1)"

lemma less_minus_one: "x < y \<Longrightarrow> x \<le> y - 1 \<and> unat (y - 1) = unat y - 1" for x y :: u64
  by (cases "y = 0") (auto simp: word_less_nat_alt word_le_nat_alt unat_minus_one)

lemma step_fit_at:
  assumes R: "regions_ok an R" "reg \<in> set (all_regions R)" and rq: "step_request sz align"
    and a: "an_GetStart an reg \<le> a" "a \<le> an_GetEnd an reg" "lb \<le> a"
  shows "step_at an R lb align reg (step_fit an reg align a)"
proof -
  have "an_GetStart an reg \<le> an_GetEnd an reg - 1"
    using less_minus_one [OF regions_okD(1) [OF R]] by simp
  with step_fit_cases [OF R a(2) rq] a R(2) show ?thesis
    unfolding step_at_def by (metis order_trans)
qed

lemma step_loop_ok:
  "regions_ok an R \<Longrightarrow> step_request sz align \<Longrightarrow> step_at an R lb align reg a \<Longrightarrow>
    step_loop an R sz align reg a = (Some f, l) \<Longrightarrow>
    lb \<le> f \<and> f mod align = 0 \<and> l = f + sz \<and>
    (\<exists>r \<in> set (all_regions R). an_GetStart an r \<le> f \<and> unat f + unat sz \<le> unat (an_GetEnd an r))"
proof (induction an R sz align reg a rule: step_loop.induct)
  case (1 an R sz align reg a)
  have reg: "reg \<in> set (all_regions R)" using "1.prems"(3) by (simp add: step_at_def)
  note ok = regions_okD [OF "1.prems"(1) reg]
  show ?case
  proof (cases "an_GetEnd an reg < a + sz")
    case True
    then obtain reg' where n: "NextRegion an R reg = Some reg'"
      and l: "step_loop an R sz align reg' (step_fit an reg' align (an_GetStart an reg')) = (Some f, l)"
      using "1.prems"(4) by (subst (asm) step_loop.simps) (auto split: option.splits)
    have r': "reg' \<in> set (all_regions R)" "an_GetStart an reg < an_GetStart an reg'"
      using NextRegion_Some [OF n] by auto
    have "lb \<le> an_GetStart an reg'"
      using ok(3) [OF r'] "1.prems"(3) by (auto simp: step_at_def)
    then have "step_at an R lb align reg' (step_fit an reg' align (an_GetStart an reg'))"
      using regions_okD(1) [OF "1.prems"(1) r'(1)]
      by (intro step_fit_at [OF "1.prems"(1) r'(1) "1.prems"(2)]) auto
    from "1.IH" [OF True n "1.prems"(1,2) this l] show ?thesis .
  next
    case False
    then have f: "f = a" "l = a + sz"
      using "1.prems"(4) by (auto simp: step_loop.simps [of an R sz align reg a])
    have a: "a \<le> an_GetEnd an reg" "an_GetStart an reg \<le> a"
      using "1.prems"(3) less_minus_one [OF ok(1)] by (auto simp: step_at_def word_le_nat_alt)
    then have s: "unat (a + sz) = unat a + unat sz"
      using ok(2) "1.prems"(2)
      by (subst unat_add_lem [THEN iffD1]) (simp_all add: word_le_nat_alt step_request_def)
    then have e: "unat a + unat sz \<le> unat (an_GetEnd an reg)"
      using False by (simp add: word_less_nat_alt)
    then have "a \<noteq> an_GetEnd an reg - 1"
      using less_minus_one [OF ok(1)] "1.prems"(2) by (auto simp: step_request_def)
    then show ?thesis using "1.prems"(3) f e a(2) reg by (auto simp: step_at_def)
  qed
qed

section \<open>The contract of an allocation\<close>

lemma StepAllocator_Alloc_ok:
  assumes R: "regions_ok an R" and rq: "step_request sz align"
    and a: "StepAllocator_Alloc an R a0 sz align = Inr (Some f, a0')"
  shows "a0 \<le> f \<and> f mod align = 0 \<and> a0' = f + sz \<and>
    (\<exists>r \<in> set (all_regions R). an_GetStart an r \<le> f \<and> unat f + unat sz \<le> unat (an_GetEnd an r))"
proof -
  have an: "analloc_ok an" using R by (simp add: regions_ok_def)
  obtain reg where l: "step_loop an R sz align reg (step_fit an reg align a0) = (Some f, a0')"
    and r: "FindRegion an R a0 = Some reg \<or> FindRegion an R (a0 - 1) = Some reg"
    using a by (auto simp: StepAllocator_Alloc_def split: option.splits if_splits)
  have reg: "reg \<in> set (all_regions R)" using r FindRegion_Some by metis
  have "an_Contains an reg a0 \<or> an_Contains an reg (a0 - 1)"
    using r FindRegion_Some by metis
  then have "an_GetStart an reg \<le> a0 \<and> a0 \<le> an_GetEnd an reg"
  proof
    assume c: "an_Contains an reg (a0 - 1)"
    show ?thesis
    proof (cases "a0 = 0")
      case True
      with c show ?thesis
        using regions_okD(2) [OF R reg] by (auto simp: analloc_okD(3) [OF an] word_less_nat_alt True)
    next
      case False
      then show ?thesis
        using c by (auto simp: analloc_okD(3) [OF an] word_less_nat_alt word_le_nat_alt unat_minus_one)
    qed
  qed (auto simp: analloc_okD(3) [OF an])
  then have "step_at an R a0 align reg (step_fit an reg align a0)"
    by (intro step_fit_at [OF R reg rq]) auto
  from step_loop_ok [OF R rq this l] show ?thesis .
qed

text \<open>
  Asked for pages, the allocator is a page source: everything below \<^verbatim>\<open>lastAddr\<close> counts as
  taken.
\<close>

lemma step_request_page: "step_request 0x1000 0x1000"
  by (simp add: step_request_def)

interpretation step: page_source "StepAllocator_Alloc an R" "\<lambda>_. regions_ok an R"
    "\<lambda>a. {f. f < a}" for an :: "'r analloc" and R
proof
  fix a :: PhysAddr
  show "\<exists>r a'. StepAllocator_Alloc an R a 0x1000 0x1000 = Inr (r, a')"
    by (auto simp: StepAllocator_Alloc_def split: option.splits prod.splits)
next
  fix a f a' :: PhysAddr
  assume R: "regions_ok an R" and "StepAllocator_Alloc an R a 0x1000 0x1000 = Inr (Some f, a')"
  from StepAllocator_Alloc_ok [OF R step_request_page this(2)] obtain r where
    f: "a \<le> f" "f mod 0x1000 = 0" "a' = f + 0x1000" "r \<in> set (all_regions R)"
      "unat f + 0x1000 \<le> unat (an_GetEnd an r)" by auto
  then have u: "unat f + 0x1000 \<le> 2 ^ 52" using regions_okD(2) [OF R f(4)] by simp
  then have "unat (f + 0x1000) = unat f + 0x1000"
    by (subst unat_add_lem [THEN iffD1]) simp_all
  then have "f < a'" using f(3) by (simp add: word_less_nat_alt)
  moreover have "unat f mod 0x1000 = 0" using f(2) by (simp add: word_unat_eq_iff unat_mod)
  then have "is_frame f" using u by (intro aligned_is_frame) simp_all
  ultimately show "is_frame f \<and> f \<notin> {g. g < a} \<and> insert f {g. g < a} \<subseteq> {g. g < a'}"
    using f(1) by auto
qed

section \<open>Properties\<close>


text \<open>Two regions with a hole between them; the second block does not fit in the first region.\<close>

definition ex_regions :: "(u64 \<times> u64) region_list" where
  "ex_regions = \<lparr>lowerRegions = [(0, 0x400000), (0x1000000, 0x8000000)], upperRegions = []\<rparr>"

lemma ex_regions_ok: "regions_ok ex_analloc ex_regions"
  by (simp add: regions_ok_def ex_analloc_ok) (simp add: ex_analloc_def ex_regions_def all_regions_def)

lemmas ex_alloc_simps = StepAllocator_Alloc_def step_loop.simps step_fit_def FindRegion_def
  NextRegion_def ex_analloc_def ex_regions_def


end
