(* ===== verification/BuddyAllocator.thy ===== *)
theory BuddyAllocator
  imports Regions Allocator Critical
begin

text \<open>
  The physical allocator of the running kernel (\<^verbatim>\<open>src/arch/x64/pmm/buddy-allocator.cpp\<close>):
  two clusters of buddy trees, one below and one above 4 GB. The cluster and the classes
  that lay it out belong to ANAlloc, so they are a record of operations; \<open>cluster_ok\<close>
  states what a cluster is documented to do, over the set of addresses it holds free and
  the blocks it has handed out. The locks make each operation atomic.
\<close>

section \<open>The ANAlloc cluster\<close>

record 'c cluster_ops =
  cl_Reserve :: "'c \<Rightarrow> u64 \<Rightarrow> u64 \<Rightarrow> 'c"
  cl_Align :: "'c \<Rightarrow> u64 \<Rightarrow> u64 \<Rightarrow> u64 option \<times> 'c"
  cl_Free :: "'c \<Rightarrow> u64 \<Rightarrow> 'c"
  cl_OwnsAddress :: "'c \<Rightarrow> u64 \<Rightarrow> bool"
  cl_GetFreeSize :: "'c \<Rightarrow> u64"

section \<open>State and operations\<close>

record 'c buddy =
  lower :: 'c
  upper :: 'c
  hasUpper :: bool
  hasLower :: bool
  totalSpace :: u64

definition sum_sizes :: "('r \<Rightarrow> u64) \<Rightarrow> 'r list \<Rightarrow> u64 \<Rightarrow> u64" where
  "sum_sizes getSize rs tot = fold (\<lambda>r tot. tot + getSize r) rs tot"

text \<open>
  \<^verbatim>\<open>InitializeCluster\<close>: the layout and the space it requires are ANAlloc's, the memory
  comes from the temporary allocator's \<^verbatim>\<open>AllocAndMap\<close>, a parameter here.
\<close>

definition InitializeCluster ::
    "('r list \<Rightarrow> u64) \<Rightarrow> ('r list \<Rightarrow> VirtAddr \<Rightarrow> 'c) \<Rightarrow> ('s \<Rightarrow> u64 \<Rightarrow> (VirtAddr option \<times> 's) res)
     \<Rightarrow> 'r list \<Rightarrow> 's \<Rightarrow> ('c \<times> 's) res" where
  "InitializeCluster requiredSpace createAllocators allocAndMap regs s =
     bindE (allocAndMap s (requiredSpace regs)) (\<lambda>(r, s).
       case r of
         None \<Rightarrow> Inl (Panic ''BuddyAllocator::InitializeCluster() - allocation failed'')
       | Some newAddress \<Rightarrow> Inr (createAllocators regs newAddress, s))"

definition BuddyAllocator_new ::
    "('r list \<Rightarrow> u64) \<Rightarrow> ('r list \<Rightarrow> VirtAddr \<Rightarrow> 'c) \<Rightarrow> ('s \<Rightarrow> u64 \<Rightarrow> (VirtAddr option \<times> 's) res)
     \<Rightarrow> ('r \<Rightarrow> u64) \<Rightarrow> 'c \<Rightarrow> 'r region_list \<Rightarrow> 's \<Rightarrow> ('c buddy \<times> 's) res" where
  "BuddyAllocator_new requiredSpace createAllocators allocAndMap getSize emptyCluster R s =
     (let b = \<lparr>lower = emptyCluster, upper = emptyCluster, hasUpper = False, hasLower = False,
           totalSpace = sum_sizes getSize (upperRegions R) (sum_sizes getSize (lowerRegions R) 0)\<rparr>
      in bindE (if length (lowerRegions R) \<noteq> 0 then
                  bindE (InitializeCluster requiredSpace createAllocators allocAndMap (lowerRegions R) s)
                    (\<lambda>(c, s). Inr (b\<lparr>lower := c, hasLower := True\<rparr>, s))
                else Inr (b, s)) (\<lambda>(b, s).
           if length (upperRegions R) \<noteq> 0 then
             bindE (InitializeCluster requiredSpace createAllocators allocAndMap (upperRegions R) s)
               (\<lambda>(c, s). Inr (b\<lparr>upper := c, hasUpper := True\<rparr>, s))
           else Inr (b, s)))"

definition Buddy_Reserve :: "'c cluster_ops \<Rightarrow> 'c buddy \<Rightarrow> PhysAddr \<Rightarrow> 'c buddy" where
  "Buddy_Reserve cl b lastAddr =
     (let b = (if hasLower b then b\<lparr>lower := cl_Reserve cl (lower b) 0 lastAddr\<rparr> else b)
      in if hasUpper b then b\<lparr>upper := cl_Reserve cl (upper b) 0 lastAddr\<rparr> else b)"

definition AllocLower ::
    "crit \<Rightarrow> 'c cluster_ops \<Rightarrow> 'c buddy \<Rightarrow> PhysSize \<Rightarrow> PhysSize \<Rightarrow> (PhysAddr option \<times> 'c buddy) res" where
  "AllocLower c cl b sz align =
     bindE (AssertNoncritical c) (\<lambda>_.
       if \<not> hasLower b then Inr (None, b)
       else (let (r, c') = cl_Align cl (lower b) sz align in Inr (r, b\<lparr>lower := c'\<rparr>)))"

definition Buddy_Alloc ::
    "crit \<Rightarrow> 'c cluster_ops \<Rightarrow> 'c buddy \<Rightarrow> PhysSize \<Rightarrow> PhysSize \<Rightarrow> (PhysAddr option \<times> 'c buddy) res" where
  "Buddy_Alloc c cl b sz align =
     bindE (AssertNoncritical c) (\<lambda>_.
       if hasUpper b then
         (let (r, c') = cl_Align cl (upper b) sz align; b' = b\<lparr>upper := c'\<rparr>
          in case r of Some addr \<Rightarrow> Inr (Some addr, b') | None \<Rightarrow> AllocLower c cl b' sz align)
       else AllocLower c cl b sz align)"

definition Buddy_Free :: "crit \<Rightarrow> 'c cluster_ops \<Rightarrow> 'c buddy \<Rightarrow> PhysAddr \<Rightarrow> 'c buddy res" where
  "Buddy_Free c cl b address =
     bindE (AssertNoncritical c) (\<lambda>_.
       if address \<ge> 0x100000000 then Inr (b\<lparr>upper := cl_Free cl (upper b) address\<rparr>)
       else Inr (b\<lparr>lower := cl_Free cl (lower b) address\<rparr>))"

definition Buddy_Owns :: "'c cluster_ops \<Rightarrow> 'c buddy \<Rightarrow> PhysAddr \<Rightarrow> bool" where
  "Buddy_Owns cl b address =
     (if hasUpper b \<and> cl_OwnsAddress cl (upper b) address then True
      else if hasLower b then cl_OwnsAddress cl (lower b) address
      else False)"

definition Buddy_Available :: "crit \<Rightarrow> 'c cluster_ops \<Rightarrow> 'c buddy \<Rightarrow> PhysSize res" where
  "Buddy_Available c cl b =
     bindE (AssertNoncritical c) (\<lambda>_.
       let available = 0;
           available = (if hasUpper b then available + cl_GetFreeSize cl (upper b) else available)
       in Inr (if hasLower b then available + cl_GetFreeSize cl (lower b) else available))"

definition Buddy_Used :: "crit \<Rightarrow> 'c cluster_ops \<Rightarrow> 'c buddy \<Rightarrow> PhysSize res" where
  "Buddy_Used c cl b =
     bindE (AssertNoncritical c) (\<lambda>_.
     bindE (Buddy_Available c cl b) (\<lambda>available. Inr (totalSpace b - available)))"

definition Buddy_Total :: "crit \<Rightarrow> 'c buddy \<Rightarrow> PhysSize res" where
  "Buddy_Total c b = bindE (AssertNoncritical c) (\<lambda>_. Inr (totalSpace b))"

definition BuddyAllocator_ops :: "crit \<Rightarrow> 'c cluster_ops \<Rightarrow> 'c buddy allocator_ops" where
  "BuddyAllocator_ops c cl =
     \<lparr>al_Alloc = Buddy_Alloc c cl, al_Free = Buddy_Free c cl,
      al_Owns = (\<lambda>b a. Inr (Buddy_Owns cl b a)), al_Used = Buddy_Used c cl,
      al_Available = Buddy_Available c cl, al_Total = Buddy_Total c\<rparr>"

section \<open>The page pool\<close>

text \<open>
  A cluster over the addresses from \<open>lo\<close> up to \<open>hi\<close>: \<open>cfree\<close> are the frames it holds free,
  \<open>cpages\<close> the single pages it has handed out. An allocation comes out of the free frames;
  freeing a page returns that page and nothing else.
\<close>

definition cluster_ok ::
    "'c cluster_ops \<Rightarrow> ('c \<Rightarrow> bool) \<Rightarrow> ('c \<Rightarrow> u64 set) \<Rightarrow> ('c \<Rightarrow> u64 set) \<Rightarrow> u64 \<Rightarrow> u64 \<Rightarrow> bool" where
  "cluster_ok cl cinv cfree cpages lo hi \<longleftrightarrow>
     (\<forall>c. cinv c \<longrightarrow>
        cfree c \<union> cpages c \<subseteq> {f. is_frame f \<and> lo \<le> f \<and> f < hi}
        \<and> (\<forall>sz al r c'. cl_Align cl c sz al = (r, c') \<longrightarrow>
             cinv c' \<and> cfree c' \<subseteq> cfree c \<and> cpages c \<subseteq> cpages c'
             \<and> (\<forall>f. r = Some f \<and> sz = 0x1000 \<longrightarrow>
                  f \<in> cfree c \<and> f \<notin> cfree c' \<and> f \<in> cpages c'))
        \<and> (\<forall>f \<in> cpages c. cinv (cl_Free cl c f) \<and> cfree (cl_Free cl c f) \<subseteq> insert f (cfree c)
             \<and> cpages c - {f} \<subseteq> cpages (cl_Free cl c f)))"

definition buddy_inv ::
    "crit \<Rightarrow> 'c cluster_ops \<Rightarrow> ('c \<Rightarrow> bool) \<Rightarrow> ('c \<Rightarrow> bool) \<Rightarrow> ('c \<Rightarrow> u64 set) \<Rightarrow> ('c \<Rightarrow> u64 set)
     \<Rightarrow> 'c buddy \<Rightarrow> bool" where
  "buddy_inv c cl linv uinv cfree cpages b \<longleftrightarrow>
     noncritical c \<and> cluster_ok cl linv cfree cpages 0 0x100000000
     \<and> cluster_ok cl uinv cfree cpages 0x100000000 0x10000000000000
     \<and> (hasLower b \<longrightarrow> linv (lower b)) \<and> (hasUpper b \<longrightarrow> uinv (upper b))"

definition buddy_set :: "('c \<Rightarrow> u64 set) \<Rightarrow> 'c buddy \<Rightarrow> u64 set" where
  "buddy_set f b = (if hasLower b then f (lower b) else {}) \<union> (if hasUpper b then f (upper b) else {})"

lemma cluster_okD:
  assumes "cluster_ok cl cinv cfree cpages lo hi" "cinv c"
  shows "f \<in> cfree c \<or> f \<in> cpages c \<Longrightarrow> is_frame f \<and> lo \<le> f \<and> f < hi"
    and "cl_Align cl c sz al = (r, c') \<Longrightarrow> cinv c' \<and> cfree c' \<subseteq> cfree c \<and> cpages c \<subseteq> cpages c'"
    and "cl_Align cl c 0x1000 al = (Some f, c') \<Longrightarrow> f \<in> cfree c \<and> f \<notin> cfree c' \<and> f \<in> cpages c'"
    and "f \<in> cpages c \<Longrightarrow> cinv (cl_Free cl c f) \<and> cfree (cl_Free cl c f) \<subseteq> insert f (cfree c)
             \<and> cpages c - {f} \<subseteq> cpages (cl_Free cl c f)"
  using assms unfolding cluster_ok_def by blast+

lemma buddy_invD:
  assumes "buddy_inv c cl linv uinv cfree cpages b"
  shows "noncritical c" "cluster_ok cl linv cfree cpages 0 0x100000000"
    "cluster_ok cl uinv cfree cpages 0x100000000 0x10000000000000"
    "hasLower b \<Longrightarrow> linv (lower b)" "hasUpper b \<Longrightarrow> uinv (upper b)"
  using assms by (auto simp: buddy_inv_def)

text \<open>What an allocation of a page does to the pool.\<close>

definition page_taken ::
    "('c \<Rightarrow> u64 set) \<Rightarrow> ('c \<Rightarrow> u64 set) \<Rightarrow> 'c buddy \<Rightarrow> PhysAddr option \<Rightarrow> 'c buddy \<Rightarrow> bool" where
  "page_taken cfree cpages b r b' \<longleftrightarrow>
     buddy_set cfree b' \<subseteq> buddy_set cfree b \<and> buddy_set cpages b \<subseteq> buddy_set cpages b'
     \<and> (\<forall>f. r = Some f \<longrightarrow> is_frame f \<and> f \<in> buddy_set cfree b \<and> f \<notin> buddy_set cfree b'
          \<and> f \<in> buddy_set cpages b')"

lemma AllocLower_page:
  assumes inv: "buddy_inv c cl linv uinv cfree cpages b"
    and a: "AllocLower c cl b 0x1000 0x1000 = Inr (r, b')"
  shows "buddy_inv c cl linv uinv cfree cpages b' \<and> page_taken cfree cpages b r b'"
proof (cases "hasLower b")
  case False
  then show ?thesis using a inv by (auto simp: AllocLower_def page_taken_def buddy_invD(1) [OF inv])
next
  case True
  note I = buddy_invD [OF inv]
  note LD = cluster_okD [OF I(2) I(4) [OF True]] and UD = cluster_okD(1) [OF I(3) I(5)]
  obtain l' where l: "cl_Align cl (lower b) 0x1000 0x1000 = (r, l')" and b': "b' = b\<lparr>lower := l'\<rparr>"
    using a True I(1) by (auto simp: AllocLower_def split: prod.splits)
  note mono = LD(2) [OF l]
  have "buddy_inv c cl linv uinv cfree cpages b'"
    using inv mono b' by (simp add: buddy_inv_def)
  moreover have "is_frame f \<and> f \<in> buddy_set cfree b \<and> f \<notin> buddy_set cfree b' \<and> f \<in> buddy_set cpages b'"
    if "r = Some f" for f
  proof -
    note P = LD(3) [OF l [unfolded that]]
    have "is_frame f" "f < 0x100000000" using LD(1) [of f] P by auto
    moreover have "hasUpper b \<Longrightarrow> f \<notin> cfree (upper b)"
      using UD [of f] \<open>f < 0x100000000\<close> by auto
    ultimately show ?thesis using P True b' by (auto simp: buddy_set_def)
  qed
  ultimately show ?thesis using mono True b' by (auto simp: page_taken_def buddy_set_def)
qed

lemma Buddy_Alloc_page:
  assumes inv: "buddy_inv c cl linv uinv cfree cpages b"
    and a: "Buddy_Alloc c cl b 0x1000 0x1000 = Inr (r, b')"
  shows "buddy_inv c cl linv uinv cfree cpages b' \<and> page_taken cfree cpages b r b'"
proof (cases "hasUpper b")
  case False
  then show ?thesis
    using a AllocLower_page [OF inv] buddy_invD(1) [OF inv] by (simp add: Buddy_Alloc_def)
next
  case True
  note I = buddy_invD [OF inv]
  note UD = cluster_okD [OF I(3) I(5) [OF True]] and LD = cluster_okD(1) [OF I(2) I(4)]
  obtain q u' where u: "cl_Align cl (upper b) 0x1000 0x1000 = (q, u')" by fastforce
  note mono = UD(2) [OF u]
  have inv': "buddy_inv c cl linv uinv cfree cpages (b\<lparr>upper := u'\<rparr>)"
    using inv mono by (simp add: buddy_inv_def)
  have sub: "buddy_set cfree (b\<lparr>upper := u'\<rparr>) \<subseteq> buddy_set cfree b"
    "buddy_set cpages b \<subseteq> buddy_set cpages (b\<lparr>upper := u'\<rparr>)"
    using mono True by (auto simp: buddy_set_def)
  show ?thesis
  proof (cases q)
    case None
    then have "AllocLower c cl (b\<lparr>upper := u'\<rparr>) 0x1000 0x1000 = Inr (r, b')"
      using a True I(1) u by (simp add: Buddy_Alloc_def)
    from AllocLower_page [OF inv' this] sub show ?thesis
      by (auto simp: page_taken_def)
  next
    case (Some f)
    then have r: "r = Some f" "b' = b\<lparr>upper := u'\<rparr>"
      using a True I(1) u by (simp_all add: Buddy_Alloc_def)
    note P = UD(3) [OF u [unfolded Some]]
    have F: "is_frame f" "0x100000000 \<le> f" using UD(1) [of f] P by auto
    moreover have "hasLower b \<Longrightarrow> f \<notin> cfree (lower b)" using LD [of f] F(2) by auto
    ultimately have "f \<in> buddy_set cfree b \<and> f \<notin> buddy_set cfree b' \<and> f \<in> buddy_set cpages b'"
      using P True r(2) by (auto simp: buddy_set_def)
    then show ?thesis using inv' sub F r by (simp add: page_taken_def)
  qed
qed

text \<open>A page goes back to the cluster it came from.\<close>

lemma Buddy_Free_page:
  assumes inv: "buddy_inv c cl linv uinv cfree cpages b" and f: "f \<in> buddy_set cpages b"
  shows "\<exists>b'. Buddy_Free c cl b f = Inr b' \<and> buddy_inv c cl linv uinv cfree cpages b'
    \<and> buddy_set cfree b' \<subseteq> insert f (buddy_set cfree b)
    \<and> buddy_set cpages b - {f} \<subseteq> buddy_set cpages b'"
proof -
  note I = buddy_invD [OF inv]
  note LD = cluster_okD [OF I(2) I(4)] and UD = cluster_okD [OF I(3) I(5)]
  show ?thesis
  proof (cases "f \<ge> 0x100000000")
    case True
    then have u: "hasUpper b" "f \<in> cpages (upper b)"
      using f LD(1) [of f] by (auto simp: buddy_set_def split: if_splits)
    note F = UD(4) [OF u]
    have "Buddy_Free c cl b f = Inr (b\<lparr>upper := cl_Free cl (upper b) f\<rparr>)"
      using True I(1) by (simp add: Buddy_Free_def)
    moreover have "buddy_inv c cl linv uinv cfree cpages (b\<lparr>upper := cl_Free cl (upper b) f\<rparr>)"
      using inv F by (simp add: buddy_inv_def)
    ultimately show ?thesis using F u(1) by (auto simp: buddy_set_def)
  next
    case False
    then have l: "hasLower b" "f \<in> cpages (lower b)"
      using f UD(1) [of f] by (auto simp: buddy_set_def split: if_splits)
    note F = LD(4) [OF l]
    have "Buddy_Free c cl b f = Inr (b\<lparr>lower := cl_Free cl (lower b) f\<rparr>)"
      using False I(1) by (simp add: Buddy_Free_def)
    moreover have "buddy_inv c cl linv uinv cfree cpages (b\<lparr>lower := cl_Free cl (lower b) f\<rparr>)"
      using inv F by (simp add: buddy_inv_def)
    ultimately show ?thesis using F l(1) by (auto simp: buddy_set_def)
  qed
qed

interpretation buddy: page_pool "Buddy_Alloc c cl" "buddy_inv c cl linv uinv cfree cpages"
    "\<lambda>b. - buddy_set cfree b" "Buddy_Free c cl" "buddy_set cpages" for c cl linv uinv cfree cpages
proof
  fix a :: "'a buddy"
  assume inv: "buddy_inv c cl linv uinv cfree cpages a"
  show "\<exists>r a'. Buddy_Alloc c cl a 0x1000 0x1000 = Inr (r, a')"
    using buddy_invD(1) [OF inv]
    by (auto simp: Buddy_Alloc_def AllocLower_def Let_def split: option.splits prod.splits)
  fix f assume "f \<in> buddy_set cpages a"
  from Buddy_Free_page [OF inv this] show "\<exists>a'. Buddy_Free c cl a f = Inr a' \<and>
      buddy_inv c cl linv uinv cfree cpages a' \<and> - buddy_set cfree a - {f} \<subseteq> - buddy_set cfree a' \<and>
      buddy_set cpages a - {f} \<subseteq> buddy_set cpages a'" by blast
next
  fix a a' :: "'a buddy" and f r
  assume inv: "buddy_inv c cl linv uinv cfree cpages a"
  show "Buddy_Alloc c cl a 0x1000 0x1000 = Inr (r, a') \<Longrightarrow> buddy_inv c cl linv uinv cfree cpages a'"
    using Buddy_Alloc_page [OF inv] by blast
  assume "Buddy_Alloc c cl a 0x1000 0x1000 = Inr (Some f, a')"
  from Buddy_Alloc_page [OF inv this] show "is_frame f \<and> f \<notin> - buddy_set cfree a \<and>
      insert f (- buddy_set cfree a) \<subseteq> - buddy_set cfree a'"
    "insert f (buddy_set cpages a) \<subseteq> buddy_set cpages a'"
    by (auto simp: page_taken_def)
qed

end
