(* ===== verification/PageTableProps.thy ===== *)
theory PageTableProps
  imports SetListProofs UnsetProofs StepAllocator BuddyAllocator
begin

text \<open>
  The properties of the page tables, for any allocator that keeps the page-source
  contract, each instantiated at a concrete machine: an empty PML4 with its fractal slot,
  and the step allocator over two regions of memory.
\<close>

section \<open>A concrete machine\<close>

definition ex_machine :: "PhysAddr machine" where
  "ex_machine = \<lparr>pmem = (\<lambda>a. if a = 0x2ff8 then 0x2003 else 0), cr3 = 0x2000, alst = 0x3000,
     invlpgs = []\<rparr>"

definition ex_table :: "PhysAddr page_table" where
  "ex_table = \<lparr>allocator = StepAllocator_ops ex_analloc ex_regions, pml4 = 0x2000\<rparr>"

definition ex_crit :: crit where
  "ex_crit = \<lparr>crit_initialized = True, rflags = 0x202\<rparr>"

lemma ex_tab: "user_path p \<Longrightarrow> tab (pmem ex_machine) 0x2000 p = Some t \<Longrightarrow> p = [] \<and> t = 0x2000"
proof (cases p)
  case (Cons i q)
  assume p: "user_path p" "tab (pmem ex_machine) 0x2000 p = Some t"
  then have i: "i < 512" "i \<noteq> 0x1ff" using Cons by (auto simp: user_path_def)
  have "entry_at 0x2000 i \<noteq> entry_at 0x2000 0x1ff"
    using entry_at_inj [where t = "0x2000" and u = "0x2000" and i = i and j = "0x1ff"] i by (auto simp: is_frame_def pframe_def)
  then have "pmem ex_machine (entry_at 0x2000 i) = 0"
    by (simp add: ex_machine_def entry_at_def)
  then show ?thesis using p(2) Cons by (simp add: Let_def)
qed simp

lemma ex_fractal: "fractal (pmem ex_machine) (cr3 ex_machine)"
  by (simp add: fractal_def ex_machine_def pframe_def entry_at_def present_def huge_def)

lemma ex_pt_inv: "pt_inv (\<lambda>_. regions_ok ex_analloc ex_regions) (\<lambda>a. {f. f < a}) ex_machine"
proof -
  have r: "cr3 ex_machine = 0x2000" by (simp add: ex_machine_def)
  have "sep (pmem ex_machine) (cr3 ex_machine)"
    using ex_tab unfolding sep_def r by (auto simp: is_frame_def pframe_def)
  moreover have "\<forall>p t. user_path p \<longrightarrow> tab (pmem ex_machine) (cr3 ex_machine) p = Some t \<longrightarrow>
      t \<in> {f. f < alst ex_machine}"
    using ex_tab unfolding r by (fastforce simp: ex_machine_def)
  ultimately show ?thesis
    using ex_fractal ex_regions_ok by (simp add: pt_inv_def)
qed

lemma ex_setup: "noncritical ex_crit" "IsSet ex_table ex_machine"
  by (simp_all add: noncritical_def IgnoreCriticality_def GetCritical_def ex_crit_def IsSet_def
      GetPml4_def ex_table_def ex_machine_def)

lemma ex_source: "page_source (al_Alloc (allocator ex_table)) (\<lambda>_. regions_ok ex_analloc ex_regions)
    (\<lambda>a. {f. f < a})"
  using step.page_source_axioms by (simp add: ex_table_def StepAllocator_ops_def)

section \<open>Properties\<close>

text \<open>
  C14. The fractal mapping is sound: with the PML4 mapped into its own last slot, the
  virtual address GetTableEntry computes for any address and depth whose table exists
  translates to exactly the physical location of that table's entry, so reads and writes
  through it are reads and writes of the table tree.
\<close>

theorem fractal_entry_access:
  assumes "fractal (pmem s) (cr3 s)" and "depth < 4"
    and "entry_loc (pmem s) (cr3 s) va depth = Some loc"
  shows "\<exists>v. GetTableEntry va depth = Inr v \<and> mmu_translate (pmem s) (cr3 s) v = Some loc
    \<and> read_entry s va depth = Inr (pmem s loc)
    \<and> write_entry s va depth x = Inr (s\<lparr>pmem := (pmem s)(loc := x)\<rparr>)"
proof -
  have d: "depth \<le> 3" using assms(2) by simp
  obtain t where t: "tab (pmem s) (cr3 s) (vpath va depth) = Some t"
    and loc: "loc = entry_at t (pt_index (3 - depth) va)"
    using assms(3) by (auto simp: entry_loc_def)
  show ?thesis
    using GetTableEntry_window [OF d] window_entry [OF assms(1) t d]
      read_entry_ok [OF assms(1) t d] write_entry_ok [OF assms(1) t d] loc by simp
qed

theorem fractal_entry_access_witness:
  "\<exists>v. GetTableEntry 0x8000000123 0 = Inr v
    \<and> mmu_translate (pmem ex_machine) (cr3 ex_machine) v = Some 0x2008
    \<and> read_entry ex_machine 0x8000000123 0 = Inr 0
    \<and> write_entry ex_machine 0x8000000123 0 0x9003
        = Inr (ex_machine\<lparr>pmem := (pmem ex_machine)(0x2008 := 0x9003)\<rparr>)"
proof -
  have "entry_loc (pmem ex_machine) (cr3 ex_machine) 0x8000000123 0 = Some 0x2008"
    by (simp add: entry_loc_def ex_machine_def entry_at_def pt_index_def)
  moreover have "pmem ex_machine 0x2008 = 0" by (simp add: ex_machine_def)
  ultimately show ?thesis
    using fractal_entry_access [OF ex_fractal, of 0 "0x8000000123" "0x2008" "0x9003"] by simp
qed

text \<open>
  C3. PageTable::Set on a well-formed live table, with any allocator that keeps the page
  contract, never faults: it panics when no frame is left, returns false under a large
  page (then no translation has changed), or returns true. In that case the page at the
  address translates through the new entry, every other address below the fractal slot
  translates as before, the table stays well formed, and overwrote is reported false only
  if the page was unmapped.
\<close>

theorem Set_maps_page:
  assumes "page_source (al_Alloc (allocator t)) ainv taken" and "IsSet t s" and "noncritical c"
    and "flags_only pm" "present pm" and "user_va addr" and "d \<le> 3" and "addr mod level_size d = 0"
    and "pt_inv ainv taken s" and "leaf_entry e d"
  shows "case Set c t s addr e pm d of
      Inl flt \<Rightarrow> flt = Panic ''PageTable::Set() - allocation failed''
    | Inr (None, s') \<Rightarrow> pt_inv ainv taken s' \<and> same_translation s s' \<and> large_above s' addr d
    | Inr (Some over, s') \<Rightarrow> pt_inv ainv taken s' \<and> cr3 s' = cr3 s
        \<and> (\<forall>va. user_va va \<longrightarrow> mmu_translate (pmem s') (cr3 s) va =
              (if same_page d addr va then entry_translation e d va
               else mmu_translate (pmem s) (cr3 s) va))
        \<and> (\<forall>va. user_va va \<and> same_page d addr va \<and> \<not> over \<longrightarrow>
              mmu_translate (pmem s) (cr3 s) va = None)"
proof (cases rule: page_source.Set_ok [OF assms(1) refl assms(2-10)])
  case 1
  then show ?thesis by simp
next
  case (2 s')
  then show ?thesis by (simp add: grown_def)
next
  case (3 s' over)
  show ?thesis
    unfolding 3(1) sum.case prod.case option.case
    using 3(2) 3(3) unfolding page_set_def by metis
qed

definition ex_mapped :: "PhysAddr machine" where
  "ex_mapped = (case Set ex_crit ex_table ex_machine 0x400000 0x7003 3 3 of
     Inr (_, s') \<Rightarrow> s' | Inl _ \<Rightarrow> ex_machine)"

lemma ex_set: "Set ex_crit ex_table ex_machine 0x400000 0x7003 3 3 = Inr (Some False, ex_mapped)"
proof -
  have "case Set ex_crit ex_table ex_machine 0x400000 0x7003 3 3 of
      Inr (Some over, s') \<Rightarrow> \<not> over | _ \<Rightarrow> False"
    by code_simp
  then show ?thesis by (auto simp: ex_mapped_def split: sum.splits option.splits prod.splits)
qed

lemma ex_flags: "flags_only 3" "present 3"
  by (simp_all add: flags_only_def present_def pframe_def huge_def)

theorem Set_maps_page_witness:
  "Set ex_crit ex_table ex_machine 0x400000 0x7003 3 3 = Inr (Some False, ex_mapped)
   \<and> pt_inv (\<lambda>_. regions_ok ex_analloc ex_regions) (\<lambda>a. {f. f < a}) ex_mapped
   \<and> mmu_translate (pmem ex_mapped) (cr3 ex_mapped) 0x400123 = Some 0x7123
   \<and> mmu_translate (pmem ex_machine) (cr3 ex_machine) 0x400123 = None"
proof -
  have va: "user_va 0x400000" "user_va 0x400123" "same_page 3 0x400000 0x400123"
    by (simp_all add: user_va_def pt_index_def same_page_def vpath_def upt_rec)
  have e: "entry_translation 0x7003 3 0x400123 = Some 0x7123"
    by (simp add: entry_translation_def canonical_def present_def leaf_addr_0 pframe_def
        mask_eq_exp_minus_1)
  have S: "pt_inv (\<lambda>_. regions_ok ex_analloc ex_regions) (\<lambda>a. {f. f < a}) ex_mapped"
    "cr3 ex_mapped = cr3 ex_machine"
    "\<And>va. user_va va \<Longrightarrow> mmu_translate (pmem ex_mapped) (cr3 ex_machine) va =
      (if same_page 3 0x400000 va then entry_translation 0x7003 3 va
       else mmu_translate (pmem ex_machine) (cr3 ex_machine) va)"
    "\<And>va. user_va va \<Longrightarrow> same_page 3 0x400000 va \<Longrightarrow>
      mmu_translate (pmem ex_machine) (cr3 ex_machine) va = None"
    using Set_maps_page [OF ex_source ex_setup(2,1) ex_flags va(1) _ _ ex_pt_inv, of 3 "0x7003"] ex_set
    by (simp_all add: level_size_def leaf_entry_def)
  show ?thesis using ex_set S(1,2) S(3,4) [OF va(2)] va(3) e by simp
qed

section \<open>Reading back, and runs of pages\<close>

text \<open>
  C17. What Set stores, Read gives back: a 4 KB or 2 MB page mapped with the entry that
  CalcMask builds from an address and attributes is read as that address, those
  attributes and that page size.
\<close>

theorem Set_Read_roundtrip:
  assumes "page_source (al_Alloc (allocator t)) ainv taken" and "IsSet t s" and "noncritical c"
    and "flags_only pm" "present pm" and "user_va addr" and "addr mod sz = 0"
    and "pt_inv ainv taken s" and "CalcDepth sz = Inr d" and "sz \<noteq> 0x40000000"
    and "unat p mod unat sz = 0" and "unat p < 2 ^ 52"
    and "Set c t s addr (p OR CalcMask sz kern a) pm d = Inr (Some over, s')"
  shows "Read c t s' addr =
    Inr (Some (p, \<lparr>executable = executable a, writable = writable a, cachable = True\<rparr>), sz)"
proof -
  let ?e = "p OR CalcMask sz kern a"
  note D = CalcDepth_cases [OF assms(9)]
  have leaf: "leaf_entry ?e d"
    using D(5) by (auto simp: leaf_entry_def huge_or CalcMask_flags)
  have "addr mod level_size d = 0" using assms(7) D(2) by simp
  from page_source.Set_ok [OF assms(1) refl assms(2-6) D(4) this assms(8) leaf] assms(13)
  have S: "page_set ainv taken s addr d ?e s'" by force
  then have s': "IsSet t s'" "fractal (pmem s') (cr3 s')" "reaches s' addr d ?e"
    using assms(2) D(4) by (auto simp: page_set_def IsSet_def pt_inv_def reaches_def)
  have "huge ?e \<or> d = 3 \<and> present ?e" "2 \<le> d" "d = 2 \<or> d = 3"
    using D(1) assms(10) by (auto simp: huge_or present_or CalcMask_flags)
  with Read_reached [OF assms(3) s'] Read_frame_or [of p d sz kern a] assms(11,12)
  show ?thesis
    using unat_level_size [OF D(4)] unfolding D(2) [symmetric] by (auto split: if_splits)
qed

text \<open>The translations after SetList.\<close>

lemma SetList_maps:
  assumes "page_source (al_Alloc (allocator t)) ainv taken" and "IsSet t s" and "noncritical c"
    and "flags_only pm" "present pm" and "pt_inv ainv taken s"
    and "CalcDepth (pageSize sz) = Inr d" and "run_ok d virt (unat (pageCount sz))"
    and "frames_ok d p (unat (pageCount sz))"
  shows "case SetList c t s virt (p OR CalcMask (pageSize sz) kern a) sz pm of
      Inl flt \<Rightarrow> flt \<in> {Panic ''PageTable::Set() - allocation failed'',
                        Panic ''PageTable::SetList() - Set() failed''}
    | Inr (ow, s') \<Rightarrow> pt_inv ainv taken s' \<and> cr3 s' = cr3 s \<and>
        (\<forall>va. canonical va \<and> va < UserEnd \<longrightarrow> mmu_translate (pmem s') (cr3 s) va =
           (if unat virt \<le> unat va \<and> unat va < unat virt + unat (pageCount sz) * unat (pageSize sz)
            then Some (p + (va - virt)) else mmu_translate (pmem s) (cr3 s) va))"
proof -
  note D = CalcDepth_cases [OF assms(7)]
  let ?l = "SetList_loop c t (unat (pageCount sz)) virt (p OR CalcMask (pageSize sz) kern a)
      (level_size d) pm d None s"
  have S: "SetList c t s virt (p OR CalcMask (pageSize sz) kern a) sz pm = ?l"
    using assms(2,3,7) D(2) by (simp add: SetList_def)
  have I: "in_run d virt (unat (pageCount sz)) va \<longleftrightarrow>
      unat virt \<le> unat va \<and> unat va < unat virt + unat (pageCount sz) * unat (pageSize sz)" for va
    using D(2) unat_level_size [OF D(4)] by (simp add: in_run_def)
  from page_source.SetList_loop_total [OF assms(1) refl assms(3-5) CalcMask_flags(1,2) _ D(3)
      assms(8,9) _ assms(6) refl, of "pageSize sz" kern a None] D(5) assms(2)
  consider "?l \<in> {Inl (Panic ''PageTable::Set() - allocation failed''),
      Inl (Panic ''PageTable::SetList() - Set() failed'')}"
    | ow s' where "?l = Inr (ow, s')" "pt_inv ainv taken s'" "cr3 s' = cr3 s"
        "linear_map d virt p (unat (pageCount sz)) s s'"
    by (auto simp: CalcMask_flags IsSet_def GetPml4_def)
  then show ?thesis
  proof cases
    case 1
    then show ?thesis unfolding S by auto
  next
    case (2 ow s')
    then show ?thesis unfolding S linear_map_def I by simp
  qed
qed

text \<open>
  C4. PageTable::SetList makes a linear map: it returns or fails by one of its two panics,
  and when it returns every address of the range of pageCount pages at virt translates to
  phys plus its offset, every other canonical address below the fractal slot translates
  as before, and the table is well formed.
\<close>

theorem SetList_linear:
  assumes "page_source (al_Alloc (allocator t)) ainv taken" and "IsSet t s" and "noncritical c"
    and "flags_only pm" "present pm" and "pt_inv ainv taken s"
    and "CalcDepth (pageSize sz) = Inr d" and "run_ok d virt (unat (pageCount sz))"
    and "frames_ok d p (unat (pageCount sz))"
  shows "case SetList c t s virt (p OR CalcMask (pageSize sz) kern a) sz pm of
      Inl flt \<Rightarrow> flt \<in> {Panic ''PageTable::Set() - allocation failed'',
                        Panic ''PageTable::SetList() - Set() failed''}
    | Inr (ow, s') \<Rightarrow> pt_inv ainv taken s' \<and> cr3 s' = cr3 s \<and>
        (\<forall>va. canonical va \<and> va < UserEnd \<longrightarrow> mmu_translate (pmem s') (cr3 s) va =
           (if unat virt \<le> unat va \<and> unat va < unat virt + unat (pageCount sz) * unat (pageSize sz)
            then Some (p + (va - virt)) else mmu_translate (pmem s) (cr3 s) va))"
  by (rule SetList_maps [OF assms])

definition ex_attrs :: attributes where
  "ex_attrs = \<lparr>executable = False, writable = True, cachable = True\<rparr>"

theorem Set_Read_roundtrip_witness:
  "Read ex_crit ex_table (snd (projr (Set ex_crit ex_table ex_machine 0x40000000
     (0x7000000 OR CalcMask 0x200000 True ex_attrs) 3 2))) 0x40000000
   = Inr (Some (0x7000000, ex_attrs), 0x200000)"
proof -
  let ?r = "Set ex_crit ex_table ex_machine 0x40000000 (0x7000000 OR CalcMask 0x200000 True ex_attrs) 3 2"
  have "case ?r of Inr (Some over, s') \<Rightarrow> True | _ \<Rightarrow> False"
    by code_simp
  then obtain over s' where r: "?r = Inr (Some over, s')"
    by (auto split: sum.splits option.splits prod.splits)
  have "user_va 0x40000000" by (simp add: user_va_def pt_index_def)
  from Set_Read_roundtrip [OF ex_source ex_setup(2,1) ex_flags this _ ex_pt_inv _ _ _ _ r]
  show ?thesis unfolding r by (simp add: CalcDepth_def ex_attrs_def)
qed

theorem SetList_linear_witness:
  "\<exists>ow s'. SetList ex_crit ex_table ex_machine 0x40000000
      (0x1000000 OR CalcMask 0x200000 True default_attributes) \<lparr>pageSize = 0x200000, pageCount = 1\<rparr> 3
      = Inr (ow, s')
    \<and> mmu_translate (pmem s') (cr3 ex_machine) 0x40100123 = Some 0x1100123"
proof -
  let ?r = "SetList ex_crit ex_table ex_machine 0x40000000
      (0x1000000 OR CalcMask 0x200000 True default_attributes) \<lparr>pageSize = 0x200000, pageCount = 1\<rparr> 3"
  have "case ?r of Inr _ \<Rightarrow> True | _ \<Rightarrow> False"
    by code_simp
  then obtain ow s' where r: "?r = Inr (ow, s')"
    by (auto split: sum.splits)
  have d: "CalcDepth (pageSize \<lparr>pageSize = 0x200000, pageCount = 1\<rparr>) = Inr 2"
    by (simp add: CalcDepth_def)
  have ok: "run_ok 2 0x40000000 (unat (pageCount \<lparr>pageSize = 0x200000, pageCount = 1\<rparr>))"
    "frames_ok 2 0x1000000 (unat (pageCount \<lparr>pageSize = 0x200000, pageCount = 1\<rparr>))"
    by (simp_all add: run_ok_def frames_ok_def page_bits_def)
  from SetList_linear [OF ex_source ex_setup(2,1) ex_flags ex_pt_inv d ok, of True default_attributes] r
  show ?thesis by (auto simp: canonical_def UserEnd_def)
qed


text \<open>One page at 0x400000, mapped by hand.\<close>

definition ex_one_page :: "PhysAddr machine" where
  "ex_one_page = \<lparr>pmem = (\<lambda>a. if a = 0x2ff8 then 0x2003 else if a = 0x2000 then 0x3003
       else if a = 0x3000 then 0x4003 else if a = 0x4010 then 0x5003
       else if a = 0x5000 then 0x7003 else 0),
     cr3 = 0x2000, alst = 0x6000, invlpgs = []\<rparr>"


section \<open>Removing pages\<close>

text \<open>
  C10. PageTable::Unset, with any allocator that keeps the page-pool contract, either
  panics because the address has no mapping, or returns true: the page that held the
  address is unmapped, every other address below the fractal slot translates as before and
  keeps its leaf entry, a reservation as well as a page, and the tables, those it freed left
  out, still form a well-formed tree.
\<close>

theorem Unset_removes_page:
  assumes "page_pool (al_Alloc (allocator t)) ainv taken (al_Free (allocator t)) pages"
    and "IsSet t s" and "noncritical c" and "user_va addr" and "addr AND 0xfff = 0"
    and "pt_inv ainv taken s" and "plain_path s addr 3" and "pages_path pages s addr 3"
  shows "(Unset_find s addr 3 = Inl (Panic ''PageTable::Unset() - no mapping found'')
      \<and> Unset c t s addr = Inl (Panic ''PageTable::Unset() - no mapping found''))
    \<or> (\<exists>d e s'. Unset_find s addr 3 = Inr d \<and> Unset c t s addr = Inr (True, s') \<and> reaches s addr d e \<and> (huge e \<or> d = 3)
         \<and> pt_inv ainv taken s' \<and> cr3 s' = cr3 s
         \<and> (\<forall>va. user_va va \<longrightarrow> mmu_translate (pmem s') (cr3 s) va =
              (if same_page d addr va then None else mmu_translate (pmem s) (cr3 s) va))
         \<and> (\<forall>va. user_va va \<longrightarrow> leaf s' va = (if same_page d addr va then None else leaf s va)))"
  using page_pool.Unset_ok [OF assms(1) refl assms(2-8), where K = "{}"] by metis

text \<open>A cluster that hands out single pages from a list.\<close>

definition ex_cluster :: "(u64 list \<times> u64 list) cluster_ops" where
  "ex_cluster = \<lparr>cl_Reserve = (\<lambda>c _ _. c),
     cl_Align = (\<lambda>(fr, pg) sz al. case fr of
        [] \<Rightarrow> (None, (fr, pg))
      | f # fs \<Rightarrow> if sz = 0x1000 then (Some f, (fs, f # pg)) else (None, (fr, pg))),
     cl_Free = (\<lambda>(fr, pg) f. (f # fr, filter (\<lambda>g. g \<noteq> f) pg)),
     cl_OwnsAddress = (\<lambda>_ _. True), cl_GetFreeSize = (\<lambda>(fr, _). of_nat (length fr) * 0x1000)\<rparr>"

definition ex_cinv :: "u64 \<Rightarrow> u64 \<Rightarrow> u64 list \<times> u64 list \<Rightarrow> bool" where
  "ex_cinv lo hi c \<longleftrightarrow> distinct (fst c) \<and> set (fst c) \<inter> set (snd c) = {}
     \<and> (\<forall>f \<in> set (fst c) \<union> set (snd c). is_frame f \<and> lo \<le> f \<and> f < hi)"

lemma ex_cluster_ok:
  "cluster_ok ex_cluster (ex_cinv lo hi) (\<lambda>c. set (fst c)) (\<lambda>c. set (snd c)) lo hi"
  by (auto simp: cluster_ok_def ex_cluster_def ex_cinv_def split: list.splits if_splits)

text \<open>A machine with one page of 1 GB, under a table of its own.\<close>

definition ex_big_page :: "(u64 list \<times> u64 list) buddy machine" where
  "ex_big_page = \<lparr>pmem = (\<lambda>a. if a = 0x2ff8 then 0x2003 else if a = 0x2000 then 0x3003
       else if a = 0x3008 then 0x40000083 else 0),
     cr3 = 0x2000,
     alst = \<lparr>lower = ([0x5000], [0x3000]), upper = ([], []), hasUpper = False, hasLower = True,
       totalSpace = 0x400000\<rparr>,
     invlpgs = []\<rparr>"

definition ex_big_table :: "(u64 list \<times> u64 list) buddy page_table" where
  "ex_big_table = \<lparr>allocator = BuddyAllocator_ops ex_crit ex_cluster, pml4 = 0x2000\<rparr>"

lemma ex_big_tab:
  assumes "user_path p" "tab (pmem ex_big_page) 0x2000 p = Some t"
  shows "(p = [] \<and> t = 0x2000) \<or> (p = [0] \<and> t = 0x3000)"
proof (cases p)
  case Nil
  then show ?thesis using assms by simp
next
  case (Cons i q)
  have fr: "is_frame 0x2000" "is_frame 0x3000" by (simp_all add: is_frame_def pframe_def)
  have i: "i < 512" "i \<noteq> 0x1ff" using Cons assms(1) by (auto simp: user_path_def)
  note inj = entry_at_inj [where t = "0x2000" and u = "0x2000" and i = i]
    entry_at_inj [where t = "0x2000" and u = "0x3000" and i = i]
  have e: "pmem ex_big_page (entry_at 0x2000 i) = (if i = 0 then 0x3003 else 0)"
    using inj(1) [of 0] inj(1) [of "0x1ff"] inj(2) [of 1] fr i
    by (auto simp: ex_big_page_def entry_at_def)
  then have i0: "i = 0" and q: "tab (pmem ex_big_page) 0x3000 q = Some t"
    using assms(2) Cons by (auto simp: Let_def present_def huge_def pframe_def split: if_splits)
  show ?thesis
  proof (cases q)
    case Nil
    then show ?thesis using q i0 Cons by simp
  next
    case (Cons j q')
    then have j: "j < 512" using assms(1) \<open>p = i # q\<close> by (auto simp: user_path_def)
    note inj = entry_at_inj [where t = "0x3000" and u = "0x2000" and i = j]
      entry_at_inj [where t = "0x3000" and u = "0x3000" and i = j]
    have "pmem ex_big_page (entry_at 0x3000 j) = (if j = 1 then 0x40000083 else 0)"
      using inj(1) [of 0] inj(1) [of "0x1ff"] inj(2) [of 1] fr j
      by (auto simp: ex_big_page_def entry_at_def)
    then show ?thesis using q Cons by (auto simp: Let_def present_def huge_def split: if_splits)
  qed
qed

abbreviation ex_big_ainv :: "(u64 list \<times> u64 list) buddy \<Rightarrow> bool" where
  "ex_big_ainv \<equiv> buddy_inv ex_crit ex_cluster (ex_cinv 0 0x100000000)
     (ex_cinv 0x100000000 0x10000000000000) (\<lambda>c. set (fst c)) (\<lambda>c. set (snd c))"

lemma ex_big_pool: "page_pool (al_Alloc (allocator ex_big_table)) ex_big_ainv
    (\<lambda>b. - buddy_set (\<lambda>c. set (fst c)) b) (al_Free (allocator ex_big_table))
    (buddy_set (\<lambda>c. set (snd c)))"
  using buddy.page_pool_axioms by (simp add: ex_big_table_def BuddyAllocator_ops_def)

lemma ex_big_pt_inv: "pt_inv ex_big_ainv (\<lambda>b. - buddy_set (\<lambda>c. set (fst c)) b) ex_big_page"
proof -
  have r: "cr3 ex_big_page = 0x2000" by (simp add: ex_big_page_def)
  have f: "fractal (pmem ex_big_page) (cr3 ex_big_page)"
    by (simp add: fractal_def ex_big_page_def pframe_def entry_at_def present_def huge_def)
  have "sep (pmem ex_big_page) (cr3 ex_big_page)"
    unfolding sep_def r
  proof (intro conjI allI impI, goal_cases)
    case 1
    then show ?case by (simp add: is_frame_def pframe_def)
  next
    case (2 p q t)
    then show ?case using ex_big_tab [of p t] ex_big_tab [of q t] by auto
  qed
  moreover have "t \<in> - buddy_set (\<lambda>c. set (fst c)) (alst ex_big_page)"
    if "user_path p" "tab (pmem ex_big_page) (cr3 ex_big_page) p = Some t" for p t
    using ex_big_tab [OF that [unfolded r]] by (auto simp: ex_big_page_def buddy_set_def)
  moreover have "ex_big_ainv (alst ex_big_page)"
    using ex_setup(1) ex_cluster_ok
    by (simp add: buddy_inv_def ex_big_page_def ex_cinv_def is_frame_def pframe_def)
  ultimately show ?thesis using f unfolding pt_inv_def by blast
qed

lemma ex_big_path:
  "j \<le> 3 \<Longrightarrow> tab (pmem ex_big_page) (cr3 ex_big_page) (vpath 0x40000000 j) =
      (if j = 0 then Some 0x2000 else if j = 1 then Some 0x3000 else None)"
proof -
  assume "j \<le> 3"
  then consider "j = 0" | "j = 1" | "j = 2" | "j = 3" by linarith
  then show ?thesis
    by cases (simp_all add: vpath_def upt_rec ex_big_page_def pt_index_def entry_at_def present_def
      huge_def pframe_def Let_def)
qed

theorem Unset_removes_page_witness:
  "\<exists>s'. Unset ex_crit ex_big_table ex_big_page 0x40000000 = Inr (True, s')
    \<and> pt_inv ex_big_ainv (\<lambda>b. - buddy_set (\<lambda>c. set (fst c)) b) s'
    \<and> mmu_translate (pmem ex_big_page) (cr3 ex_big_page) 0x40123456 = Some 0x40123456
    \<and> mmu_translate (pmem s') (cr3 ex_big_page) 0x40123456 = None"
proof -
  have va: "user_va 0x40000000" "(0x40000000 :: u64) AND 0xfff = 0" "user_va 0x40123456"
    by (simp_all add: user_va_def pt_index_def)
  have sp: "same_page d 0x40000000 0x40123456" if "d = 1" for d
    unfolding that by (simp add: same_page_def vpath_def upt_rec pt_index_def)
  have set: "IsSet ex_big_table ex_big_page"
    by (simp add: IsSet_def GetPml4_def ex_big_table_def ex_big_page_def)
  have "reaches ex_big_page 0x40000000 j e \<Longrightarrow> (j = 0 \<and> e = 0x3003) \<or> (j = 1 \<and> e = 0x40000083)" for j e
    using ex_big_path [of j]
    by (auto simp: reaches_def pt_index_def entry_at_def split: if_splits) (simp_all add: ex_big_page_def)
  then have plain: "plain_path ex_big_page 0x40000000 3"
    unfolding plain_path_def pframe_def by fastforce
  have pages: "pages_path (buddy_set (\<lambda>c. set (snd c))) ex_big_page 0x40000000 3"
    using ex_big_path by (auto simp: pages_path_def buddy_set_def ex_big_page_def split: if_splits)
  have find: "Unset_find ex_big_page 0x40000000 3 = Inr 1"
    by code_simp
  have tr: "mmu_translate (pmem ex_big_page) (cr3 ex_big_page) 0x40123456 = Some 0x40123456"
    by code_simp
  show ?thesis
    using Unset_removes_page [OF ex_big_pool set ex_setup(1) va(1,2) ex_big_pt_inv plain pages]
      find tr sp va(3) by auto
qed

end
