(* ===== verification/BuddyProps.thy ===== *)
theory BuddyProps
  imports PageTableProps
begin

text \<open>The page property of the running kernel's physical allocator.\<close>


definition ex_buddy :: "(u64 list \<times> u64 list) buddy" where
  "ex_buddy = \<lparr>lower = ([0x5000], [0x3000]), upper = ([0x100000000, 0x100001000], []),
     hasUpper = True, hasLower = True, totalSpace = 0x400000\<rparr>"


end
