(* ===== verification/FreeFinder.thy ===== *)
theory FreeFinder
  imports PageTableRead Spans
begin

text \<open>
  The free-space finder of the kernel's half of the address space
  (\<^verbatim>\<open>src/arch/x64/vmm/global/free-finder.cpp\<close>): it remembers one free region and searches
  the page table for the largest one when that region is too small.
\<close>

section \<open>Operations\<close>

record free_finder =
  freeStart :: VirtAddr
  freeSize :: u64

definition FreeFinder_new :: free_finder where
  "FreeFinder_new = \<lparr>freeStart = 0, freeSize = 0\<rparr>"

definition umod :: "u64 \<Rightarrow> u64 \<Rightarrow> u64 res" where
  "umod a b = (if b = 0 then Inl DivideError else Inr (a mod b))"

definition CanAllocate :: "free_finder \<Rightarrow> u64 \<Rightarrow> u64 \<Rightarrow> bool res" where
  "CanAllocate f sz align =
     (if sz = 0 then Inr True
      else bindE (umod (freeStart f) align) (\<lambda>m.
        let slice = (if m \<noteq> 0 then align - m else 0)
        in Inr (if slice \<ge> freeSize f then False else freeSize f - slice \<ge> sz)))"

lemma level_size_bounds: "0 < unat (level_size d) \<and> unat (level_size d) \<le> 2 ^ 39"
proof -
  consider "d = 0" | "d = 1" | "d = 2" | "3 \<le> d" by linarith
  then show ?thesis by cases (simp_all add: level_size_def)
qed

lemma Walk_size: "Walk c t s va = Inr (r, e, sz) \<Longrightarrow> \<exists>d. sz = level_size d"
  by (auto simp: Walk_def Let_def split: if_splits)

text \<open>
  The inner loop of \<^verbatim>\<open>UpdateFreeRegion\<close>; it returns the size of the hole at \<open>nextStart\<close> and
  the address after the page that ends it.
\<close>

function hole_loop ::
    "crit \<Rightarrow> 'a page_table \<Rightarrow> 'a machine \<Rightarrow> VirtAddr \<Rightarrow> u64 \<Rightarrow> VirtAddr \<Rightarrow> (u64 \<times> VirtAddr) res" where
  "hole_loop c t s nextStart nextSize addr =
     (case Walk c t s (nextStart + nextSize) of
        Inl flt \<Rightarrow> Inl flt
      | Inr (result, entry, pgSize) \<Rightarrow>
          let addr = addr + pgSize
          in if result \<ge> 0 \<and> entry \<noteq> 0 then Inr (nextSize, addr)
             else
               let nextSize' = nextSize + pgSize
               in if nextStart + nextSize' \<ge> KernelEnd then Inr (KernelEnd - nextStart, addr)
                  else hole_loop c t s nextStart nextSize' addr)"
  by pat_completeness auto
termination
proof (relation "measure (\<lambda>(c, t, s, nextStart, nextSize, addr).
    if nextStart + nextSize < KernelEnd then 2 ^ 39 - unat (nextStart + nextSize) else 2 ^ 39 + 1)",
    goal_cases)
  case (2 c t s nextStart nextSize addr x result rest entry pgSize addr' n')
  then obtain d where d: "pgSize = level_size d" using Walk_size [of c t s "nextStart + nextSize" result entry pgSize] by auto
  have n: "nextStart + n' < KernelEnd" using 2 by (simp add: not_le)
  have "unat (nextStart + nextSize) < unat (nextStart + n')" if "nextStart + nextSize < KernelEnd"
  proof -
    have u: "unat (nextStart + nextSize) < 2 ^ 39" using that by (simp add: KernelEnd_def word_less_nat_alt)
    have "unat (nextStart + nextSize + pgSize) = unat (nextStart + nextSize) + unat pgSize"
      using u level_size_bounds [of d] unfolding d by (subst unat_add_lem [THEN iffD1]) simp_all
    then show ?thesis using 2 level_size_bounds [of d] unfolding d by (simp add: add.assoc)
  qed
  moreover have "unat (nextStart + n') < 2 ^ 39" using n by (simp add: KernelEnd_def word_less_nat_alt)
  ultimately show ?case using n by auto
qed simp

declare hole_loop.simps [simp del]

lemma hole_loop_addr: "hole_loop c t s nextStart nextSize addr = Inr (n, addr') \<Longrightarrow>
    nextStart + nextSize < KernelEnd \<Longrightarrow> unat addr \<le> unat (nextStart + nextSize) \<Longrightarrow> unat addr < unat addr'"
proof (induction c t s nextStart nextSize addr rule: hole_loop.induct)
  case (1 c t s nextStart nextSize addr)
  obtain r e sz where w: "Walk c t s (nextStart + nextSize) = Inr (r, e, sz)"
    using "1.prems"(1) by (subst (asm) hole_loop.simps) (auto split: sum.splits)
  obtain d where d: "sz = level_size d" using Walk_size [OF w] by blast
  have lt: "unat (nextStart + nextSize) < 2 ^ 39"
    using "1.prems"(2) by (simp add: KernelEnd_def word_less_nat_alt)
  have a: "unat (addr + sz) = unat addr + unat sz"
    using lt "1.prems"(3) level_size_bounds [of d] unfolding d
    by (subst unat_add_lem [THEN iffD1]) simp_all
  have n: "unat (nextStart + nextSize + sz) = unat (nextStart + nextSize) + unat sz"
    using lt level_size_bounds [of d] unfolding d
    by (subst unat_add_lem [THEN iffD1]) simp_all
  have pos: "0 < unat sz" using level_size_bounds [of d] d by simp
  show ?case
  proof (cases "(r \<ge> 0 \<and> e \<noteq> 0) \<or> nextStart + (nextSize + sz) \<ge> KernelEnd")
    case True
    then have "addr' = addr + sz"
      using "1.prems"(1) w by (subst (asm) hole_loop.simps) (auto simp: Let_def split: if_splits)
    then show ?thesis using a pos by simp
  next
    case False
    then have "hole_loop c t s nextStart (nextSize + sz) (addr + sz) = Inr (n, addr')"
      using "1.prems"(1) w by (subst (asm) hole_loop.simps) (auto simp: Let_def split: if_splits)
    from "1.IH" [OF w refl refl refl _ refl _ this] False a n pos "1.prems"(3)
    show ?thesis by (simp add: not_le add.assoc)
  qed
qed

function UpdateFreeRegion_loop ::
    "crit \<Rightarrow> 'a page_table \<Rightarrow> 'a machine \<Rightarrow> VirtAddr \<Rightarrow> free_finder \<Rightarrow> free_finder res" where
  "UpdateFreeRegion_loop c t s addr f =
     (if addr < KernelEnd then
        bindE (hole_loop c t s addr 0 addr) (\<lambda>(nextSize, addr').
          UpdateFreeRegion_loop c t s addr'
            (if nextSize > freeSize f then \<lparr>freeStart = addr, freeSize = nextSize\<rparr> else f))
      else Inr f)"
  by pat_completeness auto
termination
  by (relation "measure (\<lambda>(c, t, s, addr, f). 2 ^ 64 - unat addr)")
    (auto simp: dest!: hole_loop_addr intro!: diff_less_mono2
      intro: less_le_trans [OF _ less_imp_le [OF unat_less_2p [where 'a = 64, simplified]]])

declare UpdateFreeRegion_loop.simps [simp del]

definition UpdateFreeRegion :: "crit \<Rightarrow> 'a page_table \<Rightarrow> 'a machine \<Rightarrow> free_finder \<Rightarrow> free_finder res" where
  "UpdateFreeRegion c t s f = UpdateFreeRegion_loop c t s 0 f"

text \<open>None is a false return; the finder may have been updated in that case too.\<close>

definition FreeFinder_Alloc ::
    "crit \<Rightarrow> 'a page_table \<Rightarrow> 'a machine \<Rightarrow> free_finder \<Rightarrow> u64 \<Rightarrow> u64
     \<Rightarrow> (VirtAddr option \<times> free_finder) res" where
  "FreeFinder_Alloc c t s f sz align =
     bindE (CanAllocate f sz align) (\<lambda>ok.
     bindE (if ok then Inr (True, f)
            else bindE (UpdateFreeRegion c t s f) (\<lambda>f.
                 bindE (CanAllocate f sz align) (\<lambda>ok. Inr (ok, f)))) (\<lambda>(ok, f).
       if \<not> ok then Inr (None, f)
       else bindE (umod (freeStart f) align) (\<lambda>m.
         let f = (if m \<noteq> 0 then
                    \<lparr>freeStart = freeStart f + (align - m), freeSize = freeSize f - (align - m)\<rparr>
                  else f)
         in Inr (Some (freeStart f),
              \<lparr>freeStart = freeStart f + sz, freeSize = freeSize f - sz\<rparr>))))"

definition FreeFinder_Free :: "free_finder \<Rightarrow> VirtAddr \<Rightarrow> u64 \<Rightarrow> free_finder" where
  "FreeFinder_Free f addr sz =
     (if addr = freeStart f + freeSize f then f\<lparr>freeSize := freeSize f + sz\<rparr>
      else if addr + sz = freeStart f then
        \<lparr>freeStart = freeStart f - sz, freeSize = freeSize f + sz\<rparr>
      else f)"

definition FreeFinder_Reserve :: "free_finder \<Rightarrow> VirtAddr \<Rightarrow> u64 \<Rightarrow> free_finder" where
  "FreeFinder_Reserve f addr sz =
     (if addr > freeStart f + freeSize f \<or> addr + sz \<le> freeStart f then f
      else
        let leftSize = (if addr > freeStart f then addr - freeStart f else 0);
            rightSize = (if addr + sz < freeStart f + freeSize f
                         then freeStart f + freeSize f - (addr + sz) else 0)
        in if leftSize = 0 \<and> rightSize = 0 then f\<lparr>freeSize := 0\<rparr>
           else if leftSize > rightSize then f\<lparr>freeSize := leftSize\<rparr>
           else \<lparr>freeStart = freeStart f + (freeSize f - rightSize), freeSize = rightSize\<rparr>)"

end
