(* ===== verification/GlobalMap.thy ===== *)
theory GlobalMap
  imports FreeFinder
begin

text \<open>
  The kernel's address space (\<^verbatim>\<open>src/arch/x64/vmm/global/global-map.cpp\<close>): the global page
  table, the free-space finder and the machine they act on. The lock makes each operation
  one step. The state also keeps what \<^verbatim>\<open>Tlb::WillSetAddressSpace\<close> records for the current
  CPU, None standing for the global map.
\<close>

section \<open>State\<close>

record 'a gmap =
  pageTable :: "'a page_table"
  freeFinder :: free_finder
  gm_pdpt :: PhysAddr
  mach :: "'a machine"
  tlbInitialized :: bool
  currentMap :: "nat option"

record capabilities =
  placementReserve :: bool
  placementMap :: bool
  executableFlag :: bool
  writableFlag :: bool
  cachableFlag :: bool

definition GetPageSizeCount :: nat where
  "GetPageSizeCount = 2"

definition GetPageSize :: "nat \<Rightarrow> u64 res" where
  "GetPageSize idx =
     bindE (assertE (idx < 2) ''idx >= 0 && idx < 2'') (\<lambda>_.
       if idx = 0 then Inr 0x1000 else Inr 0x200000)"

definition GetPageSizeAlign :: "nat \<Rightarrow> u64 res" where
  "GetPageSizeAlign idx = GetPageSize idx"

definition GetCapabilities :: capabilities where
  "GetCapabilities = \<lparr>placementReserve = True, placementMap = True, executableFlag = True,
     writableFlag = True, cachableFlag = False\<rparr>"

section \<open>Operations\<close>

definition GlobalMap_Set :: "crit \<Rightarrow> 'a gmap \<Rightarrow> 'a gmap res" where
  "GlobalMap_Set c g =
     bindE (AssertCritical c) (\<lambda>_.
       let g = (if tlbInitialized g then g\<lparr>currentMap := None\<rparr> else g)
       in Inr (g\<lparr>mach := (mach g)\<lparr>cr3 := GetPml4 (pageTable g)\<rparr>\<rparr>))"

definition GlobalMap_Read ::
    "crit \<Rightarrow> 'a gmap \<Rightarrow> VirtAddr \<Rightarrow> ((PhysAddr \<times> attributes) option \<times> u64) res" where
  "GlobalMap_Read c g addr =
     bindE (AssertNoncritical c) (\<lambda>_. Read c (pageTable g) (mach g) addr)"

text \<open>\<^verbatim>\<open>SetList\<close> on the global table, without an \<^verbatim>\<open>overwrote\<close> pointer.\<close>

definition gm_SetList :: "crit \<Rightarrow> 'a gmap \<Rightarrow> VirtAddr \<Rightarrow> u64 \<Rightarrow> mm_size \<Rightarrow> 'a gmap res" where
  "gm_SetList c g addr entry sz =
     bindE (SetList c (pageTable g) (mach g) addr entry sz 3) (\<lambda>(_, s). Inr (g\<lparr>mach := s\<rparr>))"

definition gm_Invlpg :: "'a gmap \<Rightarrow> VirtAddr \<Rightarrow> mm_size \<Rightarrow> 'a gmap" where
  "gm_Invlpg g addr sz = g\<lparr>mach := DistributeInvlpg (mach g) addr (Bytes sz)\<rparr>"

definition GlobalMap_Map ::
    "crit \<Rightarrow> 'a gmap \<Rightarrow> PhysAddr \<Rightarrow> mm_size \<Rightarrow> attributes \<Rightarrow> (VirtAddr option \<times> 'a gmap) res" where
  "GlobalMap_Map c g phys sz attrs =
     bindE (AssertNoncritical c) (\<lambda>_.
     bindE (FreeFinder_Alloc c (pageTable g) (mach g) (freeFinder g) (Bytes sz) (pageCount sz)) (\<lambda>(r, f).
       let g = g\<lparr>freeFinder := f\<rparr>
       in case r of
            None \<Rightarrow> Inr (None, g)
          | Some addr \<Rightarrow>
              bindE (gm_SetList c g addr (phys OR CalcMask (pageSize sz) True attrs) sz) (\<lambda>g.
                Inr (Some addr, g))))"

definition GlobalMap_MapAt ::
    "crit \<Rightarrow> 'a gmap \<Rightarrow> VirtAddr \<Rightarrow> PhysAddr \<Rightarrow> mm_size \<Rightarrow> attributes \<Rightarrow> 'a gmap res" where
  "GlobalMap_MapAt c g addr phys sz attrs =
     bindE (AssertNoncritical c) (\<lambda>_.
     bindE (gm_SetList c g addr (phys OR CalcMask (pageSize sz) True attrs) sz) (\<lambda>g.
       Inr (gm_Invlpg g addr sz)))"

text \<open>The loop that unsets each page of a range.\<close>

fun unset_pages :: "crit \<Rightarrow> 'a page_table \<Rightarrow> nat \<Rightarrow> VirtAddr \<Rightarrow> u64 \<Rightarrow> 'a machine \<Rightarrow> 'a machine res" where
  "unset_pages c t 0 next pgSize s = Inr s"
| "unset_pages c t (Suc n) next pgSize s =
     bindE (Unset c t s next) (\<lambda>(ok, s).
       if \<not> ok then Inl (Panic ''GlobalMap::Unmap() - Unset() failed'')
       else unset_pages c t n (next + pgSize) pgSize s)"

definition gm_unset :: "crit \<Rightarrow> 'a gmap \<Rightarrow> VirtAddr \<Rightarrow> mm_size \<Rightarrow> 'a gmap res" where
  "gm_unset c g addr sz =
     bindE (unset_pages c (pageTable g) (unat (pageCount sz)) addr (pageSize sz) (mach g)) (\<lambda>s.
       Inr (g\<lparr>mach := s\<rparr>))"

definition GlobalMap_Unmap :: "crit \<Rightarrow> 'a gmap \<Rightarrow> VirtAddr \<Rightarrow> mm_size \<Rightarrow> 'a gmap res" where
  "GlobalMap_Unmap c g addr sz =
     bindE (AssertNoncritical c) (\<lambda>_.
     bindE (gm_unset c g addr sz) (\<lambda>g.
       let g = g\<lparr>freeFinder := FreeFinder_Free (freeFinder g) addr (Bytes sz)\<rparr>
       in Inr (gm_Invlpg g addr sz)))"

definition reserve_entry :: "u64 \<Rightarrow> u64" where
  "reserve_entry pgSize = pgSize OR (if pgSize = 0x1000 then 0 else 0x80)"

definition GlobalMap_UnmapAndReserve :: "crit \<Rightarrow> 'a gmap \<Rightarrow> VirtAddr \<Rightarrow> mm_size \<Rightarrow> 'a gmap res" where
  "GlobalMap_UnmapAndReserve c g addr sz =
     bindE (AssertNoncritical c) (\<lambda>_.
     bindE (gm_unset c g addr sz) (\<lambda>g.
     bindE (gm_SetList c g addr (reserve_entry (pageSize sz)) sz) (\<lambda>g.
       Inr (gm_Invlpg g addr sz))))"

definition GlobalMap_Reserve :: "crit \<Rightarrow> 'a gmap \<Rightarrow> mm_size \<Rightarrow> (VirtAddr option \<times> 'a gmap) res" where
  "GlobalMap_Reserve c g sz =
     bindE (AssertNoncritical c) (\<lambda>_.
     bindE (FreeFinder_Alloc c (pageTable g) (mach g) (freeFinder g) (Bytes sz) (pageSize sz)) (\<lambda>(r, f).
       let g = g\<lparr>freeFinder := f\<rparr>
       in case r of
            None \<Rightarrow> Inr (None, g)
          | Some addr \<Rightarrow>
              bindE (gm_SetList c g addr (reserve_entry (pageSize sz)) sz) (\<lambda>g. Inr (Some addr, g))))"

definition GlobalMap_ReserveAt :: "crit \<Rightarrow> 'a gmap \<Rightarrow> VirtAddr \<Rightarrow> mm_size \<Rightarrow> 'a gmap res" where
  "GlobalMap_ReserveAt c g addr sz =
     bindE (AssertNoncritical c) (\<lambda>_.
       let g = g\<lparr>freeFinder := FreeFinder_Reserve (freeFinder g) addr (Bytes sz)\<rparr>
       in gm_SetList c g addr (reserve_entry (pageSize sz)) sz)"

definition GlobalMap_Unreserve :: "crit \<Rightarrow> 'a gmap \<Rightarrow> VirtAddr \<Rightarrow> mm_size \<Rightarrow> 'a gmap res" where
  "GlobalMap_Unreserve c g addr sz =
     bindE (AssertNoncritical c) (\<lambda>_. GlobalMap_Unmap c g addr sz)"

definition GlobalMap_Rereserve ::
    "crit \<Rightarrow> 'a gmap \<Rightarrow> VirtAddr \<Rightarrow> mm_size \<Rightarrow> u64 \<Rightarrow> 'a gmap res" where
  "GlobalMap_Rereserve c g addr sz newPageSize =
     bindE (AssertNoncritical c) (\<lambda>_.
     bindE (umod (Bytes sz) newPageSize) (\<lambda>m.
     bindE (assertE (m = 0) ''size.Bytes() % newPageSize == 0'') (\<lambda>_.
     bindE (assertE (addr mod newPageSize = 0) ''addr % newPageSize == 0'') (\<lambda>_.
     bindE (gm_unset c g addr sz) (\<lambda>g.
       let count = Bytes sz div newPageSize
       in bindE (gm_SetList c g addr (reserve_entry newPageSize)
                   \<lparr>pageSize = newPageSize, pageCount = count\<rparr>) (\<lambda>g.
            Inr (gm_Invlpg g addr sz)))))))"

end
