(* ===== verification/FreeFinderProofs.thy ===== *)
theory FreeFinderProofs
  imports FreeFinder UnsetProofs
begin

text \<open>
  The free-space finder against the page table: the region it remembers has no
  translation anywhere, its search of the table always ends, and what it hands out is
  aligned, unmapped and no longer part of the region.
\<close>

section \<open>Where the walk of an address stops\<close>

definition stops :: "'a machine \<Rightarrow> VirtAddr \<Rightarrow> nat \<Rightarrow> u64 \<Rightarrow> bool" where
  "stops s va d e \<longleftrightarrow> reaches s va d e \<and> (huge e \<or> \<not> present e \<or> d = 3)"

text \<open>The address is the first of the block in which its walk stops.\<close>

definition block_start :: "'a machine \<Rightarrow> VirtAddr \<Rightarrow> bool" where
  "block_start s va \<longleftrightarrow> (\<forall>d e. stops s va d e \<longrightarrow> unat va mod 2 ^ page_bits d = 0)"

lemma stops_le3: "stops s va d e \<Longrightarrow> d \<le> 3"
  by (simp add: stops_def reaches_def)

lemma stops_before: "stops s va d e \<Longrightarrow> d' < d \<Longrightarrow> reaches s va d' e' \<Longrightarrow> \<not> stops s va d' e'"
  using reaches_before [of s va d e d' e'] stops_le3 [of s va d e] by (auto simp: stops_def)

lemma block_start_0: "block_start s 0"
  by (simp add: block_start_def)

lemma low_canonical: "unat va < 2 ^ 47 \<Longrightarrow> canonical va"
  by (simp add: canonical_def word_le_nat_alt)

lemma page_bits_mono: "d' \<le> d \<Longrightarrow> page_bits d \<le> page_bits d'"
  by (simp add: page_bits_def)

lemma mult_div_before:
  fixes p q v :: nat
  assumes p: "0 < p" and v: "v mod p = 0" and nq: "(v + p) mod (p * q) \<noteq> 0"
  shows "v div (p * q) = (v + p) div (p * q)"
proof -
  obtain k where k: "v = p * k" using v by auto
  have "(v + p) mod (p * q) = p * (Suc k mod q)"
    unfolding k by (metis mult_Suc_right add.commute mult_mod_right)
  with nq have m: "Suc k mod q \<noteq> 0" by auto
  then have "k div q = Suc k div q"
    by (metis div_Suc mod_Suc)
  then show ?thesis
    using p unfolding k by (metis add.commute div_mult_mult1 less_not_refl2 mult_Suc_right)
qed

text \<open>Stepping over the block in which a walk stops leads to the start of another one.\<close>

lemma block_start_next:
  assumes b: "block_start s va" and st: "stops s va d e" and lo: "unat va < 2 ^ 39"
  shows "unat (va + level_size d) = unat va + 2 ^ page_bits d \<and> block_start s (va + level_size d)"
proof
  have d: "d \<le> 3" and sz: "unat (level_size d) = 2 ^ page_bits d"
    using stops_le3 [OF st] unat_level_size by auto
  have "(2 :: nat) ^ page_bits d \<le> 2 ^ 39" using page_bits_le by (intro power_increasing) auto
  then show u: "unat (va + level_size d) = unat va + 2 ^ page_bits d"
    using lo sz by (subst unat_add_lem [THEN iffD1]) simp_all
  have al: "unat va mod 2 ^ page_bits d = 0" using b st unfolding block_start_def by blast
  show "block_start s (va + level_size d)"
    unfolding block_start_def
  proof (intro allI impI, rule ccontr)
    fix d' e' assume st': "stops s (va + level_size d) d' e'"
      and n: "unat (va + level_size d) mod 2 ^ page_bits d' \<noteq> 0"
    have d': "d' \<le> 3" by (rule stops_le3 [OF st'])
    show False
    proof (cases "d \<le> d'")
      case True
      then have "(2 :: nat) ^ page_bits d' dvd 2 ^ page_bits d"
        by (intro le_imp_power_dvd page_bits_mono)
      moreover have "2 ^ page_bits d dvd unat va + 2 ^ page_bits d"
        using al by (simp add: dvd_eq_mod_eq_0)
      ultimately have "2 ^ page_bits d' dvd unat va + 2 ^ page_bits d" by (rule dvd_trans)
      then show False using n u by (simp add: dvd_eq_mod_eq_0)
    next
      case False
      then have "(2 :: nat) ^ page_bits d' = 2 ^ page_bits d * 2 ^ (page_bits d' - page_bits d)"
        using page_bits_mono [of d' d] by (simp flip: power_add)
      then have q: "unat va div 2 ^ page_bits d' = (unat va + 2 ^ page_bits d) div 2 ^ page_bits d'"
        using mult_div_before [of "2 ^ page_bits d" "unat va" "2 ^ (page_bits d' - page_bits d)"] al n u
        by simp
      then have "drop_bit (page_bits d') va = drop_bit (page_bits d') (va + level_size d)"
        by (simp only: word_unat_eq_iff unat_drop_bit_eq) (simp add: drop_bit_eq_div u)
      moreover have "canonical va" "canonical (va + level_size d)"
        using lo u \<open>2 ^ page_bits d \<le> 2 ^ 39\<close> by (auto intro!: low_canonical)
      ultimately have "same_page d' (va + level_size d) va"
        using same_page_iff d' by simp
      then have "reaches s va d' e'"
        using st' reaches_same_page by (auto simp: stops_def)
      then have "stops s va d' e'" using st' by (simp add: stops_def)
      then show False using stops_before [OF st] False \<open>reaches s va d' e'\<close> by simp
    qed
  qed
qed

section \<open>The search\<close>

text \<open>
  What the search takes to be free: nothing is mapped, and no large page is reserved there.
  A small page that is only reserved looks free to it.
\<close>

definition vacant :: "'a machine \<Rightarrow> VirtAddr \<Rightarrow> bool" where
  "vacant s va \<longleftrightarrow> mmu_translate (pmem s) (cr3 s) va = None \<and> (\<forall>d e. leaf s va = Some (d, e) \<longrightarrow> d = 3)"

definition unmapped :: "'a machine \<Rightarrow> VirtAddr \<Rightarrow> u64 \<Rightarrow> bool" where
  "unmapped s a n \<longleftrightarrow> (\<forall>va. unat a \<le> unat va \<and> unat va < unat a + unat n \<longrightarrow> vacant s va)"

definition live :: "crit \<Rightarrow> 'a page_table \<Rightarrow> 'a machine \<Rightarrow> bool" where
  "live c t s \<longleftrightarrow> noncritical c \<and> IsSet t s \<and> fractal (pmem s) (cr3 s)"

lemma Walk_live:
  assumes "live c t s"
  obtains (hole) d e where "Walk c t s va = Inr (- 1, e, level_size d)" "stops s va d e" "\<not> present e" "\<not> huge e"
  | (leaf) d e where "Walk c t s va = Inr (int d, e, level_size d)" "stops s va d e" "e \<noteq> 0"
proof -
  have L: "noncritical c" "IsSet t s" "fractal (pmem s) (cr3 s)" using assms by (simp_all add: live_def)
  show ?thesis
  proof (cases rule: Walk_stops [OF L, of va])
    case (1 d e)
    then show ?thesis by (intro hole) (auto simp: stops_def)
  next
    case (2 d e)
    then have "e \<noteq> 0" by (auto simp: huge_def present_def)
    then show ?thesis using 2 by (intro leaf) (auto simp: stops_def)
  qed
qed

lemma hole_unmapped:
  assumes l: "live c t s" and b: "block_start s va" and lo: "unat va < 2 ^ 39"
    and st: "stops s va d e" and e: "\<not> present e" "\<not> huge e"
  shows "unmapped s va (level_size d)"
  unfolding unmapped_def
proof (intro allI impI)
  fix vb :: u64 assume vb: "unat va \<le> unat vb \<and> unat vb < unat va + unat (level_size d)"
  have d: "d \<le> 3" by (rule stops_le3 [OF st])
  have al: "unat va mod 2 ^ page_bits d = 0" using b st unfolding block_start_def by blast
  have "unat (level_size d) \<le> 2 ^ 39" using level_size_bounds by simp
  then have "canonical va" "canonical vb" using lo vb by (auto intro!: low_canonical)
  then have "same_page d va vb"
    using same_page_iff [OF _ _ d] drop_bit_range [OF al] vb unat_level_size [OF d] by simp
  then have "reaches s vb d e" using st reaches_same_page by (auto simp: stops_def)
  note R = this
  from reaches_walk [OF this] e l have "mmu_translate (pmem s) (cr3 s) vb = None"
    by (simp add: mmu_translate_def live_def fractal_def)
  moreover have "k = 3" if "leaf s vb = Some (k, x)" for k x
  proof (cases "d = 3")
    case True
    then show ?thesis using reaches_leaf [OF R] that by (simp add: entry_leaf_def split: if_splits)
  next
    case False
    obtain u where "tab (pmem s) (cr3 s) (vpath vb d) = Some u" "e = pmem s (entry_at u (pt_index (3 - d) vb))"
      using R by (auto simp: reaches_def)
    then have "leaf s vb = None"
      unfolding leaf_def using d e False by (intro leaf_of_hole) (simp_all add: ends_walk_def)
    then show ?thesis using that by simp
  qed
  ultimately show "vacant s vb" by (simp add: vacant_def)
qed

text \<open>The inner loop at address \<open>addr\<close>, the hole at \<open>nextStart\<close> having the size so far.\<close>

definition at_hole :: "'a machine \<Rightarrow> VirtAddr \<Rightarrow> u64 \<Rightarrow> VirtAddr \<Rightarrow> bool" where
  "at_hole s nextStart nextSize addr \<longleftrightarrow> addr = nextStart + nextSize \<and> addr < KernelEnd
     \<and> unat addr = unat nextStart + unat nextSize \<and> block_start s addr \<and> unmapped s nextStart nextSize"

lemma KernelEnd_less: "a < KernelEnd \<longleftrightarrow> unat a < 2 ^ 39"
  by (simp add: KernelEnd_def word_less_nat_alt)

lemma unmapped_join:
  assumes "unmapped s a n" "unmapped s (a + n) k" and u: "unat (a + n) = unat a + unat n"
    and m: "unat m \<le> unat n + unat k"
  shows "unmapped s a m"
  unfolding unmapped_def
proof (intro allI impI)
  fix va :: u64 assume va: "unat a \<le> unat va \<and> unat va < unat a + unat m"
  show "vacant s va"
  proof (cases "unat va < unat a + unat n")
    case True
    then show ?thesis using assms(1) va unfolding unmapped_def by blast
  next
    case False
    then have "unat (a + n) \<le> unat va \<and> unat va < unat (a + n) + unat k" using va u m by linarith
    then show ?thesis using assms(2) unfolding unmapped_def by blast
  qed
qed

lemma hole_loop_ok:
  "live c t s \<Longrightarrow> at_hole s nextStart nextSize addr \<Longrightarrow>
    \<exists>n addr'. hole_loop c t s nextStart nextSize addr = Inr (n, addr') \<and> block_start s addr'
      \<and> unmapped s nextStart n \<and> unat nextStart + unat n \<le> 2 ^ 39"
proof (induction c t s nextStart nextSize addr rule: hole_loop.induct)
  case (1 c t s nextStart nextSize addr)
  have A: "addr = nextStart + nextSize" "unat addr < 2 ^ 39" "block_start s addr"
    "unat addr = unat nextStart + unat nextSize" "unmapped s nextStart nextSize"
    using "1.prems"(2) unfolding at_hole_def KernelEnd_less by blast+
  show ?case
  proof (cases rule: Walk_live [OF "1.prems"(1), of addr])
    case (2 d e)
    then have "hole_loop c t s nextStart nextSize addr = Inr (nextSize, addr + level_size d)"
      by (subst hole_loop.simps) (simp add: A(1))
    then show ?thesis using A block_start_next [OF A(3) 2(2) A(2)] by simp
  next
    case (1 d e)
    let ?sz = "level_size d"
    have nx: "unat (addr + ?sz) = unat addr + unat ?sz" "block_start s (addr + ?sz)"
      using block_start_next [OF A(3) 1(2) A(2)] unat_level_size [OF stops_le3 [OF 1(2)]] by auto
    have hole: "unmapped s addr ?sz" by (rule hole_unmapped [OF "1.prems"(1) A(3,2) 1(2-4)])
    have cur: "nextStart + (nextSize + ?sz) = addr + ?sz" using A(1) by simp
    have w: "Walk c t s (nextStart + nextSize) = Inr (- 1, e, ?sz)" using 1(1) A(1) by simp
    have lo: "unat nextStart < 2 ^ 39" using A(2,4) by simp
    show ?thesis
    proof (cases "KernelEnd \<le> addr + ?sz")
      case True
      have K: "unat (KernelEnd - nextStart) = 2 ^ 39 - unat nextStart"
        using lo by (subst unat_sub) (simp_all add: KernelEnd_def word_le_nat_alt)
      have "hole_loop c t s nextStart nextSize addr = Inr (KernelEnd - nextStart, addr + ?sz)"
      proof -
        have "KernelEnd \<le> nextStart + (nextSize + ?sz)" unfolding cur by (rule True)
        then show ?thesis using w A(1) by (subst hole_loop.simps) (simp add: Let_def)
      qed
      moreover have "unmapped s nextStart (KernelEnd - nextStart)"
      proof (rule unmapped_join [OF A(5)])
        show "unmapped s (nextStart + nextSize) ?sz" using hole A(1) by simp
        show "unat (nextStart + nextSize) = unat nextStart + unat nextSize" using A(1,4) by simp
        show "unat (KernelEnd - nextStart) \<le> unat nextSize + unat ?sz"
          using True K nx(1) A(4) by (simp add: KernelEnd_def word_le_nat_alt)
      qed
      ultimately show ?thesis using nx(2) K lo by simp
    next
      case False
      have nF: "\<not> KernelEnd \<le> nextStart + (nextSize + ?sz)" unfolding cur by (rule False)
      have L: "hole_loop c t s nextStart nextSize addr = hole_loop c t s nextStart (nextSize + ?sz) (addr + ?sz)"
        using w nF by (subst hole_loop.simps) (simp add: Let_def)
      have sz': "unat (nextSize + ?sz) = unat nextSize + unat ?sz"
        using A(2,4) level_size_bounds [of d] by (subst unat_add_lem [THEN iffD1]) simp_all
      have "unmapped s nextStart (nextSize + ?sz)"
      proof (rule unmapped_join [OF A(5)])
        show "unmapped s (nextStart + nextSize) ?sz" using hole A(1) by simp
        show "unat (nextStart + nextSize) = unat nextStart + unat nextSize" using A(1,4) by simp
        show "unat (nextSize + ?sz) \<le> unat nextSize + unat ?sz" using sz' by simp
      qed
      then have H: "at_hole s nextStart (nextSize + ?sz) (addr + ?sz)"
        using False nx A(4) sz' cur by (simp add: at_hole_def not_le)
      from "1.IH" [OF w refl refl refl _ refl nF "1.prems"(1) H] show ?thesis
        unfolding L by simp
    qed
  qed
qed

section \<open>The invariant of the finder\<close>

definition finder_ok :: "'a machine \<Rightarrow> free_finder \<Rightarrow> bool" where
  "finder_ok s f \<longleftrightarrow> unat (freeStart f) + unat (freeSize f) \<le> 2 ^ 39
     \<and> unmapped s (freeStart f) (freeSize f)"

lemma UpdateFreeRegion_loop_ok:
  "live c t s \<Longrightarrow> finder_ok s f \<Longrightarrow> block_start s addr \<Longrightarrow>
    \<exists>f'. UpdateFreeRegion_loop c t s addr f = Inr f' \<and> finder_ok s f' \<and> freeSize f \<le> freeSize f'"
proof (induction c t s addr f rule: UpdateFreeRegion_loop.induct)
  case (1 c t s addr f)
  show ?case
  proof (cases "addr < KernelEnd")
    case False
    then show ?thesis using "1.prems" by (subst UpdateFreeRegion_loop.simps) simp
  next
    case True
    have "at_hole s addr 0 addr"
      using True "1.prems"(3) by (auto simp: at_hole_def unmapped_def)
    from hole_loop_ok [OF "1.prems"(1) this] obtain n a where
      h: "hole_loop c t s addr 0 addr = Inr (n, a)" "block_start s a" "unmapped s addr n"
        "unat addr + unat n \<le> 2 ^ 39" by blast
    let ?f = "if n > freeSize f then \<lparr>freeStart = addr, freeSize = n\<rparr> else f"
    have f: "finder_ok s ?f" "freeSize f \<le> freeSize ?f"
      using "1.prems"(2) h(3,4) by (auto simp: finder_ok_def)
    from "1.IH" [OF True h(1) refl "1.prems"(1) f(1) h(2)] obtain f' where
      "UpdateFreeRegion_loop c t s a ?f = Inr f'" "finder_ok s f'" "freeSize ?f \<le> freeSize f'" by blast
    with f(2) True h(1) show ?thesis by (subst UpdateFreeRegion_loop.simps) auto
  qed
qed

lemma CanAllocate_ok:
  assumes "0 < align"
  shows "CanAllocate f sz align = Inr (sz = 0 \<or>
    (let slice = (if freeStart f mod align \<noteq> 0 then align - freeStart f mod align else 0)
     in slice < freeSize f \<and> sz \<le> freeSize f - slice))"
  using assms by (auto simp: CanAllocate_def umod_def Let_def not_le)

text \<open>Handing out an aligned chunk of the region.\<close>

lemma take_chunk:
  assumes f: "finder_ok s f" and al: "0 < align" "unat align \<le> 2 ^ 60"
    and ok: "CanAllocate f sz align = Inr True" and sz: "0 < sz"
  defines "m \<equiv> freeStart f mod align"
  defines "g \<equiv> (if m \<noteq> 0 then \<lparr>freeStart = freeStart f + (align - m), freeSize = freeSize f - (align - m)\<rparr> else f)"
  shows "freeStart g mod align = 0 \<and> finder_ok s g \<and> sz \<le> freeSize g"
proof (cases "m = 0")
  case True
  then show ?thesis using ok f sz by (auto simp: g_def m_def CanAllocate_ok [OF al(1)])
next
  case False
  let ?k = "align - m"
  have k: "?k < freeSize f" "sz \<le> freeSize f - ?k"
    using ok sz False by (auto simp: CanAllocate_ok [OF al(1)] m_def Let_def)
  have F: "unat (freeStart f) + unat (freeSize f) \<le> 2 ^ 39" "unmapped s (freeStart f) (freeSize f)"
    using f by (simp_all add: finder_ok_def)
  have u: "unat (freeStart f + ?k) = unat (freeStart f) + unat ?k"
    using F(1) k(1) by (subst unat_add_lem [THEN iffD1]) (simp_all add: word_less_nat_alt)
  have z: "unat (freeSize f - ?k) = unat (freeSize f) - unat ?k"
    using k(1) by (simp add: unat_sub word_le_nat_alt word_less_nat_alt)
  have "finder_ok s \<lparr>freeStart = freeStart f + ?k, freeSize = freeSize f - ?k\<rparr>"
    using F k(1) unfolding finder_ok_def unmapped_def
    by (simp add: u z word_less_nat_alt)
  moreover have "(freeStart f + ?k) mod align = 0"
  proof -
    have "unat (freeStart f) \<le> 2 ^ 52" using F(1) by simp
    then show ?thesis
      using round_up [of "freeStart f" align] al False by (auto simp: m_def word_less_nat_alt)
  qed
  ultimately show ?thesis using False k(2) by (simp add: g_def)
qed

lemma chop_front:
  assumes g: "finder_ok s g" and sz: "sz \<le> freeSize g"
  shows "unmapped s (freeStart g) sz" "unat (freeStart g) + unat sz \<le> 2 ^ 39"
    "unat (freeStart g + sz) = unat (freeStart g) + unat sz"
    "finder_ok s \<lparr>freeStart = freeStart g + sz, freeSize = freeSize g - sz\<rparr>"
proof -
  have G: "unat (freeStart g) + unat (freeSize g) \<le> 2 ^ 39" "unmapped s (freeStart g) (freeSize g)"
    using g by (simp_all add: finder_ok_def)
  have le: "unat sz \<le> unat (freeSize g)" using sz by (simp add: word_le_nat_alt)
  show "unat (freeStart g) + unat sz \<le> 2 ^ 39" using G(1) le by simp
  show "unmapped s (freeStart g) sz" using G(2) le unfolding unmapped_def by simp
  show u: "unat (freeStart g + sz) = unat (freeStart g) + unat sz"
    using G(1) le by (subst unat_add_lem [THEN iffD1]) simp_all
  have z: "unat (freeSize g - sz) = unat (freeSize g) - unat sz"
    using sz by (simp add: unat_sub)
  show "finder_ok s \<lparr>freeStart = freeStart g + sz, freeSize = freeSize g - sz\<rparr>"
    using G le unfolding finder_ok_def unmapped_def by (simp add: u z)
qed

lemma FreeFinder_Alloc_ok:
  assumes l: "live c t s" and f: "finder_ok s f" and al: "0 < align" "unat align \<le> 2 ^ 60" and sz: "0 < sz"
  shows "\<exists>r f'. FreeFinder_Alloc c t s f sz align = Inr (r, f') \<and> finder_ok s f' \<and>
    (\<forall>a. r = Some a \<longrightarrow> a mod align = 0 \<and> unmapped s a sz \<and> unat a + unat sz \<le> 2 ^ 39
       \<and> unat (freeStart f') = unat a + unat sz)"
proof -
  obtain f1 where u: "UpdateFreeRegion c t s f = Inr f1" "finder_ok s f1"
    using UpdateFreeRegion_loop_ok [OF l f block_start_0] by (auto simp: UpdateFreeRegion_def)
  obtain b0 where b0: "CanAllocate f sz align = Inr b0" using CanAllocate_ok [OF al(1)] by blast
  obtain b1 where b1: "CanAllocate f1 sz align = Inr b1" using CanAllocate_ok [OF al(1)] by blast
  define f2 where "f2 = (if b0 then f else f1)"
  define ok where "ok = (b0 \<or> b1)"
  have f2: "finder_ok s f2" "ok \<Longrightarrow> CanAllocate f2 sz align = Inr True"
    using f u(2) b0 b1 by (auto simp: f2_def ok_def)
  let ?m = "freeStart f2 mod align"
  define g where "g = (if ?m \<noteq> 0 then \<lparr>freeStart = freeStart f2 + (align - ?m), freeSize = freeSize f2 - (align - ?m)\<rparr> else f2)"
  have A: "FreeFinder_Alloc c t s f sz align = Inr (if ok then
      (Some (freeStart g), \<lparr>freeStart = freeStart g + sz, freeSize = freeSize g - sz\<rparr>) else (None, f2))"
    using b0 b1 u(1) al(1) by (auto simp: FreeFinder_Alloc_def umod_def f2_def ok_def g_def Let_def)
  show ?thesis
  proof (cases ok)
    case False
    then show ?thesis using A f2(1) by simp
  next
    case True
    have "freeStart g mod align = 0 \<and> finder_ok s g \<and> sz \<le> freeSize g"
      using take_chunk [OF f2(1) al f2(2) [OF True] sz] unfolding g_def .
    then show ?thesis using A True chop_front [of s g sz] by simp
  qed
qed

lemma finder_sub:
  assumes "finder_ok s f" "unat (freeStart f) \<le> unat (freeStart g)"
    "unat (freeStart g) + unat (freeSize g) \<le> unat (freeStart f) + unat (freeSize f)"
  shows "finder_ok s g"
  using assms unfolding finder_ok_def unmapped_def by (meson le_trans less_le_trans)

lemma FreeFinder_Reserve_region:
  fixes addr sz :: u64
  assumes f: "unat (freeStart f) + unat (freeSize f) \<le> 2 ^ 39" and r: "unat addr + unat sz < 2 ^ 64"
  defines "g \<equiv> FreeFinder_Reserve f addr sz"
  shows "unat (freeStart f) \<le> unat (freeStart g)
    \<and> unat (freeStart g) + unat (freeSize g) \<le> unat (freeStart f) + unat (freeSize f)
    \<and> (unat (freeStart g) + unat (freeSize g) \<le> unat addr \<or> unat addr + unat sz \<le> unat (freeStart g)
       \<or> freeSize g = 0)"
proof -
  let ?s = "freeStart f" and ?z = "freeSize f"
  have e: "unat (?s + ?z) = unat ?s + unat ?z" using f by (subst unat_add_lem [THEN iffD1]) simp_all
  have ae: "unat (addr + sz) = unat addr + unat sz" using r by (subst unat_add_lem [THEN iffD1]) simp_all
  define l where "l = (if addr > ?s then addr - ?s else 0)"
  define rt where "rt = (if addr + sz < ?s + ?z then ?s + ?z - (addr + sz) else 0)"
  have ul: "unat l = unat addr - unat ?s"
    by (simp add: l_def unat_sub word_less_nat_alt word_le_nat_alt)
  have ur: "unat rt = unat ?s + unat ?z - (unat addr + unat sz)"
    by (auto simp: rt_def unat_sub word_less_nat_alt word_le_nat_alt e ae)
  show ?thesis
  proof (cases "addr > ?s + ?z \<or> addr + sz \<le> ?s")
    case True
    then show ?thesis by (auto simp: g_def FreeFinder_Reserve_def word_less_nat_alt word_le_nat_alt e ae)
  next
    case False
    then have in': "unat addr \<le> unat ?s + unat ?z" "unat ?s < unat addr + unat sz"
      by (auto simp: word_less_nat_alt word_le_nat_alt e ae)
    have g: "g = (if l = 0 \<and> rt = 0 then f\<lparr>freeSize := 0\<rparr> else if l > rt then f\<lparr>freeSize := l\<rparr>
        else \<lparr>freeStart = ?s + (?z - rt), freeSize = rt\<rparr>)"
      unfolding g_def FreeFinder_Reserve_def l_def rt_def Let_def by (rule if_not_P [OF False])
    consider "l = 0 \<and> rt = 0" | "l > rt" | "\<not> l > rt" "rt \<noteq> 0"
      using word_gt_0 [of l] by (cases "rt = 0") auto
    then show ?thesis
    proof cases
      case 1
      then show ?thesis by (simp add: g)
    next
      case 2
      then have "g = f\<lparr>freeSize := l\<rparr>" by (auto simp: g)
      moreover have "unat ?s + unat l \<le> unat addr" using 2 ul by (simp add: word_less_nat_alt)
      ultimately show ?thesis using in' by simp
    next
      case 3
      then have G: "g = \<lparr>freeStart = ?s + (?z - rt), freeSize = rt\<rparr>" by (auto simp: g)
      have r0: "0 < unat rt" using 3(2) by (simp add: unat_gt_0)
      then have "unat (?z - rt) = unat ?z - unat rt"
        using ur in' by (simp add: unat_sub word_le_nat_alt)
      moreover have "unat (?s + (?z - rt)) = unat ?s + unat (?z - rt)"
        using f calculation by (subst unat_add_lem [THEN iffD1]) simp_all
      ultimately show ?thesis using G ur r0 in' by simp
    qed
  qed
qed

lemma FreeFinder_Reserve_ok:
  assumes "finder_ok s f" "unat addr + unat sz < 2 ^ 64"
  shows "finder_ok s (FreeFinder_Reserve f addr sz)"
  using FreeFinder_Reserve_region [OF _ assms(2), of f] finder_sub [OF assms(1)] assms(1)
  by (simp add: finder_ok_def)

lemma FreeFinder_Free_ok:
  assumes f: "finder_ok s f" and u: "unmapped s addr sz" "unat addr + unat sz \<le> 2 ^ 39"
  shows "finder_ok s (FreeFinder_Free f addr sz)"
proof -
  let ?s = "freeStart f" and ?z = "freeSize f"
  have F: "unat ?s + unat ?z \<le> 2 ^ 39" "unmapped s ?s ?z" using f by (simp_all add: finder_ok_def)
  have e: "unat (?s + ?z) = unat ?s + unat ?z" using F(1) by (subst unat_add_lem [THEN iffD1]) simp_all
  have ae: "unat (addr + sz) = unat addr + unat sz" using u(2) by (subst unat_add_lem [THEN iffD1]) simp_all
  have z: "unat (?z + sz) = unat ?z + unat sz"
    using F(1) u(2) by (subst unat_add_lem [THEN iffD1]) simp_all
  consider "addr = ?s + ?z" | "addr \<noteq> ?s + ?z" "addr + sz = ?s" | "addr \<noteq> ?s + ?z" "addr + sz \<noteq> ?s" by blast
  then show ?thesis
  proof cases
    case 1
    have "unmapped s ?s (?z + sz)"
      using unmapped_join [OF F(2) _ e, of sz "?z + sz"] u(1) 1 z by simp
    then show ?thesis using 1 u(2) e z by (simp add: FreeFinder_Free_def finder_ok_def)
  next
    case 2
    have "unmapped s addr (?z + sz)"
      using unmapped_join [OF u(1) _ ae, of ?z "?z + sz"] F(2) 2 z by simp
    moreover have "?s - sz = addr" unfolding 2(2) [symmetric] by simp
    moreover have "unat ?s = unat addr + unat sz" using 2 ae by simp
    ultimately show ?thesis using 2 F(1) z by (simp add: FreeFinder_Free_def finder_ok_def)
  next
    case 3
    then show ?thesis using f by (simp add: FreeFinder_Free_def)
  qed
qed

end
