(* ===== verification/GlobalMapProofs.thy ===== *)
theory GlobalMapProofs
  imports GlobalMap FreeFinderProofs SetListProofs UnsetProofs
begin

text \<open>
  The invariant of the kernel's address space and what its operations promise: a mapping
  or a reservation takes addresses nothing was mapped at, maps them linearly (or leaves
  them unmapped), and changes no other translation.
\<close>

section \<open>Reserving a run of pages\<close>

lemma present_odd: "present e \<longleftrightarrow> odd e"
  by (simp add: present_def bit_consts bit_0)

lemma level_size_even: "d \<le> 3 \<Longrightarrow> even (level_size d)"
proof -
  assume "d \<le> 3"
  then consider "d = 0" | "d = 1" | "d = 2" | "d = 3" by linarith
  then show ?thesis by cases (simp_all add: level_size_def)
qed

definition same_outside :: "nat \<Rightarrow> VirtAddr \<Rightarrow> nat \<Rightarrow> 'a machine \<Rightarrow> 'a machine \<Rightarrow> bool" where
  "same_outside d virt n s s' \<longleftrightarrow>
     (\<forall>va. canonical va \<longrightarrow> va < UserEnd \<longrightarrow> mmu_translate (pmem s') (cr3 s') va =
       (if in_run d virt n va then None else mmu_translate (pmem s) (cr3 s) va))"

lemma same_outside_Suc:
  assumes r: "run_ok d virt (Suc n)" and e: "\<not> present e"
    and set: "page_set ainv taken s virt d e s1"
    and rest: "same_outside d (virt + level_size d) n s1 s'"
  shows "same_outside d virt (Suc n) s s'"
  unfolding same_outside_def
proof (intro allI impI)
  fix va assume c: "canonical va" and u: "va < UserEnd"
  have s1: "mmu_translate (pmem s1) (cr3 s1) va =
      (if same_page d virt va then None else mmu_translate (pmem s) (cr3 s) va)"
    using page_set_translate [OF set, of va] e user_va_iff [OF c] u
    by (simp add: entry_translation_def)
  have R: "mmu_translate (pmem s') (cr3 s') va =
      (if in_run d (virt + level_size d) n va then None else mmu_translate (pmem s1) (cr3 s1) va)"
    using rest c u by (simp add: same_outside_def)
  show "mmu_translate (pmem s') (cr3 s') va =
      (if in_run d virt (Suc n) va then None else mmu_translate (pmem s) (cr3 s) va)"
    using R s1 in_run_Suc(1) [OF r c] by simp
qed

context page_source
begin

lemma SetList_loop_reserve:
  assumes t: "al_Alloc (allocator t) = Alloc" and c: "noncritical c"
    and pm: "flags_only pm" "present pm"
  shows "run_ok d virt n \<Longrightarrow> pml4 t = cr3 s \<Longrightarrow> pt_inv invar taken s \<Longrightarrow> \<not> present e \<Longrightarrow> run_ends d e n \<Longrightarrow>
    SetList_loop c t n virt e (level_size d) pm d ow s
      \<in> {Inl (Panic ''PageTable::Set() - allocation failed''), Inl (Panic ''PageTable::SetList() - Set() failed'')}
    \<or> (\<exists>ow' s'. SetList_loop c t n virt e (level_size d) pm d ow s = Inr (ow', s') \<and>
        pt_inv invar taken s' \<and> cr3 s' = cr3 s \<and> same_outside d virt n s s'
        \<and> taken (alst s) \<subseteq> taken (alst s') \<and> leaf_run d virt n e s s')"
proof (induction n arbitrary: virt e s ow)
  case 0
  then show ?case by (auto simp: same_outside_def in_run_def)
next
  case (Suc n)
  note st = run_start [OF Suc.prems(1)] and nx = run_next [OF Suc.prems(1)]
  have leaf: "leaf_entry e d" using Suc.prems(4) by (simp add: leaf_entry_def)
  have set: "IsSet t s" using Suc.prems(2) by (simp add: IsSet_def GetPml4_def)
  show ?case
  proof (cases rule: Set_ok [OF t set c pm st(2,4,3) Suc.prems(3) leaf])
    case 1
    then show ?thesis by simp
  next
    case (2 s1)
    then show ?thesis by simp
  next
    case (3 s1 over)
    then have s1: "pml4 t = cr3 s1" "pt_inv invar taken s1" "cr3 s1 = cr3 s"
      "taken (alst s) \<subseteq> taken (alst s1)"
      using Suc.prems(2) by (simp_all add: page_set_def)
    have L: "SetList_loop c t (Suc n) virt e (level_size d) pm d ow s =
      SetList_loop c t n (virt + level_size d) (e + level_size d) (level_size d) pm d
        (if ow = Some True then ow else Some over) s1"
      using 3(1) by simp
    have E: "\<not> present (e + level_size d)"
      using Suc.prems(4) level_size_even [OF st(4)] by (simp add: present_odd)
    note ends = run_ends_Suc [OF Suc.prems(5)]
    from Suc.IH [OF nx(2) s1(1,2) E conjunct2 [OF ends]] show ?thesis
      unfolding L using same_outside_Suc [OF Suc.prems(1,4) 3(2)] s1(3,4)
        leaf_run_Suc [OF Suc.prems(1) 3(4) conjunct1 [OF ends]] by fastforce
  qed
qed

end

section \<open>The invariant\<close>

definition gm_ok :: "('a \<Rightarrow> bool) \<Rightarrow> ('a \<Rightarrow> u64 set) \<Rightarrow> crit \<Rightarrow> 'a gmap \<Rightarrow> bool" where
  "gm_ok ainv taken c g \<longleftrightarrow> noncritical c \<and> IsSet (pageTable g) (mach g)
     \<and> pt_inv ainv taken (mach g) \<and> finder_ok (mach g) (freeFinder g)"

lemma gm_okD:
  assumes "gm_ok ainv taken c g"
  shows "noncritical c" "IsSet (pageTable g) (mach g)" "pt_inv ainv taken (mach g)"
    "finder_ok (mach g) (freeFinder g)" "live c (pageTable g) (mach g)"
    "pml4 (pageTable g) = cr3 (mach g)"
  using assms by (auto simp: gm_ok_def live_def pt_inv_def IsSet_def GetPml4_def)

text \<open>The pages of a request fit below the end of the kernel's half.\<close>

definition size_ok :: "mm_size \<Rightarrow> nat \<Rightarrow> bool" where
  "size_ok sz d \<longleftrightarrow> CalcDepth (pageSize sz) = Inr d \<and> 0 < pageCount sz
     \<and> unat (pageCount sz) * unat (pageSize sz) \<le> 2 ^ 39"

lemma size_okD:
  assumes "size_ok sz d"
  shows "pageSize sz = level_size d" "1 \<le> d" "d \<le> 3" "0 < pageCount sz"
    "unat (Bytes sz) = unat (pageCount sz) * 2 ^ page_bits d" "0 < Bytes sz"
    "unat (pageSize sz) = 2 ^ page_bits d" "unat (Bytes sz) \<le> 2 ^ 39"
proof -
  have c: "CalcDepth (pageSize sz) = Inr d" and n: "0 < pageCount sz"
    and le: "unat (pageCount sz) * unat (pageSize sz) \<le> 2 ^ 39" using assms by (simp_all add: size_ok_def)
  have D: "pageSize sz = level_size d" "1 \<le> d" "d \<le> 3"
    using c by (auto simp: CalcDepth_def level_size_def split: if_splits)
  then show "pageSize sz = level_size d" "1 \<le> d" "d \<le> 3" "0 < pageCount sz" using n by auto
  show u: "unat (pageSize sz) = 2 ^ page_bits d" using D unat_level_size by simp
  show b: "unat (Bytes sz) = unat (pageCount sz) * 2 ^ page_bits d"
    using le u unfolding Bytes_def by (subst unat_mult_lem [THEN iffD1]) (simp_all add: mult.commute)
  then show "unat (Bytes sz) \<le> 2 ^ 39" using le u by simp
  have "0 < unat (Bytes sz)" using b n by (simp add: word_less_nat_alt)
  then show "0 < Bytes sz" by (simp add: word_less_nat_alt)
qed

text \<open>An aligned range below the end of the kernel's half is a run of pages.\<close>

lemma kernel_run:
  assumes "size_ok sz d" "unat addr + unat (Bytes sz) \<le> 2 ^ 39" "addr mod pageSize sz = 0"
  shows "run_ok d addr (unat (pageCount sz))"
proof -
  note S = size_okD [OF assms(1)]
  have "unat addr mod 2 ^ page_bits d = 0"
    using assms(3) S(7) by (simp add: word_unat_eq_iff unat_mod)
  then show ?thesis using assms(2) S(3,5) by (simp add: run_ok_def)
qed

lemma kernel_addr: "unat va < 2 ^ 39 \<Longrightarrow> canonical va \<and> va < UserEnd"
  by (simp add: canonical_def UserEnd_def word_le_nat_alt word_less_nat_alt)

text \<open>A region that the changed run does not meet stays unmapped.\<close>

lemma finder_ok_outside:
  assumes f: "finder_ok s f"
    and same: "\<And>va. canonical va \<Longrightarrow> va < UserEnd \<Longrightarrow> \<not> in_run d virt n va \<Longrightarrow> vacant s va \<Longrightarrow> vacant s' va"
    and dis: "\<And>va. unat (freeStart f) \<le> unat va \<Longrightarrow> unat va < unat (freeStart f) + unat (freeSize f) \<Longrightarrow>
      \<not> in_run d virt n va"
  shows "finder_ok s' f"
proof -
  have F: "unat (freeStart f) + unat (freeSize f) \<le> 2 ^ 39" "unmapped s (freeStart f) (freeSize f)"
    using f by (simp_all add: finder_ok_def)
  have "unmapped s' (freeStart f) (freeSize f)"
    unfolding unmapped_def
  proof (intro allI impI)
    fix va :: u64 assume va: "unat (freeStart f) \<le> unat va \<and> unat va < unat (freeStart f) + unat (freeSize f)"
    then have "canonical va \<and> va < UserEnd" using F(1) by (intro kernel_addr) simp
    moreover have "vacant s va" using F(2) va unfolding unmapped_def by simp
    ultimately show "vacant s' va" using same dis va by blast
  qed
  then show ?thesis using F(1) by (simp add: finder_ok_def)
qed

lemma flags_3: "flags_only 3" "present 3"
  by (simp_all add: flags_only_def present_def pframe_def huge_def)

lemma reserve_entry_absent: "size_ok sz d \<Longrightarrow> \<not> present (reserve_entry (pageSize sz))"
  by (auto simp: size_ok_def CalcDepth_def reserve_entry_def present_def split: if_splits)

lemma vacant_run:
  assumes "leaf_run d virt n e s s'" "canonical va" "va < UserEnd" "\<not> in_run d virt n va" "vacant s va"
    and "mmu_translate (pmem s') (cr3 s') va = mmu_translate (pmem s) (cr3 s) va"
  shows "vacant s' va"
  using leaf_runD(2) [OF assms(1-4)] assms(5,6) by (auto simp: vacant_def)

text \<open>Every entry of a reserved run ends a walk: the small ones are not zero, the others large.\<close>

lemma reserve_entry_ends:
  assumes "size_ok sz d"
  shows "run_ends d (reserve_entry (pageSize sz)) (unat (pageCount sz))"
  unfolding run_ends_def
proof (intro allI impI)
  fix i assume i: "i < unat (pageCount sz)"
  note S = size_okD [OF assms]
  have c: "CalcDepth (pageSize sz) = Inr d" using assms by (simp add: size_ok_def)
  have le: "Suc i * unat (pageSize sz) \<le> 2 ^ 39"
    using assms i by (meson Suc_leI le_trans mult_le_mono1 size_ok_def)
  let ?x = "of_nat (Suc i) * pageSize sz :: u64"
  have "unat (of_nat (Suc i) :: u64) = Suc i"
    using i unat_less_2p [of "pageCount sz"] by (subst unat_of_nat) simp
  then have x: "unat ?x = Suc i * unat (pageSize sz)"
    using le by (subst unat_mult_lem [THEN iffD1]) simp_all
  show "ends_walk d (reserve_entry (pageSize sz) + of_nat i * level_size d)"
  proof (cases "d = 3")
    case True
    then have s: "pageSize sz = 0x1000" using c by (auto simp: CalcDepth_def split: if_splits)
    have "unat ?x \<noteq> 0" using x s by simp
    then have "?x \<noteq> 0" by (metis unat_0)
    moreover have "reserve_entry (pageSize sz) + of_nat i * level_size d = ?x"
      using s S(1) by (simp add: reserve_entry_def algebra_simps)
    ultimately show ?thesis using True by (simp add: ends_walk_def)
  next
    case False
    have s: "pageSize sz \<noteq> 0x1000" using c False by (auto simp: CalcDepth_def split: if_splits)
    have lo: "\<not> bit y n" if "unat y mod 2 ^ 12 = 0" "n < 12" for y :: u64 and n
      using bit_aligned [of y 12 n] that by auto
    have al: "unat (pageSize sz) mod 2 ^ 12 = 0"
      using page_bits_12 [of d] S(7) by (simp add: dvd_eq_mod_eq_0)
    have z: "y AND 0x80 = 0" if "unat y mod 2 ^ 12 = 0" for y :: u64
      unfolding bit_consts using lo [OF that, of 7] by (auto simp: bit_eq_iff bit_simps)
    have "unat ?x mod 2 ^ 12 = 0" using al unfolding x by (metis mod_mult_right_eq mod_0 mult_0_right)
    have a: "?x AND 0x80 = 0" "pageSize sz AND 0x80 = 0" using z [OF \<open>unat ?x mod 2 ^ 12 = 0\<close>] z [OF al] by simp_all
    have "reserve_entry (pageSize sz) + of_nat i * level_size d = ?x + 0x80"
      using s S(1) a(2) by (simp add: reserve_entry_def disjunctive_add_eq_or [symmetric] algebra_simps)
    also have "\<dots> = ?x OR 0x80" using a(1) by (simp add: disjunctive_add_eq_or)
    finally show ?thesis using False by (simp add: ends_walk_def huge_or) (simp add: huge_def)
  qed
qed

abbreviation set_panics :: "fault set" where
  "set_panics \<equiv> {Panic ''PageTable::Set() - allocation failed'',
     Panic ''PageTable::SetList() - Set() failed''}"

text \<open>The chunk the finder gave and the region it kept.\<close>

definition chunk_ok :: "'a machine \<Rightarrow> free_finder \<Rightarrow> mm_size \<Rightarrow> VirtAddr \<Rightarrow> bool" where
  "chunk_ok s f sz addr \<longleftrightarrow> unmapped s addr (Bytes sz) \<and> unat addr + unat (Bytes sz) \<le> 2 ^ 39
     \<and> unat (freeStart f) = unat addr + unat (Bytes sz)"

lemma chunk_outside:
  assumes "size_ok sz d" "chunk_ok s f sz addr" "unat (freeStart f) \<le> unat va"
  shows "\<not> in_run d addr (unat (pageCount sz)) va"
  using assms size_okD(5) [OF assms(1)] by (simp add: chunk_ok_def in_run_def)

lemma SetList_misaligned:
  assumes g: "noncritical c" "IsSet (pageTable g) (mach g)" and sz: "size_ok sz d"
    and m: "addr mod pageSize sz \<noteq> 0"
  shows "gm_SetList c g addr e sz = Inl (AssertFail ''!(addr % size)'')"
proof -
  note S = size_okD [OF sz]
  obtain n where n: "unat (pageCount sz) = Suc n"
    using S(4) by (metis not0_implies_Suc unat_gt_0 word_gt_0 less_not_refl)
  have "Set c (pageTable g) (mach g) addr e 3 d = Inl (AssertFail ''!(addr % size)'')"
    using g m S(1,3) by (simp add: Set_def)
  then show ?thesis
    using g sz S(1) n by (simp add: gm_SetList_def SetList_def size_ok_def)
qed

context page_source
begin

lemma gm_SetList_reserve:
  assumes t: "al_Alloc (allocator (pageTable g)) = Alloc"
    and g: "noncritical c" "IsSet (pageTable g) (mach g)" "pt_inv invar taken (mach g)"
    and sz: "size_ok sz d" and r: "run_ok d addr (unat (pageCount sz))" and e: "\<not> present e" "run_ends d e (unat (pageCount sz))"
  shows "(\<exists>flt \<in> set_panics. gm_SetList c g addr e sz = Inl flt) \<or>
    (\<exists>s'. gm_SetList c g addr e sz = Inr (g\<lparr>mach := s'\<rparr>) \<and> pt_inv invar taken s'
       \<and> cr3 s' = cr3 (mach g) \<and> same_outside d addr (unat (pageCount sz)) (mach g) s'
       \<and> taken (alst (mach g)) \<subseteq> taken (alst s') \<and> leaf_run d addr (unat (pageCount sz)) e (mach g) s')"
proof -
  note S = size_okD [OF sz]
  have cr: "pml4 (pageTable g) = cr3 (mach g)" using g(2) by (simp add: IsSet_def GetPml4_def)
  have d: "CalcDepth (pageSize sz) = Inr d" using sz by (simp add: size_ok_def)
  have L: "SetList c (pageTable g) (mach g) addr e sz 3 = SetList_loop c (pageTable g)
      (unat (pageCount sz)) addr e (level_size d) 3 d None (mach g)"
    using g(1,2) d S(1) by (simp add: SetList_def)
  show ?thesis
    using SetList_loop_reserve [OF t g(1) flags_3 r cr g(3) e, of None]
    unfolding gm_SetList_def L by auto
qed

lemma GlobalMap_Reserve_ok:
  assumes t: "al_Alloc (allocator (pageTable g)) = Alloc" and g: "gm_ok invar taken c g"
    and sz: "size_ok sz d"
  shows "(\<exists>flt \<in> set_panics. GlobalMap_Reserve c g sz = Inl flt) \<or>
    (\<exists>r g'. GlobalMap_Reserve c g sz = Inr (r, g') \<and> gm_ok invar taken c g'
       \<and> pageTable g' = pageTable g \<and> taken (alst (mach g)) \<subseteq> taken (alst (mach g'))
       \<and> (\<forall>va. canonical va \<longrightarrow> va < UserEnd \<longrightarrow>
             mmu_translate (pmem (mach g')) (cr3 (mach g')) va = mmu_translate (pmem (mach g)) (cr3 (mach g)) va)
       \<and> (\<forall>addr. r = Some addr \<longrightarrow> addr mod pageSize sz = 0 \<and> chunk_ok (mach g) (freeFinder g') sz addr
             \<and> leaf_run d addr (unat (pageCount sz)) (reserve_entry (pageSize sz)) (mach g) (mach g'))
       \<and> (r = None \<longrightarrow> mach g' = mach g))"
proof -
  note G = gm_okD [OF g] and S = size_okD [OF sz]
  have ps: "0 < pageSize sz" "unat (pageSize sz) \<le> 2 ^ 60"
  proof -
    have "(2 :: nat) ^ page_bits d \<le> 2 ^ 39" using page_bits_le by (intro power_increasing) auto
    then show "0 < pageSize sz" "unat (pageSize sz) \<le> 2 ^ 60"
      using S(7) by (simp_all add: word_less_nat_alt)
  qed
  obtain r f' where F: "FreeFinder_Alloc c (pageTable g) (mach g) (freeFinder g) (Bytes sz) (pageSize sz) = Inr (r, f')"
    "finder_ok (mach g) f'"
    "\<And>a. r = Some a \<Longrightarrow> a mod pageSize sz = 0 \<and> chunk_ok (mach g) f' sz a"
    using FreeFinder_Alloc_ok [OF G(5,4) ps S(6)] by (auto simp: chunk_ok_def)
  show ?thesis
  proof (cases r)
    case None
    then have "GlobalMap_Reserve c g sz = Inr (None, g\<lparr>freeFinder := f'\<rparr>)"
      using G(1) F(1) by (simp add: GlobalMap_Reserve_def)
    moreover have "gm_ok invar taken c (g\<lparr>freeFinder := f'\<rparr>)" using g F(2) by (simp add: gm_ok_def)
    ultimately show ?thesis by simp
  next
    case (Some addr)
    note A = F(3) [OF Some]
    let ?g = "g\<lparr>freeFinder := f'\<rparr>"
    have R: "GlobalMap_Reserve c g sz = bindE (gm_SetList c ?g addr (reserve_entry (pageSize sz)) sz)
        (\<lambda>g. Inr (Some addr, g))"
      using G(1) F(1) Some by (simp add: GlobalMap_Reserve_def)
    have run: "run_ok d addr (unat (pageCount sz))"
      using A by (intro kernel_run [OF sz]) (simp_all add: chunk_ok_def)
    have t': "al_Alloc (allocator (pageTable ?g)) = Alloc" using t by simp
    have g': "IsSet (pageTable ?g) (mach ?g)" "pt_inv invar taken (mach ?g)" using G(2,3) by simp_all
    from gm_SetList_reserve [OF t' G(1) g' sz run reserve_entry_absent [OF sz] reserve_entry_ends [OF sz]]
    show ?thesis
    proof
      assume "\<exists>flt\<in>set_panics. gm_SetList c ?g addr (reserve_entry (pageSize sz)) sz = Inl flt"
      then show ?thesis unfolding R by force
    next
      assume "\<exists>s'. gm_SetList c ?g addr (reserve_entry (pageSize sz)) sz = Inr (?g\<lparr>mach := s'\<rparr>) \<and> pt_inv invar taken s'
       \<and> cr3 s' = cr3 (mach ?g) \<and> same_outside d addr (unat (pageCount sz)) (mach ?g) s'
       \<and> taken (alst (mach ?g)) \<subseteq> taken (alst s')
       \<and> leaf_run d addr (unat (pageCount sz)) (reserve_entry (pageSize sz)) (mach ?g) s'"
      then obtain s' where s': "gm_SetList c ?g addr (reserve_entry (pageSize sz)) sz = Inr (?g\<lparr>mach := s'\<rparr>)"
        "pt_inv invar taken s'" "cr3 s' = cr3 (mach g)" "same_outside d addr (unat (pageCount sz)) (mach g) s'"
        "taken (alst (mach g)) \<subseteq> taken (alst s')"
        "leaf_run d addr (unat (pageCount sz)) (reserve_entry (pageSize sz)) (mach g) s'"
        by auto
      have same: "mmu_translate (pmem s') (cr3 s') va = mmu_translate (pmem (mach g)) (cr3 (mach g)) va"
        if "canonical va" "va < UserEnd" for va
        using s'(4) that A S(5) unfolding same_outside_def chunk_ok_def unmapped_def vacant_def in_run_def by simp
      have "finder_ok s' f'"
        by (rule finder_ok_outside [OF F(2) vacant_run [OF s'(6)]]) (use same chunk_outside [OF sz] A in blast)+
      then have "gm_ok invar taken c (?g\<lparr>mach := s'\<rparr>)"
        using G(1,2) s'(2,3) by (simp add: gm_ok_def IsSet_def)
      then show ?thesis using R s'(1,5,6) same A by simp
    qed
  qed
qed

lemma gm_SetList_map:
  assumes t: "al_Alloc (allocator (pageTable g)) = Alloc"
    and g: "noncritical c" "IsSet (pageTable g) (mach g)" "pt_inv invar taken (mach g)"
    and sz: "size_ok sz d" and r: "run_ok d addr (unat (pageCount sz))"
    and p: "frames_ok d phys (unat (pageCount sz))"
    and f: "pframe f = 0" "present f" "d = 3 \<or> huge f"
  shows "(\<exists>flt \<in> set_panics. gm_SetList c g addr (phys OR f) sz = Inl flt) \<or>
    (\<exists>s'. gm_SetList c g addr (phys OR f) sz = Inr (g\<lparr>mach := s'\<rparr>) \<and> pt_inv invar taken s'
       \<and> cr3 s' = cr3 (mach g) \<and> linear_map d addr phys (unat (pageCount sz)) (mach g) s'
       \<and> taken (alst (mach g)) \<subseteq> taken (alst s')
       \<and> leaf_run d addr (unat (pageCount sz)) (phys OR f) (mach g) s')"
proof -
  note S = size_okD [OF sz]
  have cr: "pml4 (pageTable g) = cr3 (mach g)" using g(2) by (simp add: IsSet_def GetPml4_def)
  have d: "CalcDepth (pageSize sz) = Inr d" using sz by (simp add: size_ok_def)
  have L: "SetList c (pageTable g) (mach g) addr (phys OR f) sz 3 = SetList_loop c (pageTable g)
      (unat (pageCount sz)) addr (phys OR f) (level_size d) 3 d None (mach g)"
    using g(1,2) d S(1) by (simp add: SetList_def)
  show ?thesis
    using SetList_loop_total [OF t g(1) flags_3 f S(2) r p cr g(3) refl, of None]
    unfolding gm_SetList_def L by auto
qed

end

text \<open>The kernel's flags make a leaf entry of the page size.\<close>

lemma size_ok_flags:
  assumes "size_ok sz d"
  shows "d = 3 \<or> huge (CalcMask (pageSize sz) k a)"
  using assms CalcMask_flags(3) [of "pageSize sz" k a] by (auto simp: size_ok_def CalcDepth_def split: if_splits)

section \<open>Mapping\<close>

context page_source
begin

text \<open>
  \<^verbatim>\<open>Map\<close> passes the page count as the alignment, so the chunk may be misaligned; then the
  assertion in \<^verbatim>\<open>Set\<close> fails.
\<close>

lemma GlobalMap_Map_ok:
  assumes t: "al_Alloc (allocator (pageTable g)) = Alloc" and g: "gm_ok invar taken c g"
    and sz: "size_ok sz d" and p: "frames_ok d phys (unat (pageCount sz))"
  shows "(\<exists>flt \<in> insert (AssertFail ''!(addr % size)'') set_panics. GlobalMap_Map c g phys sz attrs = Inl flt) \<or>
    (\<exists>g'. GlobalMap_Map c g phys sz attrs = Inr (None, g') \<and> gm_ok invar taken c g' \<and> mach g' = mach g) \<or>
    (\<exists>addr g'. GlobalMap_Map c g phys sz attrs = Inr (Some addr, g') \<and> gm_ok invar taken c g'
       \<and> chunk_ok (mach g) (freeFinder g') sz addr
       \<and> linear_map d addr phys (unat (pageCount sz)) (mach g) (mach g')
       \<and> leaf_run d addr (unat (pageCount sz)) (phys OR CalcMask (pageSize sz) True attrs) (mach g) (mach g'))"
proof -
  note G = gm_okD [OF g] and S = size_okD [OF sz]
  have ps: "0 < pageCount sz" "unat (pageCount sz) \<le> 2 ^ 60"
  proof -
    show "0 < pageCount sz" by (rule S(4))
    have "unat (pageCount sz) \<le> unat (Bytes sz)" using S(5) by simp
    then show "unat (pageCount sz) \<le> 2 ^ 60" using S(8) by simp
  qed
  obtain r f' where F: "FreeFinder_Alloc c (pageTable g) (mach g) (freeFinder g) (Bytes sz) (pageCount sz) = Inr (r, f')"
    "finder_ok (mach g) f'" "\<And>a. r = Some a \<Longrightarrow> chunk_ok (mach g) f' sz a"
    using FreeFinder_Alloc_ok [OF G(5,4) ps S(6)] by (auto simp: chunk_ok_def)
  show ?thesis
  proof (cases r)
    case None
    then have "GlobalMap_Map c g phys sz attrs = Inr (None, g\<lparr>freeFinder := f'\<rparr>)"
      using G(1) F(1) by (simp add: GlobalMap_Map_def)
    moreover have "gm_ok invar taken c (g\<lparr>freeFinder := f'\<rparr>)" using g F(2) by (simp add: gm_ok_def)
    ultimately show ?thesis by simp
  next
    case (Some addr)
    note A = F(3) [OF Some]
    let ?g = "g\<lparr>freeFinder := f'\<rparr>"
    let ?f = "CalcMask (pageSize sz) True attrs"
    have R: "GlobalMap_Map c g phys sz attrs = bindE (gm_SetList c ?g addr (phys OR ?f) sz)
        (\<lambda>g. Inr (Some addr, g))"
      using G(1) F(1) Some by (simp add: GlobalMap_Map_def)
    have t': "al_Alloc (allocator (pageTable ?g)) = Alloc" using t by simp
    have g': "IsSet (pageTable ?g) (mach ?g)" "pt_inv invar taken (mach ?g)" using G(2,3) by simp_all
    show ?thesis
    proof (cases "addr mod pageSize sz = 0")
      case False
      then show ?thesis unfolding R using SetList_misaligned [OF G(1) g'(1) sz False] by simp
    next
      case True
      have run: "run_ok d addr (unat (pageCount sz))"
        using A by (intro kernel_run [OF sz _ True]) (simp add: chunk_ok_def)
      note M = gm_SetList_map [OF t' G(1) g' sz run p CalcMask_flags(1,2) size_ok_flags [OF sz], of True attrs]
      show ?thesis
      proof (cases "\<exists>flt\<in>set_panics. gm_SetList c ?g addr (phys OR ?f) sz = Inl flt")
        case True
        then show ?thesis unfolding R by force
      next
        case False
        then obtain s' where s': "gm_SetList c ?g addr (phys OR ?f) sz = Inr (?g\<lparr>mach := s'\<rparr>)"
          "pt_inv invar taken s'" "cr3 s' = cr3 (mach g)" "linear_map d addr phys (unat (pageCount sz)) (mach g) s'"
          "leaf_run d addr (unat (pageCount sz)) (phys OR ?f) (mach g) s'"
          using M by auto
        have "finder_ok s' f'"
        proof (rule finder_ok_outside [OF F(2) vacant_run [OF s'(5)]])
          show "mmu_translate (pmem s') (cr3 s') va = mmu_translate (pmem (mach g)) (cr3 (mach g)) va"
            if "canonical va" "va < UserEnd" "\<not> in_run d addr (unat (pageCount sz)) va" for va
            using s'(4) that unfolding linear_map_def by simp
        qed (use chunk_outside [OF sz] A in blast)+
        then have "gm_ok invar taken c (?g\<lparr>mach := s'\<rparr>)"
          using G(1,2) s'(2,3) by (simp add: gm_ok_def IsSet_def)
        then show ?thesis using R s'(1,4,5) A by simp
      qed
    qed
  qed
qed

lemma GlobalMap_MapAt_ok:
  assumes t: "al_Alloc (allocator (pageTable g)) = Alloc" and g: "gm_ok invar taken c g"
    and sz: "size_ok sz d" and p: "frames_ok d phys (unat (pageCount sz))"
    and run: "run_ok d addr (unat (pageCount sz))"
    and out: "\<And>va. unat (freeStart (freeFinder g)) \<le> unat va \<Longrightarrow>
      unat va < unat (freeStart (freeFinder g)) + unat (freeSize (freeFinder g)) \<Longrightarrow>
      \<not> in_run d addr (unat (pageCount sz)) va"
  shows "(\<exists>flt \<in> set_panics. GlobalMap_MapAt c g addr phys sz attrs = Inl flt) \<or>
    (\<exists>g'. GlobalMap_MapAt c g addr phys sz attrs = Inr g' \<and> gm_ok invar taken c g'
       \<and> linear_map d addr phys (unat (pageCount sz)) (mach g) (mach g')
       \<and> last (invlpgs (mach g')) = (addr, Bytes sz)
       \<and> pageTable g' = pageTable g \<and> freeFinder g' = freeFinder g
       \<and> taken (alst (mach g)) \<subseteq> taken (alst (mach g'))
       \<and> leaf_run d addr (unat (pageCount sz)) (phys OR CalcMask (pageSize sz) True attrs) (mach g) (mach g'))"
proof -
  note G = gm_okD [OF g]
  let ?f = "CalcMask (pageSize sz) True attrs"
  have R: "GlobalMap_MapAt c g addr phys sz attrs = bindE (gm_SetList c g addr (phys OR ?f) sz)
      (\<lambda>g. Inr (gm_Invlpg g addr sz))"
    using G(1) by (simp add: GlobalMap_MapAt_def)
  note M = gm_SetList_map [OF t G(1-3) sz run p CalcMask_flags(1,2) size_ok_flags [OF sz], of True attrs]
  show ?thesis
  proof (cases "\<exists>flt\<in>set_panics. gm_SetList c g addr (phys OR ?f) sz = Inl flt")
    case True
    then show ?thesis unfolding R by force
  next
    case False
    then obtain s' where s': "gm_SetList c g addr (phys OR ?f) sz = Inr (g\<lparr>mach := s'\<rparr>)"
      "pt_inv invar taken s'" "cr3 s' = cr3 (mach g)" "linear_map d addr phys (unat (pageCount sz)) (mach g) s'"
      "taken (alst (mach g)) \<subseteq> taken (alst s')" "leaf_run d addr (unat (pageCount sz)) (phys OR ?f) (mach g) s'"
      using M by auto
    let ?s = "DistributeInvlpg s' addr (Bytes sz)"
    have tr: "pmem ?s = pmem s'" "cr3 ?s = cr3 s'" "alst ?s = alst s'" by (simp_all add: DistributeInvlpg_def)
    have lr: "leaf_run d addr (unat (pageCount sz)) (phys OR ?f) (mach g) ?s"
    proof -
      have "leaf ?s = leaf s'" by (rule ext) (simp add: leaf_def tr)
      then show ?thesis using s'(6) unfolding leaf_run_def by simp
    qed
    have "finder_ok ?s (freeFinder g)"
    proof (rule finder_ok_outside [OF G(4) vacant_run [OF lr] out])
      show "mmu_translate (pmem ?s) (cr3 ?s) va = mmu_translate (pmem (mach g)) (cr3 (mach g)) va"
        if "canonical va" "va < UserEnd" "\<not> in_run d addr (unat (pageCount sz)) va" for va
        using s'(4) that unfolding linear_map_def tr by simp
    qed
    then have "gm_ok invar taken c (gm_Invlpg (g\<lparr>mach := s'\<rparr>) addr sz)"
      using G(1,2) s'(2,3) tr by (simp add: gm_ok_def IsSet_def gm_Invlpg_def pt_inv_def)
    moreover have "linear_map d addr phys (unat (pageCount sz)) (mach g) ?s"
      using s'(4) unfolding linear_map_def tr .
    ultimately show ?thesis using R s'(1,5) lr by (simp add: gm_Invlpg_def DistributeInvlpg_def)
  qed
qed

end

end
