(* ===== verification/GlobalMapProps.thy ===== *)
theory GlobalMapProps
  imports GlobalMapProofs PageTableProps
begin

text \<open>
  The properties of the kernel's address space: what the free-space finder hands out, and
  what Reserve, Map and MapAt of GlobalMap do to the translations of the processor. Each is
  instantiated on the empty page table of the page-table properties, with a finder that
  remembers the two megabytes from 0x400000.
\<close>

section \<open>A concrete map\<close>

definition ex_finder :: free_finder where
  "ex_finder = \<lparr>freeStart = 0x400000, freeSize = 0x200000\<rparr>"

definition ex_gmap :: "PhysAddr gmap" where
  "ex_gmap = \<lparr>pageTable = ex_table, freeFinder = ex_finder, gm_pdpt = 0x3000, mach = ex_machine,
     tlbInitialized = False, currentMap = None\<rparr>"

lemma ex_entry:
  assumes "user_va va"
  shows "pmem ex_machine (entry_at (cr3 ex_machine) (pt_index 3 va)) = 0"
    and "pmem ex_machine (entry_at (pframe (cr3 ex_machine)) (pt_index 3 va)) = 0"
proof -
  have r: "cr3 ex_machine = 0x2000" "pframe (cr3 ex_machine) = 0x2000" by (simp_all add: ex_machine_def pframe_def)
  have "entry_at 0x2000 (pt_index 3 va) \<noteq> entry_at 0x2000 0x1ff"
    using entry_at_inj [where t = "0x2000" and u = "0x2000" and i = "pt_index 3 va" and j = "0x1ff"] assms
      pt_index_less [of 3 va]
    by (auto simp: is_frame_def pframe_def user_va_def)
  then have "pmem ex_machine (entry_at 0x2000 (pt_index 3 va)) = 0"
    by (simp add: ex_machine_def entry_at_def)
  then show "pmem ex_machine (entry_at (cr3 ex_machine) (pt_index 3 va)) = 0"
    "pmem ex_machine (entry_at (pframe (cr3 ex_machine)) (pt_index 3 va)) = 0" by (simp add: r(1), simp add: r(2))
qed

lemma ex_empty: "user_va va \<Longrightarrow> mmu_translate (pmem ex_machine) (cr3 ex_machine) va = None"
  unfolding mmu_translate_def using ex_entry by (simp add: Let_def present_def numeral_3_eq_3)

lemma ex_no_leaf: "user_va va \<Longrightarrow> leaf ex_machine va = None"
  unfolding leaf_def using ex_entry by (simp add: Let_def present_def huge_def numeral_3_eq_3)

lemma ex_finder_ok: "finder_ok ex_machine ex_finder"
  unfolding finder_ok_def unmapped_def
proof (intro conjI allI impI)
  fix va :: u64 assume "unat (freeStart ex_finder) \<le> unat va \<and> unat va < unat (freeStart ex_finder) + unat (freeSize ex_finder)"
  then have "unat va < 0x600000" by (simp add: ex_finder_def)
  then have "canonical va" "va < UserEnd"
    by (simp_all add: canonical_def UserEnd_def word_le_nat_alt word_less_nat_alt)
  then have "user_va va" using user_va_iff by blast
  then show "vacant ex_machine va" using ex_empty ex_no_leaf by (simp add: vacant_def)
qed (simp add: ex_finder_def)

lemma ex_live: "live ex_crit ex_table ex_machine"
  using ex_setup ex_fractal by (simp add: live_def)

lemma ex_gm_ok: "gm_ok (\<lambda>_. regions_ok ex_analloc ex_regions) (\<lambda>a. {f. f < a}) ex_crit ex_gmap"
  using ex_setup ex_pt_inv ex_finder_ok by (simp add: gm_ok_def ex_gmap_def)

lemma ex_gm_source: "page_source (al_Alloc (allocator (pageTable ex_gmap)))
    (\<lambda>_. regions_ok ex_analloc ex_regions) (\<lambda>a. {f. f < a})"
  using ex_source by (simp add: ex_gmap_def)

section \<open>Properties\<close>

text \<open>
  C20. FreeFinder::Alloc on a live page table always returns. An address it hands out is a
  multiple of the alignment, the whole chunk lies in the kernel's half and no address of it
  is translated by the processor, the remembered region starts at the chunk's end, and the
  region that stays remembered is again free of translations.
\<close>

theorem FreeFinder_Alloc_unmapped:
  assumes "live c t s" and "finder_ok s f" and "0 < align" and "unat align \<le> 2 ^ 60" and "0 < sz"
  shows "\<exists>r f'. FreeFinder_Alloc c t s f sz align = Inr (r, f') \<and> finder_ok s f' \<and>
    (\<forall>a. r = Some a \<longrightarrow> a mod align = 0 \<and> unmapped s a sz \<and> unat a + unat sz \<le> 2 ^ 39
       \<and> unat (freeStart f') = unat a + unat sz)"
  by (rule FreeFinder_Alloc_ok [OF assms])

theorem FreeFinder_Alloc_unmapped_witness:
  "\<exists>f'. FreeFinder_Alloc ex_crit ex_table ex_machine ex_finder 0x3000 0x1000 = Inr (Some 0x400000, f')
    \<and> finder_ok ex_machine f' \<and> unmapped ex_machine 0x400000 0x3000"
proof -
  obtain r f' where f: "FreeFinder_Alloc ex_crit ex_table ex_machine ex_finder 0x3000 0x1000 = Inr (r, f')"
    "finder_ok ex_machine f'" "\<And>a. r = Some a \<Longrightarrow> unmapped ex_machine a 0x3000"
    using FreeFinder_Alloc_unmapped [OF ex_live ex_finder_ok, of "0x1000" "0x3000"] by auto
  moreover have "r = Some 0x400000"
    using f(1) by (simp add: FreeFinder_Alloc_def CanAllocate_def umod_def ex_finder_def Let_def)
  ultimately show ?thesis by auto
qed

text \<open>
  FreeFinder::Reserve cuts an arbitrary range out of the remembered region: what is
  left is a part of the old region and does not meet the range.
\<close>

lemma FreeFinder_Reserve_cuts:
  fixes addr sz :: u64
  assumes "unat (freeStart f) + unat (freeSize f) \<le> 2 ^ 39" and "unat addr + unat sz < 2 ^ 64"
  shows "unat (freeStart f) \<le> unat (freeStart (FreeFinder_Reserve f addr sz))
    \<and> unat (freeStart (FreeFinder_Reserve f addr sz)) + unat (freeSize (FreeFinder_Reserve f addr sz))
        \<le> unat (freeStart f) + unat (freeSize f)
    \<and> (unat (freeStart (FreeFinder_Reserve f addr sz)) + unat (freeSize (FreeFinder_Reserve f addr sz)) \<le> unat addr
       \<or> unat addr + unat sz \<le> unat (freeStart (FreeFinder_Reserve f addr sz))
       \<or> freeSize (FreeFinder_Reserve f addr sz) = 0)"
  by (rule FreeFinder_Reserve_region [OF assms])

lemma FreeFinder_Reserve_cuts_example:
  "FreeFinder_Reserve ex_finder 0x480000 0x1000 = \<lparr>freeStart = 0x481000, freeSize = 0x17f000\<rparr>
   \<and> unat (0x481000 :: u64) + unat (0x17f000 :: u64) \<le> unat (0x400000 :: u64) + unat (0x200000 :: u64)"
  using FreeFinder_Reserve_cuts [of ex_finder "0x480000" "0x1000"]
  by (simp add: FreeFinder_Reserve_def ex_finder_def)

text \<open>
  GlobalMap::Reserve, on a well-formed map and with any page source, returns or fails
  by one of the two panics of the page table. When it returns, no translation of any
  address below the fractal slot has changed and the map is well formed; an address it
  returns is a multiple of the page size, and the chunk held no translation.
\<close>

lemma GlobalMap_Reserve_chunk:
  assumes "page_source (al_Alloc (allocator (pageTable g))) ainv taken" and "gm_ok ainv taken c g"
    and "size_ok sz d"
  shows "(\<exists>flt \<in> set_panics. GlobalMap_Reserve c g sz = Inl flt) \<or>
    (\<exists>r g'. GlobalMap_Reserve c g sz = Inr (r, g') \<and> gm_ok ainv taken c g'
       \<and> (\<forall>va. canonical va \<longrightarrow> va < UserEnd \<longrightarrow>
             mmu_translate (pmem (mach g')) (cr3 (mach g')) va = mmu_translate (pmem (mach g)) (cr3 (mach g)) va)
       \<and> (\<forall>addr. r = Some addr \<longrightarrow> addr mod pageSize sz = 0 \<and> chunk_ok (mach g) (freeFinder g') sz addr))"
  using page_source.GlobalMap_Reserve_ok [OF assms(1) refl assms(2,3)] by blast

definition ex_size :: "u64 \<Rightarrow> u64 \<Rightarrow> mm_size" where
  "ex_size sz n = \<lparr>pageSize = sz, pageCount = n\<rparr>"

lemma ex_size_sel [simp]: "pageSize (ex_size sz n) = sz" "pageCount (ex_size sz n) = n"
  "Bytes (ex_size sz n) = sz * n"
  by (simp_all add: ex_size_def Bytes_def)

lemma ex_size_ok: "0 < unat n \<Longrightarrow> unat n \<le> 2 ^ 18 \<Longrightarrow> size_ok (ex_size 0x1000 n) 3 \<and> size_ok (ex_size 0x200000 n) 2"
  by (simp add: size_ok_def CalcDepth_def word_less_nat_alt)

lemma GlobalMap_Reserve_chunk_example:
  "\<exists>g'. GlobalMap_Reserve ex_crit ex_gmap (ex_size 0x1000 2) = Inr (Some 0x400000, g')
    \<and> mmu_translate (pmem (mach g')) (cr3 (mach g')) 0x400123 = None"
proof -
  have "case GlobalMap_Reserve ex_crit ex_gmap (ex_size 0x1000 2) of
      Inr (Some a, _) \<Rightarrow> a = 0x400000 | _ \<Rightarrow> False"
    by code_simp
  then obtain g' where g': "GlobalMap_Reserve ex_crit ex_gmap (ex_size 0x1000 2) = Inr (Some 0x400000, g')"
    by (auto split: sum.splits prod.splits option.splits)
  have va: "canonical 0x400123" "(0x400123 :: u64) < UserEnd"
    by (simp_all add: canonical_def UserEnd_def)
  have "size_ok (ex_size 0x1000 2) 3" using ex_size_ok [of 2] by simp
  from GlobalMap_Reserve_chunk [OF ex_gm_source ex_gm_ok this] g' va
  have "mmu_translate (pmem (mach g')) (cr3 (mach g')) 0x400123
      = mmu_translate (pmem ex_machine) (cr3 ex_machine) 0x400123"
    by (auto simp: ex_gmap_def)
  also have "\<dots> = None" using ex_empty va user_va_iff by blast
  finally show ?thesis using g' by simp
qed

text \<open>
  C7. GlobalMap::Map puts the physical range into a chunk that held no translation: every
  address of the chunk translates to phys plus its offset, every other address below the
  fractal slot translates as before and the map is well formed. It fails only by the
  panics of the page table, or by the alignment assertion of Set.
\<close>

theorem GlobalMap_Map_linear:
  assumes "page_source (al_Alloc (allocator (pageTable g))) ainv taken" and "gm_ok ainv taken c g"
    and "size_ok sz d" and "frames_ok d phys (unat (pageCount sz))"
  shows "(\<exists>flt \<in> insert (AssertFail ''!(addr % size)'') set_panics. GlobalMap_Map c g phys sz attrs = Inl flt) \<or>
    (\<exists>g'. GlobalMap_Map c g phys sz attrs = Inr (None, g') \<and> gm_ok ainv taken c g' \<and> mach g' = mach g) \<or>
    (\<exists>addr g'. GlobalMap_Map c g phys sz attrs = Inr (Some addr, g') \<and> gm_ok ainv taken c g'
       \<and> chunk_ok (mach g) (freeFinder g') sz addr
       \<and> linear_map d addr phys (unat (pageCount sz)) (mach g) (mach g'))"
  using page_source.GlobalMap_Map_ok [OF assms(1) refl assms(2-4), of attrs] by metis

theorem GlobalMap_Map_linear_witness:
  "\<exists>g'. GlobalMap_Map ex_crit ex_gmap 0x1000000 (ex_size 0x200000 1) ex_attrs = Inr (Some 0x400000, g')
    \<and> mmu_translate (pmem (mach g')) (cr3 (mach g')) 0x412345 = Some 0x1012345"
proof -
  let ?r = "GlobalMap_Map ex_crit ex_gmap 0x1000000 (ex_size 0x200000 1) ex_attrs"
  have "case ?r of Inr (Some a, _) \<Rightarrow> a = 0x400000 | _ \<Rightarrow> False"
    by code_simp
  then obtain g' where g': "?r = Inr (Some 0x400000, g')"
    by (auto split: sum.splits prod.splits option.splits)
  have sz: "size_ok (ex_size 0x200000 1) 2" using ex_size_ok [of 1] by simp
  have fr: "frames_ok 2 0x1000000 (unat (pageCount (ex_size 0x200000 1)))"
    by (simp add: frames_ok_def page_bits_def)
  from GlobalMap_Map_linear [OF ex_gm_source ex_gm_ok sz fr, of ex_attrs] g'
  have "linear_map 2 0x400000 0x1000000 1 (mach ex_gmap) (mach g')" by auto
  then show ?thesis
    using g' by (auto simp: linear_map_def canonical_def UserEnd_def in_run_def page_bits_def)
qed

text \<open>
  C18. GlobalMap::MapAt maps the physical range at the address it is given, replacing what
  was mapped there, leaves every other translation below the fractal slot, and asks all
  CPUs to invalidate exactly the range. The remembered free region must not meet the range.
\<close>

theorem GlobalMap_MapAt_linear:
  assumes "page_source (al_Alloc (allocator (pageTable g))) ainv taken" and "gm_ok ainv taken c g"
    and "size_ok sz d" and "frames_ok d phys (unat (pageCount sz))" and "run_ok d addr (unat (pageCount sz))"
    and "\<And>va. unat (freeStart (freeFinder g)) \<le> unat va \<Longrightarrow>
      unat va < unat (freeStart (freeFinder g)) + unat (freeSize (freeFinder g)) \<Longrightarrow>
      \<not> in_run d addr (unat (pageCount sz)) va"
  shows "(\<exists>flt \<in> set_panics. GlobalMap_MapAt c g addr phys sz attrs = Inl flt) \<or>
    (\<exists>g'. GlobalMap_MapAt c g addr phys sz attrs = Inr g' \<and> gm_ok ainv taken c g'
       \<and> linear_map d addr phys (unat (pageCount sz)) (mach g) (mach g')
       \<and> last (invlpgs (mach g')) = (addr, Bytes sz))"
  using page_source.GlobalMap_MapAt_ok [OF assms(1) refl assms(2-6)] by blast

theorem GlobalMap_MapAt_linear_witness:
  "\<exists>g'. GlobalMap_MapAt ex_crit ex_gmap 0x200000 0x1000000 (ex_size 0x200000 1) ex_attrs = Inr g'
    \<and> mmu_translate (pmem (mach g')) (cr3 (mach g')) 0x212345 = Some 0x1012345
    \<and> last (invlpgs (mach g')) = (0x200000, 0x200000)"
proof -
  let ?r = "GlobalMap_MapAt ex_crit ex_gmap 0x200000 0x1000000 (ex_size 0x200000 1) ex_attrs"
  have "case ?r of Inr _ \<Rightarrow> True | _ \<Rightarrow> False"
    by code_simp
  then obtain g' where g': "?r = Inr g'" by (auto split: sum.splits)
  have sz: "size_ok (ex_size 0x200000 1) 2" using ex_size_ok [of 1] by simp
  have fr: "frames_ok 2 0x1000000 (unat (pageCount (ex_size 0x200000 1)))"
    "run_ok 2 0x200000 (unat (pageCount (ex_size 0x200000 1)))"
    by (simp_all add: frames_ok_def run_ok_def page_bits_def)
  have out: "\<not> in_run 2 0x200000 (unat (pageCount (ex_size 0x200000 1))) va"
    if "unat (freeStart (freeFinder ex_gmap)) \<le> unat va" for va
    using that by (simp add: ex_gmap_def ex_finder_def in_run_def page_bits_def)
  from GlobalMap_MapAt_linear [OF ex_gm_source ex_gm_ok sz fr out, of ex_attrs] g'
  have "linear_map 2 0x200000 0x1000000 1 (mach ex_gmap) (mach g')"
    "last (invlpgs (mach g')) = (0x200000, 0x200000)" by auto
  then show ?thesis
    using g' by (auto simp: linear_map_def canonical_def UserEnd_def in_run_def page_bits_def)
qed

text \<open>
  C36. GlobalMap::Map passes the number of pages as the alignment of the chunk: when the
  remembered region can hold the request but its start, rounded up to a multiple of the
  number of pages, is not a multiple of the page size, the call ends in the alignment
  assertion of Set instead of mapping anything.
\<close>

theorem GlobalMap_Map_misaligned:
  assumes "noncritical c" and "IsSet (pageTable g) (mach g)" and "size_ok sz d"
    and "CanAllocate (freeFinder g) (Bytes sz) (pageCount sz) = Inr True"
    and "freeStart (freeFinder g) mod pageCount sz \<noteq> 0"
    and "(freeStart (freeFinder g) + (pageCount sz - freeStart (freeFinder g) mod pageCount sz)) mod pageSize sz \<noteq> 0"
  shows "GlobalMap_Map c g phys sz attrs = Inl (AssertFail ''!(addr % size)'')"
proof -
  let ?f = "freeFinder g" and ?n = "pageCount sz"
  let ?a = "freeStart ?f + (?n - freeStart ?f mod ?n)"
  have n: "?n \<noteq> 0" using size_okD(4) [OF assms(3)] by auto
  have F: "FreeFinder_Alloc c (pageTable g) (mach g) ?f (Bytes sz) ?n = Inr (Some ?a,
      \<lparr>freeStart = ?a + Bytes sz, freeSize = freeSize ?f - (?n - freeStart ?f mod ?n) - Bytes sz\<rparr>)"
    using assms(4,5) n by (simp add: FreeFinder_Alloc_def umod_def Let_def)
  have M: "gm_SetList c (g\<lparr>freeFinder := f'\<rparr>) ?a e sz = Inl (AssertFail ''!(addr % size)'')" for f' e
    using SetList_misaligned [of c "g\<lparr>freeFinder := f'\<rparr>"] assms(1,2,3,6) by simp
  show ?thesis
    using assms(1) unfolding GlobalMap_Map_def F by (simp add: M Let_def)
qed

theorem GlobalMap_Map_misaligned_witness:
  "GlobalMap_Map ex_crit ex_gmap 0x1000000 (ex_size 0x1000 3) ex_attrs = Inl (AssertFail ''!(addr % size)'')"
proof -
  have g: "IsSet (pageTable ex_gmap) (mach ex_gmap)" "freeFinder ex_gmap = ex_finder"
    using ex_setup by (simp_all add: ex_gmap_def)
  have "size_ok (ex_size 0x1000 3) 3" using ex_size_ok [of 3] by simp
  from GlobalMap_Map_misaligned [OF ex_setup(1) g(1) this] g(2) show ?thesis
    by (simp add: CanAllocate_def umod_def ex_finder_def Let_def)
qed

end
