(* ===== verification/FreeList.thy ===== *)
theory FreeList
  imports Critical
begin

text \<open>
  The free list of a process's address space (\<^verbatim>\<open>src/arch/x64/vmm/user/free-list.cpp\<close>): a
  sorted linked list of free regions. The nodes come from the current domain's allocator,
  whose \<^verbatim>\<open>New\<close> and \<^verbatim>\<open>Delete\<close> are a parameter over its state; a node keeps its address.
  A region may end at \<open>2 ^ 64\<close>, where the code's end address is 0.
\<close>

section \<open>Regions\<close>

record region =
  rg_node :: u64
  rg_start :: VirtAddr
  rg_size :: u64

text \<open>The constructor's assertion: the region is not empty and does not wrap.\<close>

definition Region_new :: "u64 \<Rightarrow> VirtAddr \<Rightarrow> u64 \<Rightarrow> region res" where
  "Region_new node start sz =
     bindE (assertE (start + sz > start \<or> start + sz = 0) ''start + size > start || start + size == 0'') (\<lambda>_.
       Inr \<lparr>rg_node = node, rg_start = start, rg_size = sz\<rparr>)"

definition End :: "region \<Rightarrow> VirtAddr" where
  "End r = rg_start r + rg_size r"

definition CanHold :: "region \<Rightarrow> u64 \<Rightarrow> u64 \<Rightarrow> bool" where
  "CanHold r pgSize pgCount =
     (let chopSize = (if rg_start r mod pgSize \<noteq> 0 then pgSize - rg_start r mod pgSize else 0)
      in chopSize + pgSize * pgCount \<le> rg_size r)"

definition IsAdjacentBehind :: "region \<Rightarrow> VirtAddr \<Rightarrow> bool" where
  "IsAdjacentBehind r addr =
     (if rg_start r + rg_size r = 0 then False else rg_start r + rg_size r = addr)"

definition Contains :: "region \<Rightarrow> region \<Rightarrow> bool" where
  "Contains r q =
     (if rg_start r > rg_start q then False
      else if rg_start r + rg_size r \<noteq> 0 then
        (if rg_start q + rg_size q = 0 then False
         else rg_start q + rg_size q \<le> rg_start r + rg_size r)
      else True)"

definition IsBehind :: "region \<Rightarrow> VirtAddr \<Rightarrow> bool" where
  "IsBehind r addr =
     (if rg_start r + rg_size r = 0 then False else rg_start r + rg_size r \<le> addr)"

definition IsFilledBy :: "region \<Rightarrow> region \<Rightarrow> bool" where
  "IsFilledBy r q \<longleftrightarrow> rg_start q = rg_start r \<and> rg_size q = rg_size r"

definition IsEndedBy :: "region \<Rightarrow> region \<Rightarrow> bool" where
  "IsEndedBy r q \<longleftrightarrow> rg_start q + rg_size q = rg_start r + rg_size r"

definition IsStartedBy :: "region \<Rightarrow> region \<Rightarrow> bool" where
  "IsStartedBy r q \<longleftrightarrow> rg_start q = rg_start r"

section \<open>The list\<close>

text \<open>\<^verbatim>\<open>New\<close> gives None for the null pointer it returns when the allocation fails.\<close>

record 'h node_heap =
  nh_New :: "'h \<Rightarrow> (u64 option \<times> 'h) res"
  nh_Delete :: "'h \<Rightarrow> u64 \<Rightarrow> 'h res"

definition AllocRegion ::
    "crit \<Rightarrow> 'h node_heap \<Rightarrow> 'h \<Rightarrow> VirtAddr \<Rightarrow> u64 \<Rightarrow> (region option \<times> 'h) res" where
  "AllocRegion c nh h start sz =
     bindE (AssertNoncritical c) (\<lambda>_.
     bindE (nh_New nh h) (\<lambda>(node, h).
       case node of
         None \<Rightarrow> Inr (None, h)
       | Some a \<Rightarrow> bindE (Region_new a start sz) (\<lambda>r. Inr (Some r, h))))"

definition FreeRegion :: "crit \<Rightarrow> 'h node_heap \<Rightarrow> 'h \<Rightarrow> region \<Rightarrow> 'h res" where
  "FreeRegion c nh h r = bindE (AssertNoncritical c) (\<lambda>_. nh_Delete nh h (rg_node r))"

text \<open>
  What replaces \<^verbatim>\<open>reg\<close> in the list when \<^verbatim>\<open>requested\<close> is allocated in it; the code relinks
  its neighbours, which the list here does by itself.
\<close>

definition AllocInRegion ::
    "crit \<Rightarrow> 'h node_heap \<Rightarrow> 'h \<Rightarrow> region \<Rightarrow> region \<Rightarrow> (region list \<times> 'h) res" where
  "AllocInRegion c nh h reg requested =
     (if IsFilledBy reg requested then
        bindE (FreeRegion c nh h reg) (\<lambda>h. Inr ([], h))
      else if IsStartedBy reg requested then
        Inr ([reg\<lparr>rg_start := rg_start reg + rg_size requested\<rparr>], h)
      else if IsEndedBy reg requested then
        Inr ([reg\<lparr>rg_size := rg_size reg - rg_size requested\<rparr>], h)
      else
        (let suffixSize = End reg - End requested
         in bindE (AllocRegion c nh h (End requested) suffixSize) (\<lambda>(suffix, h).
              let reg = reg\<lparr>rg_size := rg_start requested - rg_start reg\<rparr>
              in case suffix of
                   None \<Rightarrow> Inl NullDeref
                 | Some suffix \<Rightarrow> Inr ([reg, suffix], h))))"

text \<open>The loop shared by \<^verbatim>\<open>AllocAt\<close> and \<^verbatim>\<open>Alloc\<close>: the first region that passes a test.\<close>

fun alloc_first ::
    "crit \<Rightarrow> 'h node_heap \<Rightarrow> (region \<Rightarrow> bool) \<Rightarrow> (region \<Rightarrow> region res) \<Rightarrow> 'h \<Rightarrow> region list
     \<Rightarrow> (region option \<times> region list \<times> 'h) res" where
  "alloc_first c nh test request h [] = Inr (None, [], h)"
| "alloc_first c nh test request h (reg # rest) =
     (if \<not> test reg then
        bindE (alloc_first c nh test request h rest) (\<lambda>(r, l, h). Inr (r, reg # l, h))
      else
        bindE (request reg) (\<lambda>requested.
        bindE (AllocInRegion c nh h reg requested) (\<lambda>(l, h).
          Inr (Some requested, l @ rest, h))))"

text \<open>The state is the list and the allocator of its nodes.\<close>

definition FreeList_AllocAt ::
    "crit \<Rightarrow> 'h node_heap \<Rightarrow> region list \<Rightarrow> 'h \<Rightarrow> VirtAddr \<Rightarrow> u64 \<Rightarrow> u64
     \<Rightarrow> (bool \<times> region list \<times> 'h) res" where
  "FreeList_AllocAt c nh l h start pgSize pgCount =
     (if pgSize = 0 then Inl DivideError
      else if start mod pgSize \<noteq> 0 then Inr (False, l, h)
      else
        bindE (Region_new 0 start (pgSize * pgCount)) (\<lambda>requested.
        bindE (alloc_first c nh (\<lambda>reg. Contains reg requested) (\<lambda>_. Inr requested) h l) (\<lambda>(r, l, h).
          Inr (r \<noteq> None, l, h))))"

definition FreeList_Alloc ::
    "crit \<Rightarrow> 'h node_heap \<Rightarrow> region list \<Rightarrow> 'h \<Rightarrow> u64 \<Rightarrow> u64 \<Rightarrow> (VirtAddr \<times> region list \<times> 'h) res" where
  "FreeList_Alloc c nh l h pgSize pgCount =
     bindE (AssertNoncritical c) (\<lambda>_.
       if pgSize = 0 \<and> l \<noteq> [] then Inl DivideError
       else
         bindE (alloc_first c nh (\<lambda>reg. CanHold reg pgSize pgCount)
           (\<lambda>reg. let chopSize = (if rg_start reg mod pgSize \<noteq> 0
                                  then pgSize - rg_start reg mod pgSize else 0)
                  in Region_new 0 (rg_start reg + chopSize) (pgSize * pgCount)) h l) (\<lambda>(r, l, h).
           Inr (case r of None \<Rightarrow> 0 | Some q \<Rightarrow> rg_start q, l, h)))"

text \<open>The inner loop of \<^verbatim>\<open>Free\<close>, which joins the regions that now touch.\<close>

fun absorb ::
    "crit \<Rightarrow> 'h node_heap \<Rightarrow> 'h \<Rightarrow> region \<Rightarrow> region list \<Rightarrow> (region list \<times> 'h) res" where
  "absorb c nh h reg [] = Inr ([reg], h)"
| "absorb c nh h reg (theNext # rest) =
     (if \<not> IsAdjacentBehind reg (rg_start theNext) then Inr (reg # theNext # rest, h)
      else
        bindE (FreeRegion c nh h theNext) (\<lambda>h.
          absorb c nh h (reg\<lparr>rg_size := rg_size reg + rg_size theNext\<rparr>) rest))"

definition insert_new ::
    "crit \<Rightarrow> 'h node_heap \<Rightarrow> 'h \<Rightarrow> region \<Rightarrow> region list \<Rightarrow> (region list \<times> 'h) res" where
  "insert_new c nh h releasing rest =
     bindE (AllocRegion c nh h (rg_start releasing) (rg_size releasing)) (\<lambda>(newRegion, h).
       case newRegion of None \<Rightarrow> Inl NullDeref | Some r \<Rightarrow> Inr (r # rest, h))"

fun Free_loop ::
    "crit \<Rightarrow> 'h node_heap \<Rightarrow> 'h \<Rightarrow> region \<Rightarrow> region list \<Rightarrow> (region list \<times> 'h) res" where
  "Free_loop c nh h releasing [] = insert_new c nh h releasing []"
| "Free_loop c nh h releasing (reg # rest) =
     (if IsAdjacentBehind reg (rg_start releasing) then
        absorb c nh h (reg\<lparr>rg_size := rg_size reg + rg_size releasing\<rparr>) rest
      else if IsAdjacentBehind releasing (rg_start reg) then
        Inr (reg\<lparr>rg_start := rg_start reg - rg_size releasing,
                 rg_size := rg_size reg + rg_size releasing\<rparr> # rest, h)
      else if IsBehind releasing (rg_start reg) then insert_new c nh h releasing (reg # rest)
      else bindE (Free_loop c nh h releasing rest) (\<lambda>(l, h). Inr (reg # l, h)))"

definition FreeList_Free ::
    "crit \<Rightarrow> 'h node_heap \<Rightarrow> region list \<Rightarrow> 'h \<Rightarrow> VirtAddr \<Rightarrow> u64 \<Rightarrow> u64 \<Rightarrow> (region list \<times> 'h) res" where
  "FreeList_Free c nh l h addr pgSize pgCount =
     bindE (AssertNoncritical c) (\<lambda>_.
     bindE (Region_new 0 addr (pgSize * pgCount)) (\<lambda>releasing.
       Free_loop c nh h releasing l))"

text \<open>The destructor gives every node back.\<close>

fun FreeList_destroy :: "crit \<Rightarrow> 'h node_heap \<Rightarrow> region list \<Rightarrow> 'h \<Rightarrow> 'h res" where
  "FreeList_destroy c nh [] h = Inr h"
| "FreeList_destroy c nh (reg # rest) h =
     bindE (FreeRegion c nh h reg) (\<lambda>h. FreeList_destroy c nh rest h)"

end
