(* ===== verification/FreeListProofs.thy ===== *)
theory FreeListProofs
  imports FreeList
begin

text \<open>
  The free list as a set of addresses: freeing a range adds exactly that range and keeps
  the regions sorted and apart; taking a range removes exactly it, except when the range
  starts a region, where the code moves the region up without making it smaller.
\<close>

section \<open>Regions as intervals\<close>

definition rend :: "region \<Rightarrow> nat" where
  "rend r = unat (rg_start r) + unat (rg_size r)"

definition wf_region :: "region \<Rightarrow> bool" where
  "wf_region r \<longleftrightarrow> 0 < unat (rg_size r) \<and> rend r \<le> 2 ^ 64"

definition addrs :: "region \<Rightarrow> VirtAddr set" where
  "addrs r = {a. unat (rg_start r) \<le> unat a \<and> unat a < rend r}"

definition free_set :: "region list \<Rightarrow> VirtAddr set" where
  "free_set l = (\<Union>r \<in> set l. addrs r)"

definition wf_list :: "region list \<Rightarrow> bool" where
  "wf_list l \<longleftrightarrow> (\<forall>r \<in> set l. wf_region r) \<and> sorted_wrt (\<lambda>a b. rend a \<le> unat (rg_start b)) l"

definition above :: "nat \<Rightarrow> region list \<Rightarrow> bool" where
  "above b l \<longleftrightarrow> (\<forall>r \<in> set l. b \<le> unat (rg_start r))"

lemma end_word:
  assumes "wf_region r"
  shows "rg_start r + rg_size r = 0 \<longleftrightarrow> rend r = 2 ^ 64"
    and "rend r < 2 ^ 64 \<Longrightarrow> unat (rg_start r + rg_size r) = rend r"
proof -
  have u: "unat (rg_start r + rg_size r) = rend r mod 2 ^ 64"
    by (simp add: rend_def unat_word_ariths)
  have b: "0 < rend r" "rend r \<le> 2 ^ 64" using assms by (auto simp: wf_region_def rend_def)
  show "rend r < 2 ^ 64 \<Longrightarrow> unat (rg_start r + rg_size r) = rend r" using u by simp
  have "rg_start r + rg_size r = 0 \<longleftrightarrow> rend r mod 2 ^ 64 = 0"
    using u by (simp add: unat_eq_0 [symmetric])
  then show "rg_start r + rg_size r = 0 \<longleftrightarrow> rend r = 2 ^ 64"
    using b by (auto simp: mod_eq_0_iff_dvd dest: dvd_imp_le)
qed

lemma region_tests:
  assumes "wf_region r"
  shows "IsAdjacentBehind r a \<longleftrightarrow> rend r = unat a"
    and "IsBehind r a \<longleftrightarrow> rend r \<le> unat a"
    and "wf_region q \<Longrightarrow> Contains r q \<longleftrightarrow> unat (rg_start r) \<le> unat (rg_start q) \<and> rend q \<le> rend r"
    and "wf_region q \<Longrightarrow> IsEndedBy r q \<longleftrightarrow> rend q = rend r"
proof -
  have a: "unat a < 2 ^ 64" using unat_less_2p [of a] by simp
  have le: "rend r \<le> 2 ^ 64" using assms by (simp add: wf_region_def)
  note E = end_word [OF assms]
  show "IsAdjacentBehind r a \<longleftrightarrow> rend r = unat a" "IsBehind r a \<longleftrightarrow> rend r \<le> unat a"
    using a le E by (auto simp: IsAdjacentBehind_def IsBehind_def word_unat_eq_iff word_le_nat_alt)
  assume q: "wf_region q"
  note Q = end_word [OF q]
  have lq: "rend q \<le> 2 ^ 64" using q by (simp add: wf_region_def)
  show "Contains r q \<longleftrightarrow> unat (rg_start r) \<le> unat (rg_start q) \<and> rend q \<le> rend r"
    using le lq E Q by (auto simp: Contains_def word_le_nat_alt word_less_nat_alt)
  show "IsEndedBy r q \<longleftrightarrow> rend q = rend r"
  proof -
    have u: "unat (rg_start r + rg_size r) = (if rend r = 2 ^ 64 then 0 else rend r)"
      "unat (rg_start q + rg_size q) = (if rend q = 2 ^ 64 then 0 else rend q)"
      using le lq E Q by (auto simp: order_le_less)
    have "0 < rend r" "0 < rend q" using assms q by (auto simp: wf_region_def rend_def)
    then show ?thesis unfolding IsEndedBy_def word_unat_eq_iff u by auto
  qed
qed

section \<open>Freeing\<close>

lemma wf_list_Cons: "wf_list (r # l) \<longleftrightarrow> wf_region r \<and> above (rend r) l \<and> wf_list l"
  by (auto simp: wf_list_def above_def)

lemma above_Cons [simp]: "above b (r # l) \<longleftrightarrow> b \<le> unat (rg_start r) \<and> above b l"
  by (auto simp: above_def)

lemma above_Nil [simp]: "above b []"
  by (simp add: above_def)

lemma above_mono: "above b l \<Longrightarrow> a \<le> b \<Longrightarrow> above a l"
  by (auto simp: above_def)

lemma wf_list_Nil [simp]: "wf_list []"
  by (simp add: wf_list_def)

lemma free_set_simps [simp]: "free_set [] = {}" "free_set (r # l) = addrs r \<union> free_set l"
  "free_set (l @ m) = free_set l \<union> free_set m"
  by (auto simp: free_set_def)

lemma rend_ge: "wf_region r \<Longrightarrow> unat (rg_start r) < rend r"
  by (simp add: wf_region_def rend_def)

text \<open>
  Joining two regions that touch. The whole address space has no size in 64 bits, so
  regions start above 0.
\<close>

lemma join_size:
  assumes "wf_region a" "wf_region b" "rend a = unat (rg_start b)" "0 < unat (rg_start a)"
  shows "unat (rg_size a + rg_size b) = unat (rg_size a) + unat (rg_size b)"
    "unat (rg_start a) + (unat (rg_size a) + unat (rg_size b)) = rend b"
proof -
  show e: "unat (rg_start a) + (unat (rg_size a) + unat (rg_size b)) = rend b"
    using assms(3) by (simp add: rend_def)
  have "rend b \<le> 2 ^ 64" using assms(2) by (simp add: wf_region_def)
  then have "unat (rg_size a) + unat (rg_size b) < 2 ^ 64" using e assms(4) by linarith
  then show "unat (rg_size a + rg_size b) = unat (rg_size a) + unat (rg_size b)"
    by (subst unat_add_lem [THEN iffD1]) simp_all
qed

lemma join_right:
  assumes "wf_region a" "wf_region b" "rend a = unat (rg_start b)" "0 < unat (rg_start a)"
  defines "j \<equiv> a\<lparr>rg_size := rg_size a + rg_size b\<rparr>"
  shows "wf_region j" "rend j = rend b" "addrs j = addrs a \<union> addrs b" "rg_start j = rg_start a"
proof -
  note J = join_size [OF assms(1-4)]
  show st: "rg_start j = rg_start a" by (simp add: j_def)
  have sz: "unat (rg_size j) = unat (rg_size a) + unat (rg_size b)" using J(1) by (simp add: j_def)
  show r: "rend j = rend b" unfolding rend_def [of j] st sz using J(2) by simp
  show "wf_region j" using assms(1,2) sz r by (simp add: wf_region_def)
  have "rend a \<le> rend b" using rend_ge [OF assms(2)] assms(3) by simp
  then show "addrs j = addrs a \<union> addrs b"
    using assms(3) rend_ge [OF assms(1)] unfolding addrs_def r st by auto
qed

lemma join_left:
  assumes "wf_region a" "wf_region b" "rend a = unat (rg_start b)" "0 < unat (rg_start a)"
  defines "j \<equiv> b\<lparr>rg_start := rg_start b - rg_size a, rg_size := rg_size b + rg_size a\<rparr>"
  shows "wf_region j" "rend j = rend b" "addrs j = addrs a \<union> addrs b" "rg_start j = rg_start a"
proof -
  note J = join_size [OF assms(1-4)]
  have "unat (rg_start a + rg_size a) = rend a"
    using assms(3) unat_less_2p [of "rg_start b"] by (intro end_word(2) [OF assms(1)]) simp
  then have "rg_start b = rg_start a + rg_size a" using assms(3) by (simp add: word_unat_eq_iff)
  then show st: "rg_start j = rg_start a" by (simp add: j_def)
  have sz: "unat (rg_size j) = unat (rg_size a) + unat (rg_size b)"
    using J(1) by (simp add: j_def add.commute)
  show r: "rend j = rend b" unfolding rend_def [of j] st sz using J(2) by simp
  show "wf_region j" using assms(1,2) sz r by (simp add: wf_region_def)
  have "rend a \<le> rend b" using rend_ge [OF assms(2)] assms(3) by simp
  then show "addrs j = addrs a \<union> addrs b"
    using assms(3) rend_ge [OF assms(1)] unfolding addrs_def r st by auto
qed

definition heap_total :: "'h node_heap \<Rightarrow> bool" where
  "heap_total nh \<longleftrightarrow> (\<forall>h. \<exists>r h'. nh_New nh h = Inr (r, h')) \<and> (\<forall>h a. \<exists>h'. nh_Delete nh h a = Inr h')"

text \<open>The outcome of a free: the list now covers the given set, or no node could be had.\<close>

definition freed :: "nat \<Rightarrow> VirtAddr set \<Rightarrow> (region list \<times> 'h) res \<Rightarrow> bool" where
  "freed b A x \<longleftrightarrow> x = Inl NullDeref \<or>
     (\<exists>l' h'. x = Inr (l', h') \<and> wf_list l' \<and> free_set l' = A \<and> above b l')"

lemma FreeRegion_total: "noncritical c \<Longrightarrow> heap_total nh \<Longrightarrow> \<exists>h'. FreeRegion c nh h r = Inr h'"
  by (simp add: FreeRegion_def heap_total_def)

lemma absorb_ok:
  "noncritical c \<Longrightarrow> heap_total nh \<Longrightarrow> wf_region reg \<Longrightarrow> 0 < unat (rg_start reg) \<Longrightarrow>
    wf_list rest \<Longrightarrow> above (rend reg) rest \<Longrightarrow>
    freed (unat (rg_start reg)) (addrs reg \<union> free_set rest) (absorb c nh h reg rest)"
proof (induction c nh h reg rest rule: absorb.induct)
  case (1 c nh h reg)
  then show ?case by (simp add: freed_def wf_list_Cons)
next
  case (2 c nh h reg nx rest)
  note reg = "2.prems"(3,4)
  have nx: "wf_region nx" "above (rend nx) rest" "wf_list rest" "rend reg \<le> unat (rg_start nx)"
    "above (rend reg) rest"
    using "2.prems"(5,6) by (simp_all add: wf_list_Cons)
  show ?case
  proof (cases "IsAdjacentBehind reg (rg_start nx)")
    case False
    have "unat (rg_start reg) \<le> rend reg" using rend_ge [OF reg(1)] by simp
    then have "unat (rg_start reg) \<le> unat (rg_start nx)" "above (unat (rg_start reg)) rest"
      using nx(4) above_mono [OF nx(5)] by auto
    then show ?thesis using False reg nx by (simp add: freed_def wf_list_Cons)
  next
    case True
    then have e: "rend reg = unat (rg_start nx)" by (simp add: region_tests(1) [OF reg(1)])
    let ?j = "reg\<lparr>rg_size := rg_size reg + rg_size nx\<rparr>"
    note J = join_right [OF reg(1) nx(1) e reg(2)]
    obtain h' where h': "FreeRegion c nh h nx = Inr h'"
      using FreeRegion_total [OF "2.prems"(1,2)] by blast
    have A: "absorb c nh h reg (nx # rest) = absorb c nh h' ?j rest" using True h' by simp
    have "above (rend ?j) rest" unfolding J(2) by (rule nx(2))
    moreover have "0 < unat (rg_start ?j)" using reg(2) by simp
    ultimately have "freed (unat (rg_start ?j)) (addrs ?j \<union> free_set rest) (absorb c nh h' ?j rest)"
      using "2.IH" True h' "2.prems"(1,2) J(1) nx(3) by simp
    then show ?thesis unfolding A J(3,4) by (simp add: Un_assoc)
  qed
qed

lemma insert_new_ok:
  assumes c: "noncritical c" "heap_total nh" and r: "wf_region r" and l: "wf_list rest" "above (rend r) rest"
  shows "freed (unat (rg_start r)) (addrs r \<union> free_set rest) (insert_new c nh h r rest)"
proof -
  obtain n h' where n: "nh_New nh h = Inr (n, h')"
    using c(2) unfolding heap_total_def by blast
  show ?thesis
  proof (cases n)
    case None
    then show ?thesis using n c(1) by (simp add: insert_new_def AllocRegion_def freed_def)
  next
    case (Some a)
    let ?q = "\<lparr>rg_node = a, rg_start = rg_start r, rg_size = rg_size r\<rparr>"
    have same: "rend ?q = rend r" "addrs ?q = addrs r" "wf_region ?q"
      using r by (simp_all add: rend_def addrs_def wf_region_def)
    have "rg_start r + rg_size r > rg_start r \<or> rg_start r + rg_size r = 0"
      using end_word [OF r] r rend_ge [OF r] by (auto simp: wf_region_def word_less_nat_alt order_le_less)
    then have I: "insert_new c nh h r rest = Inr (?q # rest, h')"
      using n c(1) Some by (simp add: insert_new_def AllocRegion_def Region_new_def)
    have "above (unat (rg_start r)) rest"
      using above_mono [OF l(2)] rend_ge [OF r] by simp
    then show ?thesis unfolding I freed_def using same l by (simp add: wf_list_Cons)
  qed
qed

lemma disjoint_regions:
  assumes "wf_region a" "wf_region b" "addrs a \<inter> addrs b = {}"
  shows "rend a \<le> unat (rg_start b) \<or> rend b \<le> unat (rg_start a)"
proof (rule ccontr)
  assume n: "\<not> ?thesis"
  then have "rg_start a \<in> addrs a \<inter> addrs b \<or> rg_start b \<in> addrs a \<inter> addrs b"
    using rend_ge [OF assms(1)] rend_ge [OF assms(2)] by (auto simp: addrs_def)
  then show False using assms(3) by blast
qed

text \<open>The regions above a lower bound that avoid a region starting there lie above its end.\<close>

lemma above_disjoint:
  assumes rel: "wf_region rel" and l: "wf_list l" "above (unat (rg_start rel)) l"
    and d: "addrs rel \<inter> free_set l = {}"
  shows "above (rend rel) l"
  unfolding above_def
proof
  fix r assume r: "r \<in> set l"
  have w: "wf_region r" using l(1) r by (simp add: wf_list_def)
  have "addrs rel \<inter> addrs r = {}" using d r by (auto simp: free_set_def)
  moreover have "unat (rg_start rel) \<le> unat (rg_start r)" using l(2) r by (simp add: above_def)
  ultimately show "rend rel \<le> unat (rg_start r)"
    using disjoint_regions [OF rel w] rend_ge [OF w] by linarith
qed

lemma freed_cong: "freed b A x \<Longrightarrow> A = B \<Longrightarrow> a \<le> b \<Longrightarrow> freed a B x"
  by (auto simp: freed_def intro: above_mono)

lemma Free_loop_ok:
  "noncritical c \<Longrightarrow> heap_total nh \<Longrightarrow> wf_region rel \<Longrightarrow> 0 < unat (rg_start rel) \<Longrightarrow>
    wf_list l \<Longrightarrow> above 1 l \<Longrightarrow> addrs rel \<inter> free_set l = {} \<Longrightarrow>
    b \<le> unat (rg_start rel) \<Longrightarrow> above b l \<Longrightarrow>
    freed b (addrs rel \<union> free_set l) (Free_loop c nh h rel l)"
proof (induction c nh h rel l arbitrary: b rule: Free_loop.induct)
  case (1 c nh h rel)
  then show ?case using insert_new_ok [of c nh rel "[]" h] by (auto intro: freed_cong)
next
  case (2 c nh h rel reg rest)
  note pre = "2.prems"(1-4)
  have W: "wf_region reg" "above (rend reg) rest" "wf_list rest"
    using "2.prems"(5) by (simp_all add: wf_list_Cons)
  have st: "0 < unat (rg_start reg)" "above 1 rest" using "2.prems"(6) by simp_all
  have D: "addrs rel \<inter> addrs reg = {}" "addrs rel \<inter> free_set rest = {}" using "2.prems"(7) by auto
  have B: "b \<le> unat (rg_start rel)" "b \<le> unat (rg_start reg)" "above b rest" using "2.prems"(8,9) by simp_all
  note T = region_tests(1,2) [OF W(1)] region_tests(1,2) [OF pre(3)]
  show ?case
  proof (cases "IsAdjacentBehind reg (rg_start rel)")
    case True
    then have e: "rend reg = unat (rg_start rel)" by (simp add: T)
    note J = join_right [OF W(1) pre(3) e st(1)]
    have "above (rend rel) rest" using above_disjoint [OF pre(3) W(3) _ D(2)] W(2) e by simp
    then have "above (rend (reg\<lparr>rg_size := rg_size reg + rg_size rel\<rparr>)) rest" unfolding J(2) .
    with absorb_ok [OF pre(1,2) J(1) _ W(3) this, of h] st(1) J(3,4) True B(2) show ?thesis
      by (auto intro: freed_cong)
  next
    case f1: False
    show ?thesis
    proof (cases "IsAdjacentBehind rel (rg_start reg)")
      case True
      then have e: "rend rel = unat (rg_start reg)" by (simp add: T)
      note J = join_left [OF pre(3) W(1) e pre(4)]
      show ?thesis using f1 True J W B by (simp add: freed_def wf_list_Cons Un_assoc)
    next
      case f2: False
      show ?thesis
      proof (cases "IsBehind rel (rg_start reg)")
        case True
        then have "rend rel \<le> unat (rg_start reg)" by (simp add: T)
        moreover have "rend rel \<le> rend reg" using calculation rend_ge [OF W(1)] by simp
        ultimately have "above (rend rel) (reg # rest)" using above_mono [OF W(2)] by simp
        with insert_new_ok [OF pre(1-3) "2.prems"(5) this, of h] f1 f2 True B(1) show ?thesis
          by (auto intro: freed_cong)
      next
        case f3: False
        then have e: "rend reg \<le> unat (rg_start rel)"
          using disjoint_regions [OF pre(3) W(1) D(1)] by (simp add: T)
        have b: "above (rend reg) k \<Longrightarrow> above b k" for k
          using above_mono [of "rend reg" k b] B(2) rend_ge [OF W(1)] by simp
        from "2.IH" [OF f1 f2 f3 pre W(3) st(2) D(2) e W(2)]
        show ?thesis using f1 f2 f3 W(1) B(2) b by (auto simp: freed_def wf_list_Cons)
      qed
    qed
  qed
qed

section \<open>Allocating in a region\<close>

text \<open>What is left of a region when a part of it is taken.\<close>

definition taken_from ::
    "region \<Rightarrow> region \<Rightarrow> (region list \<times> 'h) res \<Rightarrow> bool" where
  "taken_from reg q x \<longleftrightarrow> x = Inl NullDeref \<or>
     (\<exists>l h'. x = Inr (l, h') \<and> wf_list l \<and> free_set l = addrs reg - addrs q
        \<and> above (unat (rg_start reg)) l \<and> (\<forall>r \<in> set l. rend r \<le> rend reg))"

lemma part_word:
  assumes "wf_region reg" "wf_region q" "unat (rg_start reg) \<le> unat (rg_start q)" "rend q < rend reg"
  shows "unat (End reg - End q) = rend reg - rend q" "unat (End q) = rend q"
proof -
  have le: "rend reg \<le> 2 ^ 64" using assms(1) by (simp add: wf_region_def)
  show q: "unat (End q) = rend q" unfolding End_def using assms(4) le by (intro end_word(2) [OF assms(2)]) simp
  show "unat (End reg - End q) = rend reg - rend q"
  proof (cases "rend reg = 2 ^ 64")
    case True
    then have "End reg = 0" unfolding End_def using end_word(1) [OF assms(1)] by simp
    moreover have "0 < rend q" using rend_ge [OF assms(2)] by simp
    moreover have "End q \<noteq> 0" using q calculation(2) by auto
    ultimately show ?thesis using True q by (simp add: unat_uminus)
  next
    case False
    then have "unat (End reg) = rend reg" unfolding End_def using le by (intro end_word(2) [OF assms(1)]) simp
    then show ?thesis using q assms(4) by (simp add: unat_sub word_le_nat_alt)
  qed
qed

lemma AllocInRegion_ok:
  assumes c: "noncritical c" "heap_total nh" and w: "wf_region reg" "wf_region q"
    and sub: "unat (rg_start reg) \<le> unat (rg_start q)" "rend q \<le> rend reg"
    and st: "rg_start q = rg_start reg \<longrightarrow> rg_size q = rg_size reg"
  shows "taken_from reg q (AllocInRegion c nh h reg q)"
proof -
  consider (filled) "IsFilledBy reg q" | (ended) "\<not> IsFilledBy reg q" "\<not> IsStartedBy reg q" "IsEndedBy reg q"
    | (middle) "\<not> IsFilledBy reg q" "\<not> IsStartedBy reg q" "\<not> IsEndedBy reg q"
    using st by (auto simp: IsFilledBy_def IsStartedBy_def)
  then show ?thesis
  proof cases
    case filled
    then have "addrs reg = addrs q" by (simp add: IsFilledBy_def addrs_def rend_def)
    then show ?thesis using filled FreeRegion_total [OF c, of h reg]
      by (auto simp: AllocInRegion_def taken_from_def)
  next
    case ended
    let ?r = "reg\<lparr>rg_size := rg_size reg - rg_size q\<rparr>"
    have lt: "unat (rg_start reg) < unat (rg_start q)" "rend q = rend reg"
      using sub(1) ended region_tests(4) [OF w] by (auto simp: IsStartedBy_def word_unat_eq_iff)
    then have "unat (rg_size q) < unat (rg_size reg)" by (simp add: rend_def)
    then have z: "unat (rg_size ?r) = unat (rg_size reg) - unat (rg_size q)"
      by (simp add: unat_sub word_le_nat_alt)
    have e: "rend ?r = unat (rg_start q)" "wf_region ?r"
      using z lt w by (simp_all add: rend_def wf_region_def)
    have "addrs ?r = addrs reg - addrs q"
      using e(1) lt rend_ge [OF w(2)] by (auto simp: addrs_def)
    moreover have "unat (rg_start q) \<le> rend reg" using lt(2) rend_ge [OF w(2)] by simp
    ultimately show ?thesis using ended e
      by (simp add: AllocInRegion_def taken_from_def wf_list_Cons)
  next
    case middle
    have lt: "unat (rg_start reg) < unat (rg_start q)" "rend q < rend reg"
      using sub middle region_tests(4) [OF w] by (auto simp: IsStartedBy_def word_unat_eq_iff)
    note P = part_word [OF w sub(1) lt(2)]
    obtain n h' where n: "nh_New nh h = Inr (n, h')"
      using c(2) unfolding heap_total_def by blast
    let ?r = "reg\<lparr>rg_size := rg_start q - rg_start reg\<rparr>"
    show ?thesis
    proof (cases n)
      case None
      then show ?thesis using middle n c(1)
        by (simp add: AllocInRegion_def AllocRegion_def taken_from_def)
    next
      case (Some a)
      let ?s = "\<lparr>rg_node = a, rg_start = End q, rg_size = End reg - End q\<rparr>"
      have s: "rend ?s = rend reg" "wf_region ?s"
        using P lt(2) w(1) by (simp_all add: rend_def wf_region_def)
      have "End q + (End reg - End q) > End q \<or> End q + (End reg - End q) = 0"
        using end_word [OF s(2)] rend_ge [OF s(2)] s(2)
        by (auto simp: wf_region_def word_less_nat_alt order_le_less)
      then have A: "AllocInRegion c nh h reg q = Inr ([?r, ?s], h')"
        using middle n c(1) Some by (simp add: AllocInRegion_def AllocRegion_def Region_new_def)
      have "unat (rg_size ?r) = unat (rg_start q) - unat (rg_start reg)"
        using sub(1) by (simp add: unat_sub word_le_nat_alt)
      then have r: "rend ?r = unat (rg_start q)" "wf_region ?r"
        using lt rend_ge [OF w(2)] w(1) by (simp_all add: rend_def wf_region_def)
      have "addrs ?r \<union> addrs ?s = addrs reg - addrs q"
        using r(1) s(1) P(2) lt rend_ge [OF w(2)] unfolding addrs_def by auto
      then show ?thesis unfolding taken_from_def A
        using r s P(2) lt rend_ge [OF w(2)] sub(1) by (simp add: wf_list_Cons)
    qed
  qed
qed

text \<open>
  The branch for a request at the start of a larger region: the region moves up and keeps
  its size, so it then covers addresses past its old end.
\<close>

lemma AllocInRegion_started:
  assumes "rg_start q = rg_start reg" "rg_size q \<noteq> rg_size reg"
  shows "AllocInRegion c nh h reg q = Inr ([reg\<lparr>rg_start := rg_start reg + rg_size q\<rparr>], h)"
  using assms by (simp add: AllocInRegion_def IsFilledBy_def IsStartedBy_def)

end
