(* ===== verification/FreeListProps.thy ===== *)
theory FreeListProps
  imports FreeListProofs
begin

text \<open>
  The properties of the free list of a process: what a release adds to the set of free
  addresses and what an allocation takes from it. They are instantiated with a node
  allocator that counts.
\<close>

section \<open>The first region that passes a test\<close>

lemma addrs_subset:
  assumes "wf_region q" "wf_region r"
  shows "addrs q \<subseteq> addrs r \<longleftrightarrow> unat (rg_start r) \<le> unat (rg_start q) \<and> rend q \<le> rend r"
proof
  assume s: "addrs q \<subseteq> addrs r"
  have "rg_start q \<in> addrs q" using rend_ge [OF assms(1)] by (simp add: addrs_def)
  then have lo: "unat (rg_start r) \<le> unat (rg_start q)" using s by (auto simp: addrs_def)
  have q: "unat (rg_start q) < rend q" "rend q \<le> 2 ^ 64"
    using rend_ge [OF assms(1)] assms(1) by (simp_all add: wf_region_def)
  obtain m where m: "rend q = Suc m" using q(1) by (cases "rend q") simp_all
  define a :: u64 where "a = of_nat m"
  have "unat a = rend q - 1"
    unfolding a_def m using q(2) m by (simp add: unat_of_nat take_bit_nat_eq_self)
  then have "a \<in> addrs q" using q by (simp add: addrs_def)
  then have "unat a < rend r" using s by (auto simp: addrs_def)
  then show "unat (rg_start r) \<le> unat (rg_start q) \<and> rend q \<le> rend r"
    using lo \<open>unat a = _\<close> q by linarith
qed (auto simp: addrs_def)

text \<open>A list of regions below a bound in front of one above it.\<close>

lemma wf_list_append:
  "wf_list l \<Longrightarrow> wf_list m \<Longrightarrow> (\<And>r. r \<in> set l \<Longrightarrow> rend r \<le> b) \<Longrightarrow> above b m \<Longrightarrow> wf_list (l @ m)"
  by (induction l) (fastforce simp: wf_list_Cons above_def)+

lemma alloc_first_ok:
  "noncritical c \<Longrightarrow> heap_total nh \<Longrightarrow> wf_region q \<Longrightarrow> wf_list l \<Longrightarrow> above b l \<Longrightarrow>
    (\<forall>r \<in> set l. rg_start r = rg_start q \<longrightarrow> rg_size r = rg_size q) \<Longrightarrow>
    alloc_first c nh (\<lambda>reg. Contains reg q) (\<lambda>_. Inr q) h l = Inl NullDeref \<or>
    (alloc_first c nh (\<lambda>reg. Contains reg q) (\<lambda>_. Inr q) h l = Inr (None, l, h)
      \<and> \<not> (\<exists>r \<in> set l. addrs q \<subseteq> addrs r)) \<or>
    (\<exists>l' h'. alloc_first c nh (\<lambda>reg. Contains reg q) (\<lambda>_. Inr q) h l = Inr (Some q, l', h')
      \<and> wf_list l' \<and> free_set l' = free_set l - addrs q \<and> addrs q \<subseteq> free_set l \<and> above b l')"
proof (induction l arbitrary: b h)
  case (Cons r l)
  have W: "wf_region r" "above (rend r) l" "wf_list l" using Cons.prems(4) by (simp_all add: wf_list_Cons)
  have C: "Contains r q \<longleftrightarrow> unat (rg_start r) \<le> unat (rg_start q) \<and> rend q \<le> rend r"
    using region_tests(3) [OF W(1) Cons.prems(3)] .
  note sub = addrs_subset [OF Cons.prems(3) W(1)]
  have dis: "addrs r \<inter> free_set l = {}"
    using W(2) by (auto simp: addrs_def free_set_def above_def)
  show ?case
  proof (cases "Contains r q")
    case True
    then have in_r: "addrs q \<subseteq> addrs r" using C sub by simp
    have T: "taken_from r q (AllocInRegion c nh h r q)"
      using True C Cons.prems(6) by (intro AllocInRegion_ok [OF Cons.prems(1,2) W(1) Cons.prems(3)]) auto
    show ?thesis
    proof (cases "AllocInRegion c nh h r q")
      case (Inl flt)
      then show ?thesis using T True by (auto simp: taken_from_def)
    next
      case (Inr x)
      then obtain m h' where m: "AllocInRegion c nh h r q = Inr (m, h')" "wf_list m"
        "free_set m = addrs r - addrs q" "above (unat (rg_start r)) m" "\<And>x. x \<in> set m \<Longrightarrow> rend x \<le> rend r"
        using T by (auto simp: taken_from_def)
      have "wf_list (m @ l)" using wf_list_append [OF m(2) W(3) m(5) W(2)] .
      moreover have "free_set (m @ l) = free_set (r # l) - addrs q" using m(3) dis in_r by auto
      moreover have "above b (m @ l)"
        using m(4) Cons.prems(5) by (auto simp: above_def)
      ultimately show ?thesis using True m(1) in_r by auto
    qed
  next
    case False
    then have nq: "\<not> addrs q \<subseteq> addrs r" using C sub by simp
    have b: "above (rend r) l" using W(2) .
    have st: "\<forall>r \<in> set l. rg_start r = rg_start q \<longrightarrow> rg_size r = rg_size q" using Cons.prems(6) by simp
    from Cons.IH [OF Cons.prems(1-3) W(3) b st, of h] show ?thesis
    proof (elim disjE exE conjE, goal_cases)
      case (3 l' h')
      have "addrs q \<inter> addrs r = {}" using 3(4) dis by auto
      then have "free_set (r # l') = free_set (r # l) - addrs q" using 3(3) by auto
      moreover have "above b l'"
        using 3(5) rend_ge [OF W(1)] Cons.prems(5) by (auto intro: above_mono)
      ultimately show ?case using 3 False W(1) Cons.prems(5) by (auto simp: wf_list_Cons)
    qed (use False nq in auto)
  qed
qed simp

section \<open>Properties\<close>

text \<open>The addresses after Free.\<close>

lemma FreeList_Free_adds:
  assumes "noncritical c" and "heap_total nh" and "wf_list l" and "above 1 l"
    and "0 < unat addr" and "0 < unat (pgSize * pgCount)"
    and "unat addr + unat (pgSize * pgCount) \<le> 2 ^ 64"
    and "\<And>a. unat addr \<le> unat a \<Longrightarrow> unat a < unat addr + unat (pgSize * pgCount) \<Longrightarrow> a \<notin> free_set l"
  shows "FreeList_Free c nh l h addr pgSize pgCount = Inl NullDeref \<or>
    (\<exists>l' h'. FreeList_Free c nh l h addr pgSize pgCount = Inr (l', h') \<and> wf_list l' \<and> above 1 l'
      \<and> free_set l' = {a. unat addr \<le> unat a \<and> unat a < unat addr + unat (pgSize * pgCount)} \<union> free_set l)"
proof -
  let ?r = "\<lparr>rg_node = 0, rg_start = addr, rg_size = pgSize * pgCount\<rparr>"
  have w: "wf_region ?r" using assms(6,7) by (simp add: wf_region_def rend_def)
  have a: "addrs ?r = {a. unat addr \<le> unat a \<and> unat a < unat addr + unat (pgSize * pgCount)}"
    by (simp add: addrs_def rend_def)
  have d: "addrs ?r \<inter> free_set l = {}" unfolding a using assms(8) by blast
  have n: "Region_new 0 addr (pgSize * pgCount) = Inr ?r"
  proof (cases "rend ?r = 2 ^ 64")
    case True
    then show ?thesis using end_word(1) [OF w] by (simp add: Region_new_def)
  next
    case False
    then have "rend ?r < 2 ^ 64" using w by (simp add: wf_region_def)
    from end_word(2) [OF w this] show ?thesis
      using assms(6) by (simp add: Region_new_def rend_def word_less_nat_alt)
  qed
  have s: "0 < unat (rg_start ?r)" "1 \<le> unat (rg_start ?r)" using assms(5) by simp_all
  have "freed 1 (addrs ?r \<union> free_set l) (Free_loop c nh h ?r l)"
    by (rule Free_loop_ok [OF assms(1,2) w s(1) assms(3,4) d s(2) assms(4)])
  then show ?thesis
    using assms(1) n unfolding FreeList_Free_def freed_def a by auto
qed

text \<open>
  C23. FreeList::Free makes exactly the released range free: on a sorted list of disjoint
  regions above address 0 that does not meet the range, either the node allocator runs out
  or the new list is again sorted and disjoint and covers the old free addresses and the
  range, nothing else; regions that touch may be merged.
\<close>

theorem FreeList_Free_exact:
  assumes "noncritical c" and "heap_total nh" and "wf_list l" and "above 1 l"
    and "0 < unat addr" and "0 < unat (pgSize * pgCount)"
    and "unat addr + unat (pgSize * pgCount) \<le> 2 ^ 64"
    and "\<And>a. unat addr \<le> unat a \<Longrightarrow> unat a < unat addr + unat (pgSize * pgCount) \<Longrightarrow> a \<notin> free_set l"
  shows "FreeList_Free c nh l h addr pgSize pgCount = Inl NullDeref \<or>
    (\<exists>l' h'. FreeList_Free c nh l h addr pgSize pgCount = Inr (l', h') \<and> wf_list l' \<and> above 1 l'
      \<and> free_set l' = {a. unat addr \<le> unat a \<and> unat a < unat addr + unat (pgSize * pgCount)} \<union> free_set l)"
  using FreeList_Free_adds [OF assms] .

definition ex_nodes :: "u64 node_heap" where
  "ex_nodes = \<lparr>nh_New = (\<lambda>h. Inr (Some h, h + 0x20)), nh_Delete = (\<lambda>h _. Inr h)\<rparr>"

definition ex_noncrit :: crit where
  "ex_noncrit = \<lparr>crit_initialized = True, rflags = 0x202\<rparr>"

definition ex_list :: "region list" where
  "ex_list = [\<lparr>rg_node = 0x100, rg_start = 0x1000, rg_size = 0x3000\<rparr>,
     \<lparr>rg_node = 0x120, rg_start = 0x8000, rg_size = 0x2000\<rparr>]"

lemma ex_list_ok: "noncritical ex_noncrit" "heap_total ex_nodes" "wf_list ex_list" "above 1 ex_list"
  by (simp_all add: noncritical_def IgnoreCriticality_def GetCritical_def ex_noncrit_def heap_total_def
      ex_nodes_def wf_list_def ex_list_def wf_region_def rend_def)

theorem FreeList_Free_exact_witness:
  "\<exists>l' h'. FreeList_Free ex_noncrit ex_nodes ex_list 0x200 0x4000 0x1000 4 = Inr (l', h')
    \<and> l' = [\<lparr>rg_node = 0x100, rg_start = 0x1000, rg_size = 0x9000\<rparr>] \<and> wf_list l'
    \<and> free_set l' = {a. unat (0x4000 :: u64) \<le> unat a \<and> unat a < 0x8000} \<union> free_set ex_list"
proof -
  have e: "FreeList_Free ex_noncrit ex_nodes ex_list 0x200 0x4000 0x1000 4
      = Inr ([\<lparr>rg_node = 0x100, rg_start = 0x1000, rg_size = 0x9000\<rparr>], 0x200)"
    by code_simp
  have "a \<notin> free_set ex_list" if "unat (0x4000 :: u64) \<le> unat a" "unat a < 0x8000" for a :: u64
    using that by (simp add: ex_list_def addrs_def rend_def)
  with FreeList_Free_exact [OF ex_list_ok, of "0x4000" "0x1000" 4 "0x200"] e show ?thesis by auto
qed



text \<open>
  C35. FreeList::Alloc hands out memory that was never free: an allocation at the start of
  a larger region moves the region's start without shrinking it, so of a free region of
  two pages three pages can be taken, the third one past its end.
\<close>

theorem FreeList_Alloc_escapes:
  fixes n start pgSize :: u64
  assumes "noncritical c" and "0 < pgSize" and "start mod pgSize = 0"
    and "unat start + 3 * unat pgSize < 2 ^ 64"
  defines "two \<equiv> \<lparr>rg_node = n, rg_start = start, rg_size = 2 * pgSize\<rparr>"
  shows "\<exists>l1 l2 l3. FreeList_Alloc c nh [two] h pgSize 1 = Inr (start, l1, h)
    \<and> FreeList_Alloc c nh l1 h pgSize 1 = Inr (start + pgSize, l2, h)
    \<and> FreeList_Alloc c nh l2 h pgSize 1 = Inr (start + 2 * pgSize, l3, h)
    \<and> start + 2 * pgSize \<notin> addrs two"
proof -
  have p0: "unat (2 * pgSize) = 2 * unat pgSize"
    using assms(4) by (subst unat_mult_lem [THEN iffD1]) simp_all
  have pos: "0 < unat pgSize" using assms(2) by (simp add: word_less_nat_alt)
  then have p: "unat (2 * pgSize) = 2 * unat pgSize" "pgSize \<noteq> 0" "2 * pgSize \<noteq> pgSize"
    using p0 by (auto simp: word_unat_eq_iff)
  have le: "pgSize \<le> 2 * pgSize" using p(1) by (simp add: word_le_nat_alt)
  have step: "FreeList_Alloc c nh [\<lparr>rg_node = n, rg_start = s, rg_size = 2 * pgSize\<rparr>] h pgSize 1
      = Inr (s, [\<lparr>rg_node = n, rg_start = s + pgSize, rg_size = 2 * pgSize\<rparr>], h)"
    if s: "s mod pgSize = 0" "unat s + unat pgSize < 2 ^ 64" for s
  proof -
    have "unat (s + pgSize) = unat s + unat pgSize" using s(2) by (subst unat_add_lem [THEN iffD1]) simp_all
    then have "s < s + pgSize" using assms(2) by (simp add: word_less_nat_alt)
    then show ?thesis
      using assms(1) s(1) p le AllocInRegion_started [of "\<lparr>rg_node = 0, rg_start = s, rg_size = pgSize\<rparr>"
        "\<lparr>rg_node = n, rg_start = s, rg_size = 2 * pgSize\<rparr>" c nh h]
      by (simp add: FreeList_Alloc_def CanHold_def Region_new_def Let_def)
  qed
  have u: "unat (start + pgSize) = unat start + unat pgSize"
    "unat (start + 2 * pgSize) = unat start + 2 * unat pgSize"
    using assms(4) p(1) by (subst unat_add_lem [THEN iffD1]; simp)+
  have m: "(start + pgSize) mod pgSize = 0" "(start + 2 * pgSize) mod pgSize = 0"
    using assms(3) u p(1) by (simp_all add: word_unat_eq_iff unat_mod mod_add_eq [symmetric])
  have a: "start + pgSize + pgSize = start + 2 * pgSize" by simp
  have "start + 2 * pgSize \<notin> addrs two"
    using u(2) p(1) by (simp add: two_def addrs_def rend_def)
  then show ?thesis
    using step [OF assms(3)] step [OF m(1)] step [OF m(2)] assms(4) u unfolding two_def a by simp
qed

theorem FreeList_Alloc_escapes_witness:
  "\<exists>l1 l2 l3. FreeList_Alloc ex_noncrit ex_nodes [\<lparr>rg_node = 0x100, rg_start = 0x1000, rg_size = 0x2000\<rparr>] 0x200 0x1000 1
      = Inr (0x1000, l1, 0x200)
    \<and> FreeList_Alloc ex_noncrit ex_nodes l1 0x200 0x1000 1 = Inr (0x2000, l2, 0x200)
    \<and> FreeList_Alloc ex_noncrit ex_nodes l2 0x200 0x1000 1 = Inr (0x3000, l3, 0x200)"
  using FreeList_Alloc_escapes [OF ex_list_ok(1), of "0x1000" "0x1000" ex_nodes "0x100" "0x200"] by auto

end
