(* ===== verification/EasyMap.thy ===== *)
theory EasyMap
  imports GlobalMapProofs
begin

text \<open>
  What the rest of the kernel builds on the global map: temporary mappings of physical
  memory (\<^verbatim>\<open>src/memory/easy-map.cpp\<close>, \<^verbatim>\<open>src/memory/phys-copy.cpp\<close>), the freeing of a page table that is
  not in use (\<^verbatim>\<open>PageTable::FreeTable\<close>) and the mapping methods that every physical allocator
  inherits (\<^verbatim>\<open>src/arch/api/allocator.cpp\<close>). The physical allocator is the one behind the
  global page table, whose state is part of the machine.
\<close>

section \<open>EasyMap\<close>

record easy_map =
  em_mapStart :: VirtAddr
  em_pageSize :: u64
  em_pageAlign :: u64
  em_pageCount :: u64
  em_start :: VirtAddr

text \<open>How many pages of a size cover a number of bytes.\<close>

definition page_count :: "u64 \<Rightarrow> u64 \<Rightarrow> u64" where
  "page_count bytes pgSize = bytes div pgSize + (if bytes mod pgSize \<noteq> 0 then 1 else 0)"

definition EasyMap_new :: "crit \<Rightarrow> 'a gmap \<Rightarrow> PhysAddr \<Rightarrow> u64 \<Rightarrow> (easy_map \<times> 'a gmap) res" where
  "EasyMap_new c g start sz =
     bindE (AssertNoncritical c) (\<lambda>_.
     bindE (GetPageSizeAlign 0) (\<lambda>pgAlign.
     bindE (GetPageSize 0) (\<lambda>pgSize.
       let alignOffset = (if start mod pgAlign \<noteq> 0 then start mod pgAlign else 0);
           aligned = start - alignOffset;
           endSize = sz + alignOffset;
           pgCount = page_count endSize pgSize
       in bindE (GlobalMap_Map c g aligned \<lparr>pageSize = pgSize, pageCount = pgCount\<rparr> default_attributes)
            (\<lambda>(r, g).
              case r of
                None \<Rightarrow> Inl (Panic ''EasyMap() - failed to map memory'')
              | Some mapStart \<Rightarrow>
                  Inr (\<lparr>em_mapStart = mapStart, em_pageSize = pgSize, em_pageAlign = pgAlign,
                    em_pageCount = pgCount, em_start = mapStart + alignOffset\<rparr>, g)))))"

definition EasyMap_del :: "crit \<Rightarrow> 'a gmap \<Rightarrow> easy_map \<Rightarrow> 'a gmap res" where
  "EasyMap_del c g m =
     bindE (AssertNoncritical c) (\<lambda>_.
       GlobalMap_Unmap c g (em_mapStart m) \<lparr>pageSize = em_pageSize m, pageCount = em_pageCount m\<rparr>)"

definition GetStart :: "easy_map \<Rightarrow> VirtAddr" where
  "GetStart m = em_start m"

text \<open>A block that declares an EasyMap: the destructor runs at its end.\<close>

definition with_map ::
    "crit \<Rightarrow> 'a gmap \<Rightarrow> PhysAddr \<Rightarrow> u64 \<Rightarrow> (VirtAddr \<Rightarrow> 'a gmap \<Rightarrow> 'a gmap res) \<Rightarrow> 'a gmap res" where
  "with_map c g start sz body =
     bindE (EasyMap_new c g start sz) (\<lambda>(m, g).
     bindE (body (GetStart m) g) (\<lambda>g. EasyMap_del c g m))"

text \<open>\<^verbatim>\<open>Memcpy\<close> is a library routine, a parameter.\<close>

definition PhysCopy ::
    "(VirtAddr \<Rightarrow> VirtAddr \<Rightarrow> u64 \<Rightarrow> 'a gmap \<Rightarrow> 'a gmap res) \<Rightarrow> crit \<Rightarrow> 'a gmap \<Rightarrow> VirtAddr \<Rightarrow> PhysAddr \<Rightarrow> u64
     \<Rightarrow> 'a gmap res" where
  "PhysCopy memcpy c g dest source sz = with_map c g source sz (\<lambda>start. memcpy dest start sz)"

section \<open>Freeing a page table\<close>

fun foldE :: "('b \<Rightarrow> 's \<Rightarrow> 's res) \<Rightarrow> 'b list \<Rightarrow> 's \<Rightarrow> 's res" where
  "foldE f [] s = Inr s"
| "foldE f (x # xs) s = bindE (f x s) (foldE f xs)"

definition free_frame :: "'a page_table \<Rightarrow> PhysAddr \<Rightarrow> 'a gmap \<Rightarrow> 'a gmap res" where
  "free_frame t addr g =
     bindE (al_Free (GetAllocator t) (alst (mach g)) addr) (\<lambda>al.
       Inr (g\<lparr>mach := (mach g)\<lparr>alst := al\<rparr>\<rparr>))"

text \<open>The first number is 3 minus the depth.\<close>

fun FreeTableRecursive ::
    "crit \<Rightarrow> 'a page_table \<Rightarrow> nat \<Rightarrow> nat \<Rightarrow> nat \<Rightarrow> PhysAddr \<Rightarrow> 'a gmap \<Rightarrow> 'a gmap res" where
  "FreeTableRecursive c t 0 start stop addr g =
     bindE (AssertNoncritical c) (\<lambda>_. free_frame t addr g)"
| "FreeTableRecursive c t (Suc n) start stop addr g =
     bindE (AssertNoncritical c) (\<lambda>_.
     bindE (with_map c g addr 0x1000 (\<lambda>entries.
        foldE (\<lambda>i g.
          bindE (vread (mach g) (entries + 8 * of_nat i)) (\<lambda>entry.
            if entry = 0 \<or> entry AND 0x80 \<noteq> 0 then Inr g
            else FreeTableRecursive c t n 0 0x200 (entry AND 0x7FFFFFFFFFFFF000) g)) [start..<stop]))
       (free_frame t addr))"

definition FreeTable :: "crit \<Rightarrow> 'a page_table \<Rightarrow> nat \<Rightarrow> 'a gmap \<Rightarrow> 'a gmap res" where
  "FreeTable c t start g =
     bindE (AssertNoncritical c) (\<lambda>_.
     bindE (assertE (\<not> IsSet t (mach g)) ''!IsSet()'') (\<lambda>_.
       FreeTableRecursive c t 3 start 0x1ff (pml4 t) g))"

section \<open>Physical memory with a mapping\<close>

definition gm_Alloc :: "'a gmap \<Rightarrow> PhysSize \<Rightarrow> PhysSize \<Rightarrow> (PhysAddr option \<times> 'a gmap) res" where
  "gm_Alloc g sz align =
     bindE (al_Alloc (GetAllocator (pageTable g)) (alst (mach g)) sz align) (\<lambda>(r, al).
       Inr (r, g\<lparr>mach := (mach g)\<lparr>alst := al\<rparr>\<rparr>))"

definition gm_Free :: "PhysAddr \<Rightarrow> 'a gmap \<Rightarrow> 'a gmap res" where
  "gm_Free addr g = free_frame (pageTable g) addr g"

lemma Read_sz: "Read c t s va = Inr (r, sz) \<Longrightarrow> \<exists>d. sz = level_size d"
  by (auto simp: Read_def Walk_def Let_def split: if_splits)

lemma level_size_pos: "0 < level_size d"
  using level_size_bounds [of d] by (simp add: word_less_nat_alt)

text \<open>
  \<^verbatim>\<open>FreeAndUnmap\<close> page by page. What it gives to \<^verbatim>\<open>Free\<close> is \<open>source\<close>, the virtual address, as
  in the code.
\<close>

function FreeAndUnmap_loop :: "crit \<Rightarrow> VirtAddr \<Rightarrow> u64 \<Rightarrow> 'a gmap \<Rightarrow> 'a gmap res" where
  "FreeAndUnmap_loop c source remaining g =
     (if remaining = 0 then Inr g
      else case GlobalMap_Read c g source of
        Inl flt \<Rightarrow> Inl flt
      | Inr (None, _) \<Rightarrow> Inl (Panic ''Allocator::FreeAndUnmap() - map.Read() failed'')
      | Inr (Some _, pgSize) \<Rightarrow>
          bindE (GlobalMap_Unmap c g source \<lparr>pageSize = pgSize, pageCount = 1\<rparr>) (\<lambda>g.
          bindE (gm_Free source g) (\<lambda>g.
            if remaining \<le> pgSize then Inr g
            else FreeAndUnmap_loop c (source + pgSize) (remaining - pgSize) g)))"
  by pat_completeness auto
termination
proof (relation "measure (\<lambda>(c, source, remaining, g). unat remaining)", goal_cases)
  case (2 c source remaining g x y pgSize z g1 g2)
  then have "\<exists>d. pgSize = level_size d"
    using Read_sz [of c "pageTable g" "mach g" source] by (auto simp: GlobalMap_Read_def)
  then have "0 < pgSize" using level_size_pos by blast
  with 2 show ?case by (simp add: word_less_nat_alt word_le_nat_alt unat_sub)
qed simp

declare FreeAndUnmap_loop.simps [simp del]

definition FreeAndUnmapContiguous :: "crit \<Rightarrow> 'a gmap \<Rightarrow> VirtAddr \<Rightarrow> u64 \<Rightarrow> 'a gmap res" where
  "FreeAndUnmapContiguous c g addr sz =
     bindE (GlobalMap_Read c g addr) (\<lambda>(r, pgSize).
       case r of
         None \<Rightarrow> Inl (Panic ''Allocator::FreeAndUnmapContiguous() - GlobalMap::Read() failed'')
       | Some (physAddr, _) \<Rightarrow>
           bindE (GlobalMap_Unmap c g addr \<lparr>pageSize = pgSize, pageCount = page_count sz pgSize\<rparr>)
             (gm_Free physAddr))"

definition FreeAndUnmap :: "crit \<Rightarrow> 'a gmap \<Rightarrow> VirtAddr \<Rightarrow> u64 \<Rightarrow> 'a gmap res" where
  "FreeAndUnmap c g addr sz =
     (if \<not> placementMap GetCapabilities then FreeAndUnmapContiguous c g addr sz
      else FreeAndUnmap_loop c addr sz g)"

text \<open>The page sizes that \<^verbatim>\<open>AllocAndMap\<close> and \<^verbatim>\<open>AllocAndMapContiguous\<close> try, largest first.\<close>

definition size_indices :: "bool \<Rightarrow> nat list" where
  "size_indices bigPages = rev [0..<(if bigPages then GetPageSizeCount else 1)]"

fun contiguous_sizes ::
    "crit \<Rightarrow> u64 \<Rightarrow> nat list \<Rightarrow> 'a gmap \<Rightarrow> (VirtAddr option \<times> 'a gmap) res" where
  "contiguous_sizes c sz [] g = Inr (None, g)"
| "contiguous_sizes c sz (i # is) g =
     bindE (GetPageSize i) (\<lambda>pgSize.
       if i \<noteq> 0 \<and> sz mod pgSize \<noteq> 0 then contiguous_sizes c sz is g
       else
         bindE (GetPageSizeAlign i) (\<lambda>pgAlign.
         let pgCount = page_count sz pgSize
         in bindE (gm_Alloc g (pgCount * pgSize) pgAlign) (\<lambda>(r, g).
              case r of
                None \<Rightarrow> contiguous_sizes c sz is g
              | Some physBase \<Rightarrow>
                  bindE (GlobalMap_Map c g physBase \<lparr>pageSize = pgSize, pageCount = pgCount\<rparr>
                      default_attributes) (\<lambda>(r, g).
                    case r of
                      None \<Rightarrow> bindE (gm_Free physBase g) (contiguous_sizes c sz is)
                    | Some res \<Rightarrow> Inr (Some res, g)))))"

definition AllocAndMapContiguous ::
    "crit \<Rightarrow> 'a gmap \<Rightarrow> u64 \<Rightarrow> bool \<Rightarrow> (VirtAddr option \<times> 'a gmap) res" where
  "AllocAndMapContiguous c g sz bigPages = contiguous_sizes c sz (size_indices bigPages) g"

text \<open>
  The inner loop of \<^verbatim>\<open>AllocAndMap\<close>; the boolean says whether every page was mapped, and
  after a failure the pages mapped so far have been given to \<^verbatim>\<open>FreeAndUnmap\<close>.
\<close>

fun alloc_pages ::
    "crit \<Rightarrow> VirtAddr \<Rightarrow> u64 \<Rightarrow> u64 \<Rightarrow> nat \<Rightarrow> VirtAddr \<Rightarrow> 'a gmap \<Rightarrow> (bool \<times> 'a gmap) res" where
  "alloc_pages c res pgSize pgAlign 0 dest g = Inr (True, g)"
| "alloc_pages c res pgSize pgAlign (Suc n) dest g =
     bindE (gm_Alloc g pgSize pgAlign) (\<lambda>(r, g).
       case r of
         None \<Rightarrow> bindE (FreeAndUnmap c g res (dest - res)) (\<lambda>g. Inr (False, g))
       | Some phys \<Rightarrow>
           bindE (GlobalMap_MapAt c g dest phys \<lparr>pageSize = pgSize, pageCount = 1\<rparr> default_attributes)
             (alloc_pages c res pgSize pgAlign n (dest + pgSize)))"

fun map_sizes ::
    "crit \<Rightarrow> u64 \<Rightarrow> nat list \<Rightarrow> 'a gmap \<Rightarrow> (VirtAddr option \<times> 'a gmap) res" where
  "map_sizes c sz [] g = Inr (None, g)"
| "map_sizes c sz (i # is) g =
     bindE (GetPageSize i) (\<lambda>pgSize.
       if i \<noteq> 0 \<and> sz mod pgSize \<noteq> 0 then map_sizes c sz is g
       else
         bindE (GetPageSizeAlign i) (\<lambda>pgAlign.
         let pgCount = page_count sz pgSize
         in bindE (GlobalMap_Reserve c g \<lparr>pageSize = pgSize, pageCount = pgCount\<rparr>) (\<lambda>(r, g).
              case r of
                None \<Rightarrow> map_sizes c sz is g
              | Some res \<Rightarrow>
                  bindE (alloc_pages c res pgSize pgAlign (unat pgCount) res g) (\<lambda>(ok, g).
                    if ok then Inr (Some res, g) else map_sizes c sz is g))))"

definition AllocAndMap :: "crit \<Rightarrow> 'a gmap \<Rightarrow> u64 \<Rightarrow> bool \<Rightarrow> (VirtAddr option \<times> 'a gmap) res" where
  "AllocAndMap c g sz bigPages =
     (if \<not> placementMap GetCapabilities then AllocAndMapContiguous c g sz bigPages
      else map_sizes c sz (size_indices bigPages) g)"

section \<open>What a mapping shows\<close>

lemma unat_mod_u64: "unat (a mod b) = unat a mod unat b" for a b :: u64
  by (rule unat_mod)

lemma page_count_cover:
  assumes "0 < unat n" "unat n \<le> 2 ^ 39"
  shows "0 < page_count n 0x1000" "unat n \<le> unat (page_count n 0x1000) * 0x1000"
    "unat (page_count n 0x1000) * 0x1000 < unat n + 0x1000"
proof -
  define q where "q = unat n div 0x1000"
  define r where "r = unat n mod 0x1000"
  have n: "unat n = q * 0x1000 + r" "r < 0x1000" by (simp_all add: q_def r_def)
  have z: "n mod 0x1000 \<noteq> 0 \<longleftrightarrow> r \<noteq> 0"
    by (simp add: r_def word_unat_eq_iff unat_mod)
  have d: "unat (n div 0x1000) = q" by (simp add: q_def unat_div)
  have "q \<le> 2 ^ 39" using n assms(2) by linarith
  then have u: "unat (page_count n 0x1000) = q + (if r \<noteq> 0 then 1 else 0)"
    unfolding page_count_def using z d by (subst unat_add_lem [THEN iffD1]) simp_all
  show "unat n \<le> unat (page_count n 0x1000) * 0x1000" "unat (page_count n 0x1000) * 0x1000 < unat n + 0x1000"
    using n u by auto
  then show "0 < page_count n 0x1000" using assms(1) by (cases "page_count n 0x1000 = 0") (auto simp: word_gt_0)
qed

text \<open>The pages that EasyMap asks for cover the range, inside the addressable memory.\<close>

lemma easy_pages:
  fixes start sz :: u64
  assumes sz: "0 < sz" "unat sz \<le> 2 ^ 38" and top: "unat start + unat sz \<le> 2 ^ 52"
  defines "off \<equiv> start mod 0x1000"
  defines "n \<equiv> page_count (sz + off) 0x1000"
  shows "size_ok \<lparr>pageSize = 0x1000, pageCount = n\<rparr> 3" "frames_ok 3 (start - off) (unat n)"
    "unat off + unat sz \<le> unat n * 0x1000" "unat n * 0x1000 \<le> 2 ^ 39"
proof -
  have off: "unat off = unat start mod 0x1000" by (simp add: off_def unat_mod)
  have ol: "unat off < 0x1000" by (simp add: off)
  have e: "unat (sz + off) = unat sz + unat off"
    using sz(2) ol by (subst unat_add_lem [THEN iffD1]) simp_all
  have sp: "0 < unat sz" using sz(1) by (simp add: word_less_nat_alt)
  have "0 < unat (sz + off)" "unat (sz + off) \<le> 2 ^ 39" using sp sz(2) e ol by simp_all
  note P = page_count_cover [OF this, folded n_def]
  show cov: "unat off + unat sz \<le> unat n * 0x1000" using P(2) e by simp
  show le: "unat n * 0x1000 \<le> 2 ^ 39" using P(3) e ol sz(2) by simp
  then show "size_ok \<lparr>pageSize = 0x1000, pageCount = n\<rparr> 3" using P(1) by (simp add: size_ok_def CalcDepth_def)
  have "off \<le> start" using off by (simp add: word_le_nat_alt)
  then have al: "unat (start - off) = unat start - unat off" by (simp add: unat_sub)
  have k: "unat start - unat off = unat start div 0x1000 * 0x1000"
    unfolding off by (simp add: minus_mod_eq_div_mult)
  have "unat start div 0x1000 * 0x1000 + unat n * 0x1000 < 2 ^ 52 + 0x1000"
    using P(3) e off top k by linarith
  then have "(unat start div 0x1000 + unat n) * 0x1000 < (2 ^ 40 + 1) * 0x1000" by simp
  then have "unat start div 0x1000 + unat n < 2 ^ 40 + 1" by (simp only: mult_less_cancel2)
  then show "frames_ok 3 (start - off) (unat n)"
    unfolding frames_ok_def al k by (simp add: page_bits_def)
qed

context page_source
begin

lemma EasyMap_new_ok:
  assumes t: "al_Alloc (allocator (pageTable g)) = Alloc" and g: "gm_ok invar taken c g"
    and sz: "0 < sz" "unat sz \<le> 2 ^ 38" and top: "unat start + unat sz \<le> 2 ^ 52"
  shows "(\<exists>flt \<in> {AssertFail ''!(addr % size)'', Panic ''EasyMap() - failed to map memory''} \<union> set_panics.
      EasyMap_new c g start sz = Inl flt) \<or>
    (\<exists>m g'. EasyMap_new c g start sz = Inr (m, g') \<and> gm_ok invar taken c g'
       \<and> (\<forall>i. i < sz \<longrightarrow> mmu_translate (pmem (mach g')) (cr3 (mach g')) (GetStart m + i) = Some (start + i))
       \<and> (\<forall>va. canonical va \<longrightarrow> va < UserEnd \<longrightarrow> mmu_translate (pmem (mach g)) (cr3 (mach g)) va \<noteq> None \<longrightarrow>
            mmu_translate (pmem (mach g')) (cr3 (mach g')) va = mmu_translate (pmem (mach g)) (cr3 (mach g)) va))"
proof -
  let ?off = "start mod 0x1000"
  let ?n = "page_count (sz + ?off) 0x1000"
  let ?s = "\<lparr>pageSize = 0x1000, pageCount = ?n\<rparr>"
  let ?r = "GlobalMap_Map c g (start - ?off) ?s default_attributes"
  note E = easy_pages [OF sz top]
  have pc: "pageCount ?s = ?n" by simp
  have nc: "noncritical c" using gm_okD(1) [OF g] .
  have if0: "(if x \<noteq> 0 then x else 0) = x" for x :: u64 by simp
  have R: "EasyMap_new c g start sz = bindE ?r (\<lambda>(r, g). case r of
      None \<Rightarrow> Inl (Panic ''EasyMap() - failed to map memory'')
    | Some mapStart \<Rightarrow> Inr (\<lparr>em_mapStart = mapStart, em_pageSize = 0x1000, em_pageAlign = 0x1000,
        em_pageCount = ?n, em_start = mapStart + ?off\<rparr>, g))"
    using nc by (simp add: EasyMap_new_def GetPageSizeAlign_def GetPageSize_def if0 Let_def)
  have fr: "frames_ok 3 (start - ?off) (unat (pageCount ?s))" using E(2) by simp
  from GlobalMap_Map_ok [OF t g E(1) fr, of default_attributes] show ?thesis
  proof (elim disjE exE bexE conjE)
    fix flt assume "flt \<in> insert (AssertFail ''!(addr % size)'') set_panics" "?r = Inl flt"
    then show ?thesis unfolding R by (intro disjI1 bexI [of _ flt]) auto
  next
    fix g' assume "?r = Inr (None, g')"
    then show ?thesis unfolding R by simp
  next
    fix addr g' assume r: "?r = Inr (Some addr, g')" and g': "gm_ok invar taken c g'"
      and ch: "chunk_ok (mach g) (freeFinder g') ?s addr"
      and lin: "linear_map 3 addr (start - ?off) (unat (pageCount ?s)) (mach g) (mach g')"
    have b: "unat (Bytes ?s) = unat ?n * 0x1000" using size_okD(5) [OF E(1)] by (simp add: page_bits_def)
    have lim: "unat addr + unat ?n * 0x1000 \<le> 2 ^ 39" using ch b by (simp add: chunk_ok_def)
    have un: "unmapped (mach g) addr (Bytes ?s)" using ch by (simp add: chunk_ok_def)
    have run: "in_run 3 addr (unat ?n) va \<longleftrightarrow> unat addr \<le> unat va \<and> unat va < unat addr + unat ?n * 0x1000" for va
      by (simp add: in_run_def page_bits_def)
    have ends: "canonical va \<and> va < UserEnd" if "unat va < 2 ^ 39" for va :: u64
      using that by (simp add: canonical_def UserEnd_def word_le_nat_alt word_less_nat_alt)
    have tr: "mmu_translate (pmem (mach g')) (cr3 (mach g')) (addr + ?off + i) = Some (start + i)" if i: "i < sz" for i
    proof -
      have il: "unat i < unat sz" using i by (simp add: word_less_nat_alt)
      have u1: "unat (addr + ?off) = unat addr + unat ?off"
        using lim E(3) by (subst unat_add_lem [THEN iffD1]) simp_all
      then have u: "unat (addr + ?off + i) = unat addr + unat ?off + unat i"
        using lim E(3) il by (subst unat_add_lem [THEN iffD1]) simp_all
      then have "in_run 3 addr (unat ?n) (addr + ?off + i)" using run E(3) il by simp
      moreover have "unat (addr + ?off + i) < 2 ^ 39" using u E(3) il lim by simp
      ultimately have "mmu_translate (pmem (mach g')) (cr3 (mach g')) (addr + ?off + i)
          = Some (start - ?off + (addr + ?off + i - addr))"
        using lin ends unfolding linear_map_def by simp
      then show ?thesis by simp
    qed
    have keep: "mmu_translate (pmem (mach g')) (cr3 (mach g')) va = mmu_translate (pmem (mach g)) (cr3 (mach g)) va"
      if "canonical va" "va < UserEnd" "mmu_translate (pmem (mach g)) (cr3 (mach g)) va \<noteq> None" for va
    proof -
      have "\<not> in_run 3 addr (unat ?n) va" using un that(3) b run unfolding unmapped_def vacant_def by metis
      then show ?thesis using lin that(1,2) by (simp add: linear_map_def)
    qed
    show ?thesis
      unfolding R r using g' tr keep by (simp add: GetStart_def)
  qed
qed

end

end
