(* ===== verification/EasyMapProofs.thy ===== *)
theory EasyMapProofs
  imports EasyMap
begin

text \<open>
  The mapping of freshly allocated pages: what a run of \<^verbatim>\<open>Alloc\<close> and \<^verbatim>\<open>MapAt\<close> leaves in the
  address space, by induction on the number of pages.
\<close>

section \<open>Frames and offsets\<close>

lemma frame_offset:
  assumes f: "is_frame f" and x: "unat x < 0x1000"
  shows "pframe (f + x) = f"
proof -
  have xb: "n < 12" if "bit x n" for n
    by (rule bit_less_exp [OF _ that]) (use x in simp)
  have "f AND x = 0"
    by (rule bit_word_eqI) (use xb is_frame_bit [OF f] in \<open>fastforce simp: bit_simps\<close>)
  then have "f + x = f OR x" by (metis word_plus_and_or add.left_neutral)
  moreover have "pframe x = 0"
    unfolding pframe_mask by (rule bit_word_eqI) (auto simp: bit_simps dest: xb)
  ultimately show ?thesis using f by (simp add: pframe_or is_frame_def)
qed

section \<open>A run of fresh pages\<close>

text \<open>
  From \<open>s\<close> to \<open>s'\<close> the run of \<open>n\<close> small pages at \<open>dest\<close> came to be backed by frames that were
  not in use, a different byte behind every address, and nothing else changed.
\<close>

definition fresh_run :: "('a \<Rightarrow> u64 set) \<Rightarrow> 'a machine \<Rightarrow> VirtAddr \<Rightarrow> nat \<Rightarrow> 'a machine \<Rightarrow> bool" where
  "fresh_run taken s dest n s' \<longleftrightarrow>
     (\<forall>va. in_run 3 dest n va \<longrightarrow> (\<exists>p. mmu_translate (pmem s') (cr3 s') va = Some p \<and> pframe p \<notin> taken (alst s)))
   \<and> (\<forall>va vb. in_run 3 dest n va \<longrightarrow> in_run 3 dest n vb \<longrightarrow>
        mmu_translate (pmem s') (cr3 s') va = mmu_translate (pmem s') (cr3 s') vb \<longrightarrow> va = vb)
   \<and> (\<forall>va. canonical va \<longrightarrow> va < UserEnd \<longrightarrow> \<not> in_run 3 dest n va \<longrightarrow>
        mmu_translate (pmem s') (cr3 s') va = mmu_translate (pmem s) (cr3 s) va)"

lemma in_run_small:
  "in_run 3 dest n va \<longleftrightarrow> unat dest \<le> unat va \<and> unat va < unat dest + n * 0x1000"
  by (simp add: in_run_def page_bits_def)

lemma fresh_run_0: "pmem s' = pmem s \<Longrightarrow> cr3 s' = cr3 s \<Longrightarrow> fresh_run taken s dest 0 s'"
  by (auto simp: fresh_run_def in_run_small)

lemma low_user: "unat va < 2 ^ 39 \<Longrightarrow> canonical va \<and> va < UserEnd"
  by (simp add: canonical_def UserEnd_def word_le_nat_alt word_less_nat_alt)

lemma fresh_run_Suc:
  assumes f: "is_frame f" "f \<notin> taken (alst s)" "f \<in> taken (alst s1)" and lim: "unat dest + Suc n * 0x1000 \<le> 2 ^ 39"
    and tk: "taken (alst s) \<subseteq> taken (alst s1)"
    and tr: "\<And>va. mmu_translate (pmem sa) (cr3 sa) va = mmu_translate (pmem s) (cr3 s) va"
    and lin: "linear_map 3 dest f 1 sa s1"
    and rest: "fresh_run taken s1 (dest + 0x1000) n s'"
  shows "fresh_run taken s dest (Suc n) s'"
proof -
  have nx: "unat (dest + 0x1000) = unat dest + 0x1000"
    using lim by (subst unat_add_lem [THEN iffD1]) simp_all
  define R where "R = in_run 3 (dest + 0x1000) n"
  have R: "R va \<longleftrightarrow> unat dest + 0x1000 \<le> unat va \<and> unat va < unat dest + 0x1000 + n * 0x1000" for va
    unfolding R_def in_run_small nx by simp
  have W: "in_run 3 dest (Suc n) va \<longleftrightarrow> in_run 3 dest 1 va \<or> R va" for va
    unfolding R in_run_small by auto
  have D: "\<not> (in_run 3 dest 1 va \<and> R va)" for va unfolding R in_run_small by auto
  have low: "canonical va \<and> va < UserEnd" if "in_run 3 dest (Suc n) va" for va
    using that lim by (intro low_user) (simp add: in_run_small)
  note F = rest [unfolded fresh_run_def R_def [symmetric]]
  have first: "mmu_translate (pmem s') (cr3 s') va = Some (f + (va - dest)) \<and> pframe (f + (va - dest)) = f"
    if va: "in_run 3 dest 1 va" for va
  proof -
    have "mmu_translate (pmem s1) (cr3 s1) va = Some (f + (va - dest))"
      using lin va low W unfolding linear_map_def by simp
    moreover have "mmu_translate (pmem s') (cr3 s') va = mmu_translate (pmem s1) (cr3 s1) va"
      using F va D low W by blast
    moreover have "unat (va - dest) < 0x1000"
      using va by (auto simp: in_run_small unat_sub word_le_nat_alt)
    ultimately show ?thesis using frame_offset [OF f(1)] by simp
  qed
  have later: "\<exists>p. mmu_translate (pmem s') (cr3 s') va = Some p \<and> pframe p \<notin> taken (alst s1)" if "R va" for va
    using F that by blast
  show ?thesis
    unfolding fresh_run_def
  proof (intro conjI allI impI)
    fix va assume "in_run 3 dest (Suc n) va"
    then show "\<exists>p. mmu_translate (pmem s') (cr3 s') va = Some p \<and> pframe p \<notin> taken (alst s)"
      using first later f(2) tk W by (metis subsetD)
  next
    fix va vb
    assume a: "in_run 3 dest (Suc n) va" "in_run 3 dest (Suc n) vb"
      and e: "mmu_translate (pmem s') (cr3 s') va = mmu_translate (pmem s') (cr3 s') vb"
    show "va = vb"
    proof (cases "R va"; cases "R vb")
      assume "R va" "R vb"
      then show ?thesis using F e by blast
    next
      assume "R va" "\<not> R vb"
      then show ?thesis using later [of va] first [of vb] a W e f(3) by auto
    next
      assume "\<not> R va" "R vb"
      then show ?thesis using later [of vb] first [of va] a W e f(3) by auto
    next
      assume "\<not> R va" "\<not> R vb"
      then show ?thesis using first [of va] first [of vb] a W e by auto
    qed
  next
    fix va assume va: "canonical va" "va < UserEnd" "\<not> in_run 3 dest (Suc n) va"
    then have "mmu_translate (pmem s') (cr3 s') va = mmu_translate (pmem s1) (cr3 s1) va"
      using F W by blast
    also have "\<dots> = mmu_translate (pmem sa) (cr3 sa) va"
      using lin va W unfolding linear_map_def by simp
    finally show "mmu_translate (pmem s') (cr3 s') va = mmu_translate (pmem s) (cr3 s) va" using tr by simp
  qed
qed

section \<open>The loop of AllocAndMap\<close>

context page_source
begin

text \<open>Taking a page from the allocator keeps the map well formed.\<close>

lemma gm_Alloc_ok:
  assumes t: "al_Alloc (allocator (pageTable g)) = Alloc" and g: "gm_ok invar taken c g"
  obtains (none) g' where "gm_Alloc g 0x1000 0x1000 = Inr (None, g')"
  | (some) f a where "gm_Alloc g 0x1000 0x1000 = Inr (Some f, g\<lparr>mach := (mach g)\<lparr>alst := a\<rparr>\<rparr>)"
      "is_frame f" "f \<notin> taken (alst (mach g))" "insert f (taken (alst (mach g))) \<subseteq> taken a"
      "gm_ok invar taken c (g\<lparr>mach := (mach g)\<lparr>alst := a\<rparr>\<rparr>)"
proof -
  note G = gm_okD [OF g]
  have inv: "invar (alst (mach g))" using G(3) by (simp add: pt_inv_def)
  show ?thesis
  proof (cases rule: pageE [OF inv])
    case (1 a)
    then show ?thesis using t by (intro none) (simp add: gm_Alloc_def GetAllocator_def)
  next
    case (2 f a)
    have "pt_inv invar taken ((mach g)\<lparr>alst := a\<rparr>)"
      using G(3) 2(2,5) by (auto simp: pt_inv_def)
    moreover have "finder_ok ((mach g)\<lparr>alst := a\<rparr>) (freeFinder g)"
      using G(4) by (simp add: finder_ok_def unmapped_def vacant_def leaf_def)
    ultimately have "gm_ok invar taken c (g\<lparr>mach := (mach g)\<lparr>alst := a\<rparr>\<rparr>)"
      using G(1,2) by (simp add: gm_ok_def IsSet_def)
    then show ?thesis using t 2 by (intro some [of f a]) (simp_all add: gm_Alloc_def GetAllocator_def)
  qed
qed

lemma alloc_pages_ok:
  "al_Alloc (allocator (pageTable g)) = Alloc \<Longrightarrow> gm_ok invar taken c g \<Longrightarrow> unat dest mod 0x1000 = 0 \<Longrightarrow>
    unat dest + n * 0x1000 \<le> 2 ^ 39 \<Longrightarrow> unat dest + n * 0x1000 \<le> unat (freeStart (freeFinder g)) \<Longrightarrow>
    (\<exists>flt \<in> set_panics. alloc_pages c res 0x1000 0x1000 n dest g = Inl flt) \<or>
    (\<exists>g1 g2 d. gm_Alloc g1 0x1000 0x1000 = Inr (None, g2) \<and> gm_ok invar taken c g1 \<and>
       alloc_pages c res 0x1000 0x1000 n dest g = bindE (FreeAndUnmap c g2 res (d - res)) (\<lambda>g. Inr (False, g))) \<or>
    (\<exists>g'. alloc_pages c res 0x1000 0x1000 n dest g = Inr (True, g') \<and> gm_ok invar taken c g'
       \<and> pageTable g' = pageTable g \<and> fresh_run taken (mach g) dest n (mach g'))"
proof (induction n arbitrary: dest g)
  case 0
  then show ?case by (simp add: fresh_run_0)
next
  case (Suc n)
  note lim = Suc.prems(4) and out = Suc.prems(5)
  show ?case
  proof (cases rule: gm_Alloc_ok [OF Suc.prems(1,2)])
    case (1 g')
    then have "alloc_pages c res 0x1000 0x1000 (Suc n) dest g
        = bindE (FreeAndUnmap c g' res (dest - res)) (\<lambda>g. Inr (False, g))" by simp
    then show ?thesis using 1 Suc.prems(2) by blast
  next
    case (2 f a)
    let ?g1 = "g\<lparr>mach := (mach g)\<lparr>alst := a\<rparr>\<rparr>" and ?s = "\<lparr>pageSize = 0x1000, pageCount = 1\<rparr>"
    let ?r = "GlobalMap_MapAt c ?g1 dest f ?s default_attributes"
    have L: "alloc_pages c res 0x1000 0x1000 (Suc n) dest g
        = bindE ?r (alloc_pages c res 0x1000 0x1000 n (dest + 0x1000))"
      using 2(1) by simp
    have sz: "size_ok ?s 3" by (simp add: size_ok_def CalcDepth_def)
    have fr: "frames_ok 3 f (unat (pageCount ?s))"
      using frame_bounds [OF 2(2)] by (simp add: frames_ok_def page_bits_def)
    have run: "run_ok 3 dest (unat (pageCount ?s))"
      using Suc.prems(3) lim by (simp add: run_ok_def page_bits_def)
    have o: "\<not> in_run 3 dest (unat (pageCount ?s)) va"
      if "unat (freeStart (freeFinder ?g1)) \<le> unat va" for va
      using that out by (simp add: in_run_small)
    have t1: "al_Alloc (allocator (pageTable ?g1)) = Alloc" using Suc.prems(1) by simp
    from GlobalMap_MapAt_ok [OF t1 2(5) sz fr run o, of default_attributes]
    consider (fail) flt where "flt \<in> set_panics" "?r = Inl flt"
      | (mapped) g2 where "?r = Inr g2" "gm_ok invar taken c g2"
          "linear_map 3 dest f 1 (mach ?g1) (mach g2)" "pageTable g2 = pageTable g" "freeFinder g2 = freeFinder g"
          "taken a \<subseteq> taken (alst (mach g2))"
      by auto
    then show ?thesis
    proof cases
      case fail
      then show ?thesis unfolding L by (intro disjI1 bexI [of _ flt]) auto
    next
      case mapped
      have nx: "unat (dest + 0x1000) = unat dest + 0x1000"
        using lim by (subst unat_add_lem [THEN iffD1]) simp_all
      have t2: "al_Alloc (allocator (pageTable g2)) = Alloc" using Suc.prems(1) mapped(4) by simp
      have pre: "unat (dest + 0x1000) mod 0x1000 = 0" "unat (dest + 0x1000) + n * 0x1000 \<le> 2 ^ 39"
        "unat (dest + 0x1000) + n * 0x1000 \<le> unat (freeStart (freeFinder g2))"
        using Suc.prems(3) lim out mapped(5) nx by (simp_all add: mod_add_eq [symmetric])
      have tk: "f \<in> taken (alst (mach g2))" "taken (alst (mach g)) \<subseteq> taken (alst (mach g2))"
        using 2(4) mapped(6) by auto
      have L2: "alloc_pages c res 0x1000 0x1000 (Suc n) dest g = alloc_pages c res 0x1000 0x1000 n (dest + 0x1000) g2"
        unfolding L mapped(1) by simp
      have tr: "mmu_translate (pmem (mach ?g1)) (cr3 (mach ?g1)) va = mmu_translate (pmem (mach g)) (cr3 (mach g)) va" for va
        by simp
      note S = fresh_run_Suc [OF 2(2,3) tk(1) lim tk(2) tr mapped(3)]
      from Suc.IH [OF t2 mapped(2) pre] show ?thesis
        unfolding L2 using S mapped(4) by auto
    qed
  qed
qed

text \<open>Small pages only: the loop over the page sizes has one turn.\<close>

lemma AllocAndMap_small:
  assumes t: "al_Alloc (allocator (pageTable g)) = Alloc" and g: "gm_ok invar taken c g"
    and sz: "0 < sz" "unat sz \<le> 2 ^ 38"
  defines "n \<equiv> page_count sz 0x1000"
  shows "(\<exists>flt \<in> set_panics. AllocAndMap c g sz False = Inl flt) \<or>
    (\<exists>g'. AllocAndMap c g sz False = Inr (None, g') \<and> gm_ok invar taken c g') \<or>
    (\<exists>g1 g2 res d. gm_Alloc g1 0x1000 0x1000 = Inr (None, g2) \<and> gm_ok invar taken c g1 \<and>
       AllocAndMap c g sz False = bindE (FreeAndUnmap c g2 res (d - res)) (\<lambda>g. Inr (None, g))) \<or>
    (\<exists>res g'. AllocAndMap c g sz False = Inr (Some res, g') \<and> gm_ok invar taken c g'
       \<and> unmapped (mach g) res (n * 0x1000) \<and> unat sz \<le> unat n * 0x1000
       \<and> fresh_run taken (mach g) res (unat n) (mach g'))"
proof -
  let ?s = "\<lparr>pageSize = 0x1000, pageCount = n\<rparr>"
  have sp: "0 < unat sz" "unat sz \<le> 2 ^ 39" using sz by (simp_all add: word_less_nat_alt)
  note P = page_count_cover [OF sp, folded n_def]
  have ok: "size_ok ?s 3" using P sz(2) by (simp add: size_ok_def CalcDepth_def)
  have A: "AllocAndMap c g sz False = bindE (GlobalMap_Reserve c g ?s) (\<lambda>(r, g). case r of
      None \<Rightarrow> Inr (None, g)
    | Some res \<Rightarrow> bindE (alloc_pages c res 0x1000 0x1000 (unat n) res g) (\<lambda>(ok, g).
        if ok then Inr (Some res, g) else Inr (None, g)))"
    by (simp add: AllocAndMap_def GetCapabilities_def size_indices_def GetPageSize_def GetPageSizeAlign_def
        n_def Let_def cong: option.case_cong if_cong)
  from GlobalMap_Reserve_ok [OF t g ok] show ?thesis
  proof (elim disjE exE bexE conjE)
    fix flt assume "flt \<in> set_panics" "GlobalMap_Reserve c g ?s = Inl flt"
    then show ?thesis unfolding A by (intro disjI1 bexI [of _ flt]) auto
  next
    fix r g1
    assume r: "GlobalMap_Reserve c g ?s = Inr (r, g1)" and g1: "gm_ok invar taken c g1" "pageTable g1 = pageTable g"
      "taken (alst (mach g)) \<subseteq> taken (alst (mach g1))"
      and tr: "\<forall>va. canonical va \<longrightarrow> va < UserEnd \<longrightarrow>
        mmu_translate (pmem (mach g1)) (cr3 (mach g1)) va = mmu_translate (pmem (mach g)) (cr3 (mach g)) va"
      and ch: "\<forall>addr. r = Some addr \<longrightarrow> addr mod pageSize ?s = 0 \<and> chunk_ok (mach g) (freeFinder g1) ?s addr
        \<and> leaf_run 3 addr (unat (pageCount ?s)) (reserve_entry (pageSize ?s)) (mach g) (mach g1)"
    show ?thesis
    proof (cases r)
      case None
      then show ?thesis using A r g1(1) by simp
    next
      case (Some res)
      have b: "Bytes ?s = n * 0x1000" "unat (Bytes ?s) = unat n * 0x1000"
        using size_okD(5) [OF ok] by (simp_all add: Bytes_def page_bits_def)
      have C: "res mod 0x1000 = 0" "unmapped (mach g) res (n * 0x1000)" "unat res + unat n * 0x1000 \<le> 2 ^ 39"
        "unat (freeStart (freeFinder g1)) = unat res + unat n * 0x1000"
        using ch Some b by (simp_all add: chunk_ok_def)
      have m: "unat res mod 0x1000 = 0" using C(1) by (simp add: word_unat_eq_iff unat_mod)
      have t1: "al_Alloc (allocator (pageTable g1)) = Alloc" using t g1(2) by simp
      have le: "unat res + unat n * 0x1000 \<le> unat (freeStart (freeFinder g1))" using C(4) by simp
      note M = alloc_pages_ok [OF t1 g1(1) m C(3) le, of res]
      have A': "AllocAndMap c g sz False = bindE (alloc_pages c res 0x1000 0x1000 (unat n) res g1)
          (\<lambda>(ok, g). if ok then Inr (Some res, g) else Inr (None, g))"
        unfolding A r Some by simp
      have fr: "fresh_run taken (mach g) res (unat n) s'" if F: "fresh_run taken (mach g1) res (unat n) s'" for s'
      proof -
        have "\<forall>va. in_run 3 res (unat n) va \<longrightarrow>
            (\<exists>p. mmu_translate (pmem s') (cr3 s') va = Some p \<and> pframe p \<notin> taken (alst (mach g)))"
          using F g1(3) unfolding fresh_run_def by blast
        then show ?thesis using F tr unfolding fresh_run_def by simp
      qed
      from M show ?thesis
      proof (elim disjE exE bexE conjE, goal_cases)
        case (1 flt)
        then show ?case unfolding A' by (intro disjI1 bexI [of _ flt]) auto
      next
        case (2 ga gb d)
        then have "AllocAndMap c g sz False = bindE (FreeAndUnmap c gb res (d - res)) (\<lambda>g. Inr (None, g))"
          unfolding A' by (simp add: bindE_assoc)
        then show ?case using 2(1,2) by blast
      next
        case (3 g')
        then show ?case unfolding A' using C(2) P(2) fr by simp
      qed
    qed
  qed
qed

end

end
