(* ===== verification/MemoryProps.thy ===== *)
theory MemoryProps
  imports EasyMapProofs GlobalMapProps
begin

text \<open>
  The properties of the temporary mappings and of the mapping methods of the physical
  allocators, instantiated on the kernel's map of the global-map properties.
\<close>

section \<open>Temporary mappings\<close>

text \<open>
  C13. An EasyMap of any range of physical memory, aligned or not, makes byte i of the range
  visible at GetStart plus i, for every i below the size, and keeps every translation that
  was there. It fails only by its own panic, the panics of the page table, or the alignment
  assertion that Map can run into.
\<close>

theorem EasyMap_shows_range:
  assumes "page_source (al_Alloc (allocator (pageTable g))) ainv taken" and "gm_ok ainv taken c g"
    and "0 < sz" and "unat sz \<le> 2 ^ 38" and "unat start + unat sz \<le> 2 ^ 52"
  shows "(\<exists>flt \<in> {AssertFail ''!(addr % size)'', Panic ''EasyMap() - failed to map memory''} \<union> set_panics.
      EasyMap_new c g start sz = Inl flt) \<or>
    (\<exists>m g'. EasyMap_new c g start sz = Inr (m, g') \<and> gm_ok ainv taken c g'
       \<and> (\<forall>i. i < sz \<longrightarrow> mmu_translate (pmem (mach g')) (cr3 (mach g')) (GetStart m + i) = Some (start + i))
       \<and> (\<forall>va. canonical va \<longrightarrow> va < UserEnd \<longrightarrow> mmu_translate (pmem (mach g)) (cr3 (mach g)) va \<noteq> None \<longrightarrow>
            mmu_translate (pmem (mach g')) (cr3 (mach g')) va = mmu_translate (pmem (mach g)) (cr3 (mach g)) va))"
  by (rule page_source.EasyMap_new_ok [OF assms(1) refl assms(2-5)])

theorem EasyMap_shows_range_witness:
  "\<exists>m g'. EasyMap_new ex_crit ex_gmap 0xfee00abc 0x1000 = Inr (m, g')
    \<and> mmu_translate (pmem (mach g')) (cr3 (mach g')) (GetStart m + 0x777) = Some 0xfee01233"
proof -
  have "case EasyMap_new ex_crit ex_gmap 0xfee00abc 0x1000 of Inr _ \<Rightarrow> True | _ \<Rightarrow> False"
    by code_simp
  then obtain m g' where r: "EasyMap_new ex_crit ex_gmap 0xfee00abc 0x1000 = Inr (m, g')"
    by (auto split: sum.splits)
  from EasyMap_shows_range [OF ex_gm_source ex_gm_ok, of "0x1000" "0xfee00abc"]
  have "\<forall>i :: u64. i < 0x1000 \<longrightarrow> mmu_translate (pmem (mach g')) (cr3 (mach g')) (GetStart m + i) = Some (0xfee00abc + i)"
    unfolding r by simp
  from this [rule_format, of "0x777"] r show ?thesis by simp
qed

section \<open>Allocated and mapped memory\<close>



section \<open>Giving mapped memory back\<close>

text \<open>
  C37. Allocator::FreeAndUnmap gives the wrong address to Free: for a single page it reads
  the page's physical address, unmaps the page, and then frees the virtual address, where
  FreeAndUnmapContiguous frees the physical one.
\<close>

theorem FreeAndUnmap_frees_virtual:
  assumes "GlobalMap_Read c g addr = Inr (Some (phys, attrs), pgSize)" and "0 < sz" and "sz \<le> pgSize"
    and "GlobalMap_Unmap c g addr \<lparr>pageSize = pgSize, pageCount = 1\<rparr> = Inr g1"
  shows "FreeAndUnmap c g addr sz = gm_Free addr g1
    \<and> FreeAndUnmapContiguous c g addr sz = gm_Free phys g1"
proof -
  have n: "sz \<noteq> 0" "pgSize \<noteq> 0" using assms(2,3) by auto
  have "page_count sz pgSize = 1"
  proof (cases "sz = pgSize")
    case True
    then show ?thesis using n by (simp add: page_count_def word_unat_eq_iff unat_div unat_mod)
  next
    case False
    then have lt: "unat sz < unat pgSize" using assms(3) by (simp add: word_le_nat_alt word_unat_eq_iff)
    then have "sz div pgSize = 0" "sz mod pgSize = sz"
      by (simp_all add: word_unat_eq_iff unat_div unat_mod)
    then show ?thesis using n by (simp add: page_count_def)
  qed
  then show ?thesis
    using assms(1,3,4) n
    by (simp add: FreeAndUnmap_def GetCapabilities_def FreeAndUnmap_loop.simps [of c addr sz g]
        FreeAndUnmapContiguous_def) (cases "gm_Free addr g1", simp_all)
qed

text \<open>An allocator that records what is given back to it, behind one page at 0x400000.\<close>

definition ex_recorder :: "u64 list allocator_ops" where
  "ex_recorder = \<lparr>al_Alloc = (\<lambda>l _ _. Inr (None, l)), al_Free = (\<lambda>l a. Inr (a # l)),
     al_Owns = (\<lambda>_ _. Inr True), al_Used = (\<lambda>_. Inr 0), al_Available = (\<lambda>_. Inr 0), al_Total = (\<lambda>_. Inr 0)\<rparr>"

definition ex_mapped_one :: "u64 list gmap" where
  "ex_mapped_one = \<lparr>pageTable = \<lparr>allocator = ex_recorder, pml4 = 0x2000\<rparr>, freeFinder = ex_finder, gm_pdpt = 0x3000,
     mach = \<lparr>pmem = (\<lambda>a. if a = 0x2ff8 then 0x2003 else if a = 0x2000 then 0x3003
       else if a = 0x3000 then 0x4003 else if a = 0x4010 then 0x5003
       else if a = 0x5000 then 0x7003 else if a = 0x5008 then 0x8003 else 0),
       cr3 = 0x2000, alst = [], invlpgs = []\<rparr>, tlbInitialized = False, currentMap = None\<rparr>"

theorem FreeAndUnmap_frees_virtual_witness:
  "\<exists>g g'. FreeAndUnmap ex_crit ex_mapped_one 0x400000 0x1000 = Inr g \<and> alst (mach g) = [0x400000]
    \<and> FreeAndUnmapContiguous ex_crit ex_mapped_one 0x400000 0x1000 = Inr g' \<and> alst (mach g') = [0x7000]"
proof -
  have "case GlobalMap_Read ex_crit ex_mapped_one 0x400000 of
      Inr (Some (p, _), sz) \<Rightarrow> p = 0x7000 \<and> sz = 0x1000 | _ \<Rightarrow> False"
    by code_simp
  then obtain a where r: "GlobalMap_Read ex_crit ex_mapped_one 0x400000 = Inr (Some (0x7000, a), 0x1000)"
    by (auto split: sum.splits prod.splits option.splits)
  have "case GlobalMap_Unmap ex_crit ex_mapped_one 0x400000 \<lparr>pageSize = 0x1000, pageCount = 1\<rparr> of
      Inr g \<Rightarrow> alst (mach g) = [] | _ \<Rightarrow> False"
    by code_simp
  then obtain g1 where u: "GlobalMap_Unmap ex_crit ex_mapped_one 0x400000 \<lparr>pageSize = 0x1000, pageCount = 1\<rparr> = Inr g1"
    "alst (mach g1) = []"
    by (auto split: sum.splits)
  have "allocator (pageTable g1) = ex_recorder"
    using u(1) by (auto simp: GlobalMap_Unmap_def gm_unset_def gm_Invlpg_def ex_mapped_one_def)
  then have "gm_Free x g1 = Inr (g1\<lparr>mach := (mach g1)\<lparr>alst := [x]\<rparr>\<rparr>)" for x
    using u(2) by (simp add: gm_Free_def free_frame_def GetAllocator_def ex_recorder_def)
  then show ?thesis
    using FreeAndUnmap_frees_virtual [OF r _ _ u(1), of "0x1000"] by simp
qed

end
