(* ===== verification/Tlb.thy ===== *)
theory Tlb
  imports PageTable
begin

unbundle bit_operations_syntax

text \<open>
  Translation caches (\<^verbatim>\<open>src/arch/x64/vmm/tlb.cpp\<close>): what a CPU does to its own TLB, and the
  protocol that makes the other CPUs do it too. A TLB is the set of the small pages it
  holds, each with the bit that marks a global translation: reloading CR3 keeps those,
  toggling CR4.PGE drops everything.
\<close>

section \<open>One CPU\<close>

type_synonym tlb = "(VirtAddr \<times> bool) set"

definition invlpg_insn :: "VirtAddr \<Rightarrow> tlb \<Rightarrow> tlb" where
  "invlpg_insn addr t = Set.filter (\<lambda>(p, glob). p \<noteq> addr AND NOT 0xfff) t"

definition reload_cr3 :: "tlb \<Rightarrow> tlb" where
  "reload_cr3 t = Set.filter snd t"

definition toggle_pge :: "tlb \<Rightarrow> tlb" where
  "toggle_pge t = {}"

definition Invlpg :: "crit \<Rightarrow> VirtAddr \<Rightarrow> tlb \<Rightarrow> tlb res" where
  "Invlpg c addr t = bindE (AssertCritical c) (\<lambda>_. Inr (invlpg_insn addr t))"

text \<open>
  The loop of \<^verbatim>\<open>Invlpgs\<close>; its address wraps around, so it may not end, which is the value
  None.
\<close>

partial_function (option) invlpg_loop :: "VirtAddr \<Rightarrow> VirtAddr \<Rightarrow> tlb \<Rightarrow> tlb option" where
  "invlpg_loop addr stop t =
     (if addr < stop then invlpg_loop (addr + 0x1000) stop (invlpg_insn addr t) else Some t)"

definition Invlpgs :: "crit \<Rightarrow> VirtAddr \<Rightarrow> u64 \<Rightarrow> tlb \<Rightarrow> tlb res option" where
  "Invlpgs c start sz t =
     (if \<not> (IgnoreCriticality c \<or> GetCritical c) then Some (Inl (AssertFail ''AssertCritical''))
      else if sz > 0x200000 then
        Some (Inr (if start + sz < KernelEnd then toggle_pge t else reload_cr3 t))
      else map_option Inr (invlpg_loop start (start + sz) t))"

section \<open>All CPUs\<close>

text \<open>
  The CPU that distributes goes through the CPUs of the domain, sends an interrupt to each
  target and then counts it; the handler of a target flushes and then takes its count back.
  The counter is the atomic \<^verbatim>\<open>ipiCount\<close>.
\<close>

datatype sender = Sending nat | Counting nat | Waiting | Returned

datatype handler = Idle | Interrupted | Flushed | Handled

record shootdown =
  sd_sender :: sender
  sd_handler :: "nat \<Rightarrow> handler"
  sd_tlb :: "nat \<Rightarrow> tlb"
  sd_count :: int

text \<open>
  The CPUs, their address spaces, the one that distributes, and the request, which stay the
  same while the lock is held.
\<close>

record request =
  rq_cpus :: nat
  rq_current :: nat
  rq_map :: "nat \<Rightarrow> nat option"
  rq_start :: VirtAddr
  rq_size :: u64

text \<open>\<^verbatim>\<open>DistributeKernel\<close> asks every other CPU, \<^verbatim>\<open>DistributeUser\<close> those in the same address space.\<close>

definition is_target :: "request \<Rightarrow> nat \<Rightarrow> bool" where
  "is_target q j \<longleftrightarrow> j < rq_cpus q \<and> j \<noteq> rq_current q
     \<and> (rq_start q < KernelEnd \<or> rq_map q j = rq_map q (rq_current q))"

definition in_request :: "request \<Rightarrow> VirtAddr \<Rightarrow> bool" where
  "in_request q p \<longleftrightarrow> unat (rq_start q) \<le> unat p \<and> unat p < unat (rq_start q) + unat (rq_size q)"

text \<open>
  \<^verbatim>\<open>WillSetAddressSpace\<close> records the address space of the current CPU, None for the global
  map.
\<close>

definition WillSetAddressSpace ::
    "crit \<Rightarrow> bool \<Rightarrow> nat \<Rightarrow> nat option \<Rightarrow> (nat \<Rightarrow> nat option) \<Rightarrow> (nat \<Rightarrow> nat option) res" where
  "WillSetAddressSpace c initialized current m maps =
     bindE (AssertCritical c) (\<lambda>_. Inr (if initialized then maps(current := m) else maps))"

text \<open>
  \<^verbatim>\<open>DistributeInvlpg\<close> up to its loop: before the module is initialised only the CPU's own TLB
  is flushed (\<open>Inl\<close>), afterwards the distribution starts (\<open>Inr\<close>). The first component is the
  state of the CPU's flags inside the critical section.
\<close>

definition Tlb_DistributeInvlpg ::
    "crit \<Rightarrow> bool \<Rightarrow> request \<Rightarrow> (nat \<Rightarrow> tlb) \<Rightarrow> (crit \<times> ((nat \<Rightarrow> tlb) + shootdown)) res option" where
  "Tlb_DistributeInvlpg c initialized q tlbs =
     (case AssertNoncritical c of
        Inl flt \<Rightarrow> Some (Inl flt)
      | Inr _ \<Rightarrow>
          let c' = snd (ScopedCritical_new c) in
          case Invlpgs c' (rq_start q) (rq_size q) (tlbs (rq_current q)) of
            None \<Rightarrow> None
          | Some (Inl flt) \<Rightarrow> Some (Inl flt)
          | Some (Inr t) \<Rightarrow>
              let tlbs' = tlbs(rq_current q := t) in
              Some (Inr (c', if \<not> initialized then Inl tlbs'
                else Inr \<lparr>sd_sender = Sending 0, sd_handler = (\<lambda>_. Idle), sd_tlb = tlbs', sd_count = 0\<rparr>)))"

text \<open>
  One step of some CPU. The page tables were changed before the call, so a TLB can be filled
  with any page but those of the request; handlers run with interrupts off.
\<close>

inductive sd_step :: "request \<Rightarrow> crit \<Rightarrow> shootdown \<Rightarrow> shootdown \<Rightarrow> bool" for q c where
  skip: "sd_sender s = Sending j \<Longrightarrow> j < rq_cpus q \<Longrightarrow> \<not> is_target q j \<Longrightarrow>
    sd_step q c s (s\<lparr>sd_sender := Sending (Suc j)\<rparr>)"
| send: "sd_sender s = Sending j \<Longrightarrow> is_target q j \<Longrightarrow>
    sd_step q c s (s\<lparr>sd_sender := Counting j, sd_handler := (sd_handler s)(j := Interrupted)\<rparr>)"
| count: "sd_sender s = Counting j \<Longrightarrow>
    sd_step q c s (s\<lparr>sd_sender := Sending (Suc j), sd_count := sd_count s + 1\<rparr>)"
| wait: "sd_sender s = Sending j \<Longrightarrow> j = rq_cpus q \<Longrightarrow> sd_step q c s (s\<lparr>sd_sender := Waiting\<rparr>)"
| leave: "sd_sender s = Waiting \<Longrightarrow> sd_count s = 0 \<Longrightarrow> sd_step q c s (s\<lparr>sd_sender := Returned\<rparr>)"
| flush: "sd_handler s j = Interrupted \<Longrightarrow> Invlpgs c (rq_start q) (rq_size q) (sd_tlb s j) = Some (Inr t) \<Longrightarrow>
    sd_step q c s (s\<lparr>sd_handler := (sd_handler s)(j := Flushed), sd_tlb := (sd_tlb s)(j := t)\<rparr>)"
| discount: "sd_handler s j = Flushed \<Longrightarrow>
    sd_step q c s (s\<lparr>sd_handler := (sd_handler s)(j := Handled), sd_count := sd_count s - 1\<rparr>)"
| fill: "\<not> in_request q p \<Longrightarrow> p AND 0xfff = 0 \<Longrightarrow> (glob \<longrightarrow> p < KernelEnd) \<Longrightarrow>
    sd_step q c s (s\<lparr>sd_tlb := (sd_tlb s)(j := insert (p, glob) (sd_tlb s j))\<rparr>)"

inductive sd_reach :: "request \<Rightarrow> crit \<Rightarrow> shootdown \<Rightarrow> shootdown \<Rightarrow> bool" for q c s where
  sd_refl: "sd_reach q c s s"
| sd_next: "sd_reach q c s t \<Longrightarrow> sd_step q c t u \<Longrightarrow> sd_reach q c s u"

section \<open>Flushing one TLB\<close>

text \<open>What a TLB holds: page addresses, global ones only for the kernel's half.\<close>

definition tlb_ok :: "tlb \<Rightarrow> bool" where
  "tlb_ok t \<longleftrightarrow> (\<forall>p glob. (p, glob) \<in> t \<longrightarrow> p AND 0xfff = 0 \<and> (glob \<longrightarrow> p < KernelEnd))"

definition clean :: "request \<Rightarrow> tlb \<Rightarrow> bool" where
  "clean q t \<longleftrightarrow> (\<forall>p glob. (p, glob) \<in> t \<longrightarrow> \<not> in_request q p)"

text \<open>
  The requests that a flush serves in full: page aligned, away from the end of the address
  space, and, when the whole TLB is flushed, on one side of the kernel's end.
\<close>

definition rq_ok :: "request \<Rightarrow> bool" where
  "rq_ok q \<longleftrightarrow> rq_start q AND 0xfff = 0 \<and> unat (rq_start q) + unat (rq_size q) + 0x1000 \<le> 2 ^ 64
     \<and> (rq_size q \<le> 0x200000 \<or> rq_start q + rq_size q < KernelEnd \<or> KernelEnd \<le> rq_start q)"

lemma aligned_unat: "x AND 0xfff = 0 \<longleftrightarrow> unat x mod 0x1000 = 0" for x :: u64
proof -
  have "x AND 0xfff = take_bit 12 x" by (simp add: take_bit_eq_mask mask_eq_exp_minus_1)
  then have "unat (x AND 0xfff) = unat x mod 0x1000"
    by (simp add: unsigned_take_bit_eq) (simp add: take_bit_eq_mod)
  then show ?thesis by (metis unat_eq_0)
qed

lemma aligned_and: "x AND 0xfff = 0 \<Longrightarrow> x AND NOT 0xfff = x" for x :: u64
proof -
  assume "x AND 0xfff = 0"
  moreover have "x = (x AND NOT 0xfff) OR (x AND 0xfff)"
    by (rule bit_word_eqI) (auto simp: bit_simps)
  ultimately show ?thesis by simp
qed

lemma invlpg_loop_exact:
  "a AND 0xfff = 0 \<Longrightarrow> tlb_ok t \<Longrightarrow> unat stop \<le> unat a + m * 0x1000 \<Longrightarrow> unat stop + 0x1000 \<le> 2 ^ 64 \<Longrightarrow>
    invlpg_loop a stop t = Some (Set.filter (\<lambda>(p, glob). \<not> (a \<le> p \<and> p < stop)) t)"
proof (induction m arbitrary: a t)
  case 0
  then have "\<not> a < stop" by (simp add: word_less_nat_alt)
  then show ?case
    by (subst invlpg_loop.simps) (auto simp: Set.filter_eq dest: order_le_less_trans)
next
  case (Suc m)
  show ?case
  proof (cases "a < stop")
    case False
    then show ?thesis
      by (subst invlpg_loop.simps) (auto simp: Set.filter_eq dest: order_le_less_trans)
  next
    case True
    then have lt: "unat a < unat stop" by (simp add: word_less_nat_alt)
    have nx: "unat (a + 0x1000) = unat a + 0x1000"
      using lt Suc.prems(4) by (subst unat_add_lem [THEN iffD1]) simp_all
    let ?t = "invlpg_insn a t"
    have al: "(a + 0x1000) AND 0xfff = 0" using Suc.prems(1) nx by (simp add: aligned_unat)
    have ok: "tlb_ok ?t" using Suc.prems(2) by (auto simp: tlb_ok_def invlpg_insn_def Set.filter_eq)
    have le: "unat stop \<le> unat (a + 0x1000) + m * 0x1000" using Suc.prems(3) nx by simp
    have next_page: "a + 0x1000 \<le> p" if p: "(p, glob) \<in> t" "p \<noteq> a" "a \<le> p" for p glob
    proof -
      have "unat p mod 0x1000 = 0" "unat a mod 0x1000 = 0"
        using Suc.prems(1,2) p(1) by (auto simp: tlb_ok_def aligned_unat [symmetric])
      moreover have "unat a < unat p" using p(2,3) by (simp add: word_le_nat_alt word_unat_eq_iff)
      ultimately show ?thesis by (simp add: word_le_nat_alt nx mod_eq_0_iff_dvd) (auto elim!: dvdE)
    qed
    have an: "a AND - 0x1000 = a" using aligned_and [OF Suc.prems(1)] by simp
    have st: "a \<le> a + 0x1000" by (simp add: word_le_nat_alt nx)
    have "invlpg_loop a stop t = Some (Set.filter (\<lambda>(p, glob). \<not> (a + 0x1000 \<le> p \<and> p < stop)) ?t)"
      using Suc.IH [OF al ok le Suc.prems(4)] True by (subst invlpg_loop.simps) simp
    also have "Set.filter (\<lambda>(p, glob). \<not> (a + 0x1000 \<le> p \<and> p < stop)) ?t
        = Set.filter (\<lambda>(p, glob). \<not> (a \<le> p \<and> p < stop)) t"
      using next_page st True an
      by (auto simp: invlpg_insn_def Set.filter_eq dest: order_trans)
    finally show ?thesis .
  qed
qed

lemma filter_subset: "Set.filter P t \<subseteq> t"
  by (auto simp: Set.filter_eq)

text \<open>A flush returns, only drops entries, and drops every entry of the request.\<close>

lemma Invlpgs_ok:
  assumes q: "rq_ok q" and t: "tlb_ok t" and c: "GetCritical c"
  shows "\<exists>t'. Invlpgs c (rq_start q) (rq_size q) t = Some (Inr t') \<and> t' \<subseteq> t \<and> tlb_ok t' \<and> clean q t'"
proof -
  let ?a = "rq_start q" and ?n = "rq_size q"
  have lim: "unat ?a + unat ?n + 0x1000 \<le> 2 ^ 64" and al: "?a AND 0xfff = 0" using q by (simp_all add: rq_ok_def)
  have e: "unat (?a + ?n) = unat ?a + unat ?n" using lim by (subst unat_add_lem [THEN iffD1]) simp_all
  have sub: "t' \<subseteq> t \<Longrightarrow> tlb_ok t'" for t' using t by (auto simp: tlb_ok_def)
  have rq: "in_request q p \<longleftrightarrow> ?a \<le> p \<and> p < ?a + ?n" for p
    by (simp add: in_request_def word_le_nat_alt word_less_nat_alt e)
  show ?thesis
  proof (cases "?n > 0x200000")
    case False
    have s: "unat (?a + ?n) + 0x1000 \<le> 2 ^ 64" "unat (?a + ?n) \<le> unat ?a + unat ?n * 0x1000" using lim e by simp_all
    from invlpg_loop_exact [OF al t s(2,1)]
    have "Invlpgs c ?a ?n t = Some (Inr (Set.filter (\<lambda>(p, glob). \<not> in_request q p) t))"
      using False c unfolding rq by (simp add: Invlpgs_def)
    then show ?thesis using sub filter_subset by (fastforce simp: clean_def Set.filter_eq)
  next
    case True
    then consider "?a + ?n < KernelEnd" | "\<not> ?a + ?n < KernelEnd" "KernelEnd \<le> ?a"
      using q by (auto simp: rq_ok_def)
    then show ?thesis
    proof cases
      case 1
      then show ?thesis using True c by (simp add: Invlpgs_def toggle_pge_def clean_def tlb_ok_def)
    next
      case 2
      have "clean q (reload_cr3 t)"
        using t 2(2) unfolding clean_def reload_cr3_def Set.filter_eq rq tlb_ok_def
        by (auto dest: order_le_less_trans)
      then show ?thesis
        using 2(1) True c sub [of "reload_cr3 t"] filter_subset [of snd t]
        by (simp add: Invlpgs_def reload_cr3_def)
    qed
  qed
qed

section \<open>The protocol\<close>

definition targets :: "request \<Rightarrow> nat set" where
  "targets q = {i. is_target q i}"

definition sent :: "request \<Rightarrow> shootdown \<Rightarrow> nat set" where
  "sent q s = {i \<in> targets q. case sd_sender s of Sending j \<Rightarrow> i < j | Counting j \<Rightarrow> i \<le> j | _ \<Rightarrow> True}"

definition counted :: "request \<Rightarrow> shootdown \<Rightarrow> nat set" where
  "counted q s = {i \<in> targets q. case sd_sender s of Sending j \<Rightarrow> i < j | Counting j \<Rightarrow> i < j | _ \<Rightarrow> True}"

definition handled :: "shootdown \<Rightarrow> nat set" where
  "handled s = {i. sd_handler s i = Handled}"

definition sender_ok :: "request \<Rightarrow> sender \<Rightarrow> bool" where
  "sender_ok q x \<longleftrightarrow> (case x of Sending j \<Rightarrow> j \<le> rq_cpus q | Counting j \<Rightarrow> is_target q j | _ \<Rightarrow> True)"

definition sd_inv :: "request \<Rightarrow> shootdown \<Rightarrow> bool" where
  "sd_inv q s \<longleftrightarrow> (\<forall>i. sd_handler s i \<noteq> Idle \<longleftrightarrow> i \<in> sent q s)
     \<and> sd_count s = int (card (counted q s)) - int (card (handled s))
     \<and> (\<forall>i. sd_handler s i = Flushed \<or> sd_handler s i = Handled \<or> i = rq_current q \<longrightarrow> clean q (sd_tlb s i))
     \<and> (\<forall>i. tlb_ok (sd_tlb s i)) \<and> sender_ok q (sd_sender s)
     \<and> (sd_sender s = Returned \<longrightarrow> targets q \<subseteq> handled s)"

lemma finite_targets: "finite (targets q)"
  by (rule finite_subset [of _ "{..<rq_cpus q}"]) (auto simp: targets_def is_target_def)

lemma finite_sent: "finite (sent q s)" "finite (counted q s)"
  by (auto simp: sent_def counted_def intro: finite_subset [OF _ finite_targets])

lemma handled_sent: "sd_inv q s \<Longrightarrow> handled s \<subseteq> sent q s"
  by (auto simp: sd_inv_def handled_def)

lemma finite_handled: "sd_inv q s \<Longrightarrow> finite (handled s)"
  using handled_sent finite_sent(1) by (rule finite_subset)

lemma sd_invD:
  assumes "sd_inv q s"
  shows "sd_handler s i \<noteq> Idle \<longleftrightarrow> i \<in> sent q s"
    "sd_count s = int (card (counted q s)) - int (card (handled s))"
    "sd_handler s i = Flushed \<or> sd_handler s i = Handled \<or> i = rq_current q \<Longrightarrow> clean q (sd_tlb s i)"
    "tlb_ok (sd_tlb s i)" "sender_ok q (sd_sender s)"
    "sd_sender s = Returned \<Longrightarrow> targets q \<subseteq> handled s"
  using assms by (auto simp: sd_inv_def)

lemma not_target_current: "\<not> is_target q (rq_current q)"
  by (simp add: is_target_def)

lemma insert_fill: "\<not> in_request q p \<Longrightarrow> clean q t \<Longrightarrow> clean q (insert (p, glob) t)"
  "p AND 0xfff = 0 \<Longrightarrow> (glob \<longrightarrow> p < KernelEnd) \<Longrightarrow> tlb_ok t \<Longrightarrow> tlb_ok (insert (p, glob) t)"
  by (auto simp: clean_def tlb_ok_def)

lemma sd_inv_step:
  assumes I: "sd_inv q s" and st: "sd_step q c s s'" and q: "rq_ok q" and c: "GetCritical c"
  shows "sd_inv q s'"
  using st
proof (cases rule: sd_step.cases)
  case (skip j)
  have "sent q s' = sent q s" "counted q s' = counted q s" "handled s' = handled s"
    using skip by (auto simp: sent_def counted_def handled_def targets_def less_Suc_eq)
  then show ?thesis using I skip by (simp add: sd_inv_def sender_ok_def)
next
  case (send j)
  have e: "sent q s' = insert j (sent q s)" "counted q s' = counted q s"
    using send by (auto simp: sent_def counted_def targets_def)
  have "j \<notin> sent q s" using send by (simp add: sent_def)
  then have idle: "sd_handler s j = Idle" using sd_invD(1) [OF I] by blast
  then have h: "handled s' = handled s" using send by (auto simp: handled_def)
  show ?thesis using I send idle e h unfolding sd_inv_def by (auto simp: sender_ok_def)
next
  case (count j)
  have t: "is_target q j" using I count by (simp add: sd_inv_def sender_ok_def)
  have "counted q s' = insert j (counted q s)" "j \<notin> counted q s" "sent q s' = sent q s" "handled s' = handled s"
    using count t by (auto simp: counted_def sent_def handled_def targets_def less_Suc_eq)
  moreover have "Suc j \<le> rq_cpus q" using t by (simp add: is_target_def)
  ultimately show ?thesis
    using I count finite_sent(2) [of q s] by (simp add: sd_inv_def sender_ok_def)
next
  case (wait j)
  have "sent q s' = sent q s" "counted q s' = counted q s" "handled s' = handled s"
    using wait by (auto simp: sent_def counted_def handled_def targets_def is_target_def)
  then show ?thesis using I wait by (simp add: sd_inv_def sender_ok_def)
next
  case leave
  have e: "sent q s' = sent q s" "counted q s' = counted q s" "handled s' = handled s"
    using leave by (auto simp: sent_def counted_def handled_def)
  have all: "sent q s = targets q" "counted q s = targets q"
    using leave by (simp_all add: sent_def counted_def)
  have "card (targets q) = card (handled s)" using sd_invD(2) [OF I] all leave by simp
  then have "handled s = targets q"
    using card_seteq [OF finite_targets, of "handled s" q] handled_sent [OF I] all(1) by simp
  then show ?thesis using I leave e by (simp add: sd_inv_def sender_ok_def)
next
  case (flush j t)
  have e: "sent q s' = sent q s" "counted q s' = counted q s" "handled s' = handled s"
    using flush by (auto simp: sent_def counted_def handled_def)
  have "\<exists>t'. Invlpgs c (rq_start q) (rq_size q) (sd_tlb s j) = Some (Inr t') \<and> t' \<subseteq> sd_tlb s j \<and> tlb_ok t' \<and> clean q t'"
    by (rule Invlpgs_ok [OF q sd_invD(4) [OF I] c])
  then have "tlb_ok t" "clean q t" using flush by auto
  then show ?thesis using I flush e unfolding sd_inv_def by auto
next
  case (discount j)
  have e: "sent q s' = sent q s" "counted q s' = counted q s" "handled s' = insert j (handled s)" "j \<notin> handled s"
    using discount by (auto simp: sent_def counted_def handled_def)
  have cl: "clean q (sd_tlb s j)" using sd_invD(3) [OF I] discount by blast
  have k: "int (card (handled s')) = int (card (handled s)) + 1" using e finite_handled [OF I] by simp
  have sub: "handled s \<subseteq> handled s'" using e by blast
  show ?thesis
    using I discount e(1,2) k sub cl unfolding sd_inv_def by auto
next
  case (fill p glob j)
  have "sent q s' = sent q s" "counted q s' = counted q s" "handled s' = handled s"
    using fill by (auto simp: sent_def counted_def handled_def)
  then show ?thesis
    using I fill insert_fill unfolding sd_inv_def by auto
qed

lemma sd_inv_reach:
  "sd_reach q c s t \<Longrightarrow> sd_inv q s \<Longrightarrow> rq_ok q \<Longrightarrow> GetCritical c \<Longrightarrow> sd_inv q t"
  by (induction rule: sd_reach.induct) (auto dest: sd_inv_step)

lemma sd_reach_trans: "sd_reach q c t u \<Longrightarrow> sd_reach q c s t \<Longrightarrow> sd_reach q c s u"
  by (induction rule: sd_reach.induct) (auto intro: sd_reach.intros)

text \<open>The distribution starts in the invariant.\<close>

lemma scoped_critical: "GetCritical (snd (ScopedCritical_new c))"
  by (auto simp: crit_defs Let_def bit_unset_bit_iff)

lemma distribute_start:
  assumes q: "rq_ok q" and t: "\<And>i. tlb_ok (tlbs i)"
    and d: "Tlb_DistributeInvlpg c True q tlbs = Some (Inr (c', Inr s))"
  shows "sd_inv q s" "GetCritical c'"
proof -
  let ?c = "snd (ScopedCritical_new c)"
  obtain t' where T: "Invlpgs ?c (rq_start q) (rq_size q) (tlbs (rq_current q)) = Some (Inr t')" "tlb_ok t'" "clean q t'"
    using Invlpgs_ok [OF q t scoped_critical] by blast
  have s: "c' = ?c" "s = \<lparr>sd_sender = Sending 0, sd_handler = (\<lambda>_. Idle), sd_tlb = tlbs(rq_current q := t'), sd_count = 0\<rparr>"
    using d T(1) by (auto simp: Tlb_DistributeInvlpg_def Let_def split: sum.splits)
  show "GetCritical c'" using s scoped_critical by simp
  show "sd_inv q s" using T t by (simp add: s sd_inv_def sent_def counted_def handled_def sender_ok_def)
qed

section \<open>Progress\<close>

definition handler_left :: "handler \<Rightarrow> nat" where
  "handler_left h = (case h of Idle \<Rightarrow> 3 | Interrupted \<Rightarrow> 2 | Flushed \<Rightarrow> 1 | Handled \<Rightarrow> 0)"

definition sender_left :: "nat \<Rightarrow> sender \<Rightarrow> nat" where
  "sender_left n x = (case x of Sending j \<Rightarrow> 2 * (n - j) + 2 | Counting j \<Rightarrow> 2 * (n - j) + 1 | Waiting \<Rightarrow> 1 | Returned \<Rightarrow> 0)"

definition work_left :: "request \<Rightarrow> shootdown \<Rightarrow> nat" where
  "work_left q s = sender_left (rq_cpus q) (sd_sender s) + (\<Sum>i<rq_cpus q. handler_left (sd_handler s i))"

lemma handler_sum:
  fixes n :: nat
  assumes "j < n" "handler_left x < handler_left (h j)"
  shows "(\<Sum>i<n. handler_left ((h(j := x)) i)) < (\<Sum>i<n. handler_left (h i))"
  by (rule sum_strict_mono_ex1) (use assms in auto)

lemma sd_progress:
  assumes I: "sd_inv q s" and q: "rq_ok q" and c: "GetCritical c" and n: "sd_sender s \<noteq> Returned"
  shows "\<exists>s'. sd_step q c s s' \<and> work_left q s' < work_left q s"
proof (cases "sd_sender s")
  case (Sending j)
  have j: "j \<le> rq_cpus q" using I Sending by (simp add: sd_inv_def sender_ok_def)
  consider "j = rq_cpus q" | "j < rq_cpus q" "\<not> is_target q j" | "j < rq_cpus q" "is_target q j" using j by linarith
  then show ?thesis
  proof cases
    case 1
    then show ?thesis using sd_step.wait [OF Sending] Sending
      by (intro exI conjI) (assumption | simp add: work_left_def sender_left_def)+
  next
    case 2
    then show ?thesis using sd_step.skip [OF Sending] Sending
      by (intro exI conjI) (assumption | simp add: work_left_def sender_left_def)+
  next
    case 3
    have "j \<notin> sent q s" using Sending by (simp add: sent_def)
    then have "sd_handler s j = Idle" using sd_invD(1) [OF I] by blast
    then have "(\<Sum>i<rq_cpus q. handler_left (((sd_handler s)(j := Interrupted)) i)) < (\<Sum>i<rq_cpus q. handler_left (sd_handler s i))"
      using 3(1) by (intro handler_sum) (simp_all add: handler_left_def)
    then show ?thesis using sd_step.send [OF Sending 3(2), of c] Sending
      by (intro exI conjI) (assumption | simp add: work_left_def sender_left_def)+
  qed
next
  case (Counting j)
  have "j < rq_cpus q" using I Counting by (simp add: sd_inv_def sender_ok_def is_target_def)
  then show ?thesis using sd_step.count [OF Counting] Counting
    by (intro exI conjI) (assumption | simp add: work_left_def sender_left_def)+
next
  case Waiting
  show ?thesis
  proof (cases "sd_count s = 0")
    case True
    then show ?thesis using sd_step.leave [OF Waiting] Waiting
      by (intro exI conjI) (assumption | simp add: work_left_def sender_left_def)+
  next
    case False
    have all: "sent q s = targets q" "counted q s = targets q" using Waiting by (simp_all add: sent_def counted_def)
    have "handled s \<noteq> targets q" using False sd_invD(2) [OF I] all by auto
    then obtain j where j: "j \<in> targets q" "j \<notin> handled s" using handled_sent [OF I] all by blast
    then have n: "j < rq_cpus q" by (simp add: targets_def is_target_def)
    have "sd_handler s j \<noteq> Idle" "sd_handler s j \<noteq> Handled"
      using j all sd_invD(1) [OF I] by (auto simp: handled_def)
    then consider "sd_handler s j = Interrupted" | "sd_handler s j = Flushed" by (cases "sd_handler s j") auto
    then show ?thesis
    proof cases
      case 1
      obtain t where t: "Invlpgs c (rq_start q) (rq_size q) (sd_tlb s j) = Some (Inr t)"
        using Invlpgs_ok [OF q sd_invD(4) [OF I] c] by blast
      have "(\<Sum>i<rq_cpus q. handler_left (((sd_handler s)(j := Flushed)) i)) < (\<Sum>i<rq_cpus q. handler_left (sd_handler s i))"
        using n 1 by (intro handler_sum) (simp_all add: handler_left_def)
      then show ?thesis using sd_step.flush [OF 1 t]
        by (intro exI conjI) (assumption | simp add: work_left_def)+
    next
      case 2
      have "(\<Sum>i<rq_cpus q. handler_left (((sd_handler s)(j := Handled)) i)) < (\<Sum>i<rq_cpus q. handler_left (sd_handler s i))"
        using n 2 by (intro handler_sum) (simp_all add: handler_left_def)
      then show ?thesis using sd_step.discount [OF 2]
        by (intro exI conjI) (assumption | simp add: work_left_def)+
    qed
  qed
qed (use n in simp)

lemma sd_returns:
  "sd_inv q s \<Longrightarrow> rq_ok q \<Longrightarrow> GetCritical c \<Longrightarrow> \<exists>s'. sd_reach q c s s' \<and> sd_sender s' = Returned"
proof (induction "work_left q s" arbitrary: s rule: less_induct)
  case less
  show ?case
  proof (cases "sd_sender s = Returned")
    case True
    then show ?thesis using sd_reach.sd_refl by blast
  next
    case False
    then obtain s1 where s1: "sd_step q c s s1" "work_left q s1 < work_left q s"
      using sd_progress [OF less.prems] by blast
    from less.hyps [OF s1(2) sd_inv_step [OF less.prems(1) s1(1) less.prems(2,3)] less.prems(2,3)]
    obtain s' where "sd_reach q c s1 s'" "sd_sender s' = Returned" by blast
    then show ?thesis using sd_reach_trans sd_reach.intros s1(1) by blast
  qed
qed

end
