(* ===== verification/TlbProps.thy ===== *)
theory TlbProps
  imports Tlb
begin

text \<open>
  The properties of the TLB protocol, instantiated on two CPUs of which the first removes a
  kernel page.
\<close>


text \<open>
  C15. DistributeInvlpg cannot get stuck: from every state that the CPUs can reach while it
  runs they can reach one in which it has returned, so the busy loop on ipiCount is left
  whatever has happened before.
\<close>

theorem shootdown_can_return:
  assumes "rq_ok q" and "\<And>i. tlb_ok (tlbs i)"
    and "Tlb_DistributeInvlpg c True q tlbs = Some (Inr (c', Inr s0))" and "sd_reach q c' s0 s"
  shows "\<exists>s'. sd_reach q c' s s' \<and> sd_sender s' = Returned"
proof -
  note D = distribute_start [OF assms(1-3)]
  show ?thesis using sd_returns [OF sd_inv_reach [OF assms(4) D(1) assms(1) D(2)] assms(1) D(2)] .
qed

definition ex_request :: request where
  "ex_request = \<lparr>rq_cpus = 2, rq_current = 0, rq_map = (\<lambda>_. None), rq_start = 0x400000, rq_size = 0x1000\<rparr>"

definition ex_tlbs :: "nat \<Rightarrow> tlb" where
  "ex_tlbs i = {(0x400000, True), (0x401000, True)}"

definition ex_cpu_crit :: crit where
  "ex_cpu_crit = \<lparr>crit_initialized = True, rflags = 0x202\<rparr>"

lemma ex_request_ok: "rq_ok ex_request" "tlb_ok (ex_tlbs i)"
  by (simp_all add: rq_ok_def ex_request_def tlb_ok_def ex_tlbs_def KernelEnd_def)

lemma ex_distribute: "\<exists>c' s0. Tlb_DistributeInvlpg ex_cpu_crit True ex_request ex_tlbs = Some (Inr (c', Inr s0))"
proof -
  obtain t where "Invlpgs (snd (ScopedCritical_new ex_cpu_crit)) (rq_start ex_request) (rq_size ex_request)
      (ex_tlbs (rq_current ex_request)) = Some (Inr t)"
    using Invlpgs_ok [OF ex_request_ok scoped_critical] by blast
  moreover have "AssertNoncritical ex_cpu_crit = Inr ()"
    by (simp add: noncritical_def IgnoreCriticality_def GetCritical_def ex_cpu_crit_def)
  ultimately show ?thesis by (simp add: Tlb_DistributeInvlpg_def Let_def)
qed


theorem shootdown_can_return_witness:
  "\<exists>c' s0 s. Tlb_DistributeInvlpg ex_cpu_crit True ex_request ex_tlbs = Some (Inr (c', Inr s0))
    \<and> sd_reach ex_request c' s0 s \<and> sd_sender s = Returned"
proof -
  obtain c' s0 where d: "Tlb_DistributeInvlpg ex_cpu_crit True ex_request ex_tlbs = Some (Inr (c', Inr s0))"
    using ex_distribute by blast
  from shootdown_can_return [OF ex_request_ok d sd_reach.sd_refl] d show ?thesis by blast
qed

text \<open>
  C38. Invlpgs leaves stale kernel translations when a range larger than 2 MB ends exactly at
  the end of the kernel's half: the comparison with KernelEnd then picks the reload of CR3,
  and every global translation of the range survives it.
\<close>

theorem Invlpgs_keeps_global:
  assumes "GetCritical c" and "sz > 0x200000" and "start + sz = KernelEnd" and "(p, True) \<in> t"
  shows "\<exists>t'. Invlpgs c start sz t = Some (Inr t') \<and> (p, True) \<in> t'"
  using assms by (simp add: Invlpgs_def reload_cr3_def)

theorem Invlpgs_keeps_global_witness:
  "\<exists>t'. Invlpgs \<lparr>crit_initialized = True, rflags = 2\<rparr> 0x7FFFC00000 0x400000 {(0x7FFFD00000, True)} = Some (Inr t')
    \<and> (0x7FFFD00000, True) \<in> t'"
  by (rule Invlpgs_keeps_global) (simp_all add: GetCritical_def IgnoreCriticality_def KernelEnd_def)

end
