(* ===== verification/Hardware.thy ===== *)
theory Hardware
  imports Critical
begin

unbundle bit_operations_syntax

text \<open>
  The processor as the drivers see it (\<^verbatim>\<open>src/arch/x64/common.cpp\<close>), the legacy PIC
  (\<^verbatim>\<open>src/arch/x64/interrupts/pic.cpp\<close>) and the GS segment
  (\<^verbatim>\<open>src/arch/x64/segments/local-segment.cpp\<close>). The state holds the flags, the
  model-specific registers, the bytes written to ports, oldest first, and the descriptor
  table registers; what CPUID answers is a function of the state.
\<close>

section \<open>Port, MSR and CPUID access\<close>

record cpuid_result =
  id_ebx :: u32
  id_edx :: u32
  id_ecx :: u32

record hw =
  hw_crit :: crit
  msr :: "u32 \<Rightarrow> u64"
  ports :: "(u16 \<times> u8) list"
  cpuid :: "u32 \<Rightarrow> cpuid_result"
  gdtr :: "u16 \<times> u64"
  idtr :: "u16 \<times> u64"
  task_reg :: u16

definition critical :: "hw \<Rightarrow> bool" where
  "critical h \<longleftrightarrow> GetCritical (hw_crit h)"

lemma AssertCritical_ok [simp]: "critical h \<Longrightarrow> AssertCritical (hw_crit h) = Inr ()"
  by (simp add: AssertCritical_def critical_def)

lemma critical_update [simp]: "critical (h\<lparr>msr := m\<rparr>) = critical h" "critical (h\<lparr>ports := p\<rparr>) = critical h"
  "critical (h\<lparr>gdtr := g\<rparr>) = critical h" "critical (h\<lparr>idtr := g\<rparr>) = critical h"
  "critical (h\<lparr>task_reg := r\<rparr>) = critical h"
  by (simp_all add: critical_def)

text \<open>The interrupts masked around a piece of code that needs it.\<close>

definition with_critical :: "(hw \<Rightarrow> hw res) \<Rightarrow> hw \<Rightarrow> hw res" where
  "with_critical f h =
     (let (was, c) = ScopedCritical_new (hw_crit h)
      in bindE (f (h\<lparr>hw_crit := c\<rparr>)) (\<lambda>h. Inr (h\<lparr>hw_crit := ScopedCritical_del was (hw_crit h)\<rparr>)))"

lemma ScopedCritical_new_ok: "ScopedCritical_new c = (was, c') \<Longrightarrow> GetCritical c' \<and> ScopedCritical_del was c' = c"
  by (auto simp: crit_defs Let_def bit_unset_bit_iff rflags_sti_cli split: if_splits)

text \<open>The flags are restored when the enclosed code leaves them alone.\<close>

lemma with_critical_ok:
  assumes "\<And>h'. critical h' \<Longrightarrow> f h' = Inr (g h') \<and> hw_crit (g h') = hw_crit h'"
  shows "\<exists>c. GetCritical c \<and> with_critical f h = Inr ((g (h\<lparr>hw_crit := c\<rparr>))\<lparr>hw_crit := hw_crit h\<rparr>)"
proof -
  obtain was c where c: "ScopedCritical_new (hw_crit h) = (was, c)" by (cases "ScopedCritical_new (hw_crit h)")
  with ScopedCritical_new_ok [OF c] assms [of "h\<lparr>hw_crit := c\<rparr>"]
  show ?thesis by (intro exI [of _ c]) (simp add: with_critical_def critical_def)
qed

definition OutB :: "u16 \<Rightarrow> u8 \<Rightarrow> hw \<Rightarrow> hw res" where
  "OutB port byte h = bindE (AssertCritical (hw_crit h)) (\<lambda>_. Inr (h\<lparr>ports := ports h @ [(port, byte)]\<rparr>))"

text \<open>The order of the results is that of the parameters: \<^verbatim>\<open>ebx\<close>, \<^verbatim>\<open>edx\<close>, \<^verbatim>\<open>ecx\<close>.\<close>

definition CpuID :: "u32 \<Rightarrow> hw \<Rightarrow> (u32 \<times> u32 \<times> u32) res" where
  "CpuID eax h = bindE (AssertCritical (hw_crit h)) (\<lambda>_.
     let r = cpuid h eax in Inr (id_ebx r, id_edx r, id_ecx r))"

text \<open>\<^verbatim>\<open>rdmsr\<close> and \<^verbatim>\<open>wrmsr\<close> move the two halves of the register.\<close>

definition ReadMsr :: "u32 \<Rightarrow> hw \<Rightarrow> u64 res" where
  "ReadMsr cell h = bindE (AssertCritical (hw_crit h)) (\<lambda>_.
     let higher = drop_bit 32 (msr h cell); lower = msr h cell AND mask 32
     in Inr (push_bit 0x20 higher OR lower))"

definition WriteMsr :: "u32 \<Rightarrow> u64 \<Rightarrow> hw \<Rightarrow> hw res" where
  "WriteMsr cell val h = bindE (AssertCritical (hw_crit h)) (\<lambda>_.
     let lower = val AND 0xffffffff; higher = drop_bit 0x20 val
     in Inr (h\<lparr>msr := (msr h)(cell := push_bit 32 higher OR lower)\<rparr>))"

lemma halves: "push_bit 32 (drop_bit 32 x) OR (x AND mask 32) = x" for x :: u64
  by (rule bit_word_eqI) (auto simp: bit_simps)

lemma halves_hex: "push_bit 32 (drop_bit 32 x) OR (x AND 0xffffffff) = x" for x :: u64
  using halves [of x] by (simp add: mask_eq_exp_minus_1)

lemma msr_rw [simp]:
  "critical h \<Longrightarrow> ReadMsr cell h = Inr (msr h cell)"
  "critical h \<Longrightarrow> WriteMsr cell v h = Inr (h\<lparr>msr := (msr h)(cell := v)\<rparr>)"
  by (simp_all add: ReadMsr_def WriteMsr_def Let_def halves halves_hex)

section \<open>The legacy PIC\<close>

definition IOWait :: "hw \<Rightarrow> hw res" where
  "IOWait = OutB 0x80 0"

definition PIC1_COMMAND :: u16 where "PIC1_COMMAND = 0x20"
definition PIC1_DATA :: u16 where "PIC1_DATA = 0x21"
definition PIC2_COMMAND :: u16 where "PIC2_COMMAND = 0xa0"
definition PIC2_DATA :: u16 where "PIC2_DATA = 0xa1"

fun out_wait :: "(u16 \<times> u8) list \<Rightarrow> hw \<Rightarrow> hw res" where
  "out_wait [] h = Inr h"
| "out_wait ((port, byte) # rest) h = bindE (OutB port byte h) (\<lambda>h. bindE (IOWait h) (out_wait rest))"

definition Pic_Remap :: "u8 \<Rightarrow> u8 \<Rightarrow> u8 \<Rightarrow> u8 \<Rightarrow> hw \<Rightarrow> hw res" where
  "Pic_Remap masterBase slaveBase masterMask slaveMask h =
     bindE (out_wait [(PIC1_COMMAND, 0x10 + 0x01), (PIC2_COMMAND, 0x10 + 0x01), (PIC1_DATA, masterBase),
       (PIC2_DATA, slaveBase), (PIC1_DATA, 4), (PIC2_DATA, 2), (PIC1_DATA, 0x01), (PIC2_DATA, 0x01)] h) (\<lambda>h.
     bindE (OutB PIC1_DATA masterMask h) (OutB PIC2_DATA slaveMask))"

definition Pic_Initialize :: "hw \<Rightarrow> hw res" where
  "Pic_Initialize = Pic_Remap 0xf0 0xf8 0xff 0xff"

text \<open>
  An 8259 pair, as its data sheet describes it: after a command byte with the
  initialisation bit the next three data bytes are the vector base, the cascade setting and
  the mode, later ones the mask. A port maps to the master (False) or the slave (True).
\<close>

record pic8259 =
  pic_left :: nat
  pic_base :: u8
  pic_cascade :: u8
  pic_mode :: u8
  pic_mask :: u8

definition pic_command :: "u8 \<Rightarrow> pic8259 \<Rightarrow> pic8259" where
  "pic_command b p = (if bit b 4 then p\<lparr>pic_left := 3\<rparr> else p)"

definition pic_data :: "u8 \<Rightarrow> pic8259 \<Rightarrow> pic8259" where
  "pic_data b p =
     (if pic_left p = 3 then p\<lparr>pic_left := 2, pic_base := b\<rparr>
      else if pic_left p = 2 then p\<lparr>pic_left := 1, pic_cascade := b\<rparr>
      else if pic_left p = 1 then p\<lparr>pic_left := 0, pic_mode := b\<rparr>
      else p\<lparr>pic_mask := b\<rparr>)"

definition pic_port :: "u16 \<Rightarrow> u8 \<Rightarrow> pic8259 \<times> pic8259 \<Rightarrow> pic8259 \<times> pic8259" where
  "pic_port port b p =
     (if port = 0x20 then (pic_command b (fst p), snd p)
      else if port = 0x21 then (pic_data b (fst p), snd p)
      else if port = 0xa0 then (fst p, pic_command b (snd p))
      else if port = 0xa1 then (fst p, pic_data b (snd p))
      else p)"

definition pic_run :: "(u16 \<times> u8) list \<Rightarrow> pic8259 \<times> pic8259 \<Rightarrow> pic8259 \<times> pic8259" where
  "pic_run = fold (\<lambda>(port, b). pic_port port b)"

lemma Pic_Remap_ports:
  "critical h \<Longrightarrow> Pic_Remap mb sb mm sm h = Inr (h\<lparr>ports := ports h @
     [(0x20, 0x11), (0x80, 0), (0xa0, 0x11), (0x80, 0), (0x21, mb), (0x80, 0), (0xa1, sb), (0x80, 0),
      (0x21, 4), (0x80, 0), (0xa1, 2), (0x80, 0), (0x21, 1), (0x80, 0), (0xa1, 1), (0x80, 0),
      (0x21, mm), (0xa1, sm)]\<rparr>)"
  by (simp add: Pic_Remap_def OutB_def IOWait_def PIC1_COMMAND_def PIC2_COMMAND_def PIC1_DATA_def PIC2_DATA_def)

text \<open>
  Pic::Remap programs both controllers whatever state they were in: run on a model of
  the 8259 pair, the bytes it writes leave the master and the slave with the given vector
  bases, the cascade on line 2, 8086 mode and the given masks, and no initialisation word
  outstanding.
\<close>

lemma Pic_Remap_programs:
  assumes "critical h" and "ports h = []"
  shows "\<exists>h'. Pic_Remap mb sb mm sm h = Inr h' \<and> pic_run (ports h') p =
    (\<lparr>pic_left = 0, pic_base = mb, pic_cascade = 4, pic_mode = 1, pic_mask = mm\<rparr>,
     \<lparr>pic_left = 0, pic_base = sb, pic_cascade = 2, pic_mode = 1, pic_mask = sm\<rparr>)"
  using assms
  by (simp add: Pic_Remap_ports pic_run_def pic_port_def pic_command_def pic_data_def bit_numeral_rec)

definition ex_hw :: hw where
  "ex_hw = \<lparr>hw_crit = \<lparr>crit_initialized = True, rflags = 2\<rparr>, msr = (\<lambda>_. 0), ports = [],
     cpuid = (\<lambda>_. \<lparr>id_ebx = 0, id_edx = 0, id_ecx = 0\<rparr>),
     gdtr = (0, 0), idtr = (0, 0), task_reg = 0\<rparr>"

lemma ex_hw_critical: "critical ex_hw"
  by (simp add: critical_def ex_hw_def GetCritical_def IgnoreCriticality_def)

lemma Pic_Remap_programs_example:
  "\<exists>h'. Pic_Remap 0xf0 0xf8 0xff 0xff ex_hw = Inr h' \<and> pic_base (fst (pic_run (ports h')
      (\<lparr>pic_left = 0, pic_base = 8, pic_cascade = 0, pic_mode = 0, pic_mask = 0\<rparr>,
       \<lparr>pic_left = 2, pic_base = 0x70, pic_cascade = 0, pic_mode = 0, pic_mask = 0\<rparr>))) = 0xf0"
proof -
  have "ports ex_hw = []" by (simp add: ex_hw_def)
  from Pic_Remap_programs [OF ex_hw_critical this, of "0xf0" "0xf8" "0xff" "0xff"
      "(\<lparr>pic_left = 0, pic_base = 8, pic_cascade = 0, pic_mode = 0, pic_mask = 0\<rparr>,
       \<lparr>pic_left = 2, pic_base = 0x70, pic_cascade = 0, pic_mode = 0, pic_mask = 0\<rparr>)"]
  obtain h' where "Pic_Remap 0xf0 0xf8 0xff 0xff ex_hw = Inr h'" and
    "pic_run (ports h') (\<lparr>pic_left = 0, pic_base = 8, pic_cascade = 0, pic_mode = 0, pic_mask = 0\<rparr>,
       \<lparr>pic_left = 2, pic_base = 0x70, pic_cascade = 0, pic_mode = 0, pic_mask = 0\<rparr>)
     = (\<lparr>pic_left = 0, pic_base = 0xf0, pic_cascade = 4, pic_mode = 1, pic_mask = 0xff\<rparr>,
        \<lparr>pic_left = 0, pic_base = 0xf8, pic_cascade = 2, pic_mode = 1, pic_mask = 0xff\<rparr>)" by blast
  then show ?thesis by (intro exI [of _ h']) simp
qed

section \<open>The GS segment\<close>

text \<open>\<^verbatim>\<open>swapgs\<close> exchanges the base of GS with the register that keeps the kernel's.\<close>

definition gs_base :: "hw \<Rightarrow> u64" where
  "gs_base h = msr h 0xc0000101"

definition LocalSegment_Swap :: "hw \<Rightarrow> hw res" where
  "LocalSegment_Swap h = bindE (AssertCritical (hw_crit h)) (\<lambda>_.
     Inr (h\<lparr>msr := (msr h)(0xc0000101 := msr h 0xc0000102, 0xc0000102 := msr h 0xc0000101)\<rparr>))"

definition LocalSegment_Read :: "hw \<Rightarrow> u64 res" where
  "LocalSegment_Read h = bindE (AssertCritical (hw_crit h)) (\<lambda>_. ReadMsr 0xc0000101 h)"

definition LocalSegment_Write :: "u64 \<Rightarrow> hw \<Rightarrow> hw res" where
  "LocalSegment_Write val h = bindE (AssertCritical (hw_crit h)) (\<lambda>_. WriteMsr 0xc0000101 val h)"

record isr_stack =
  st_rip :: u64
  st_cs :: u64
  st_rflags :: u64
  st_rsp :: u64
  st_ss :: u64

text \<open>The constructor returns \<^verbatim>\<open>didSwap\<close>, which the destructor reads.\<close>

definition SwapScope_new :: "u8 \<Rightarrow> isr_stack \<Rightarrow> hw \<Rightarrow> (bool \<times> hw) res" where
  "SwapScope_new vector stack h =
     bindE (if vector \<noteq> 0x2 \<and> vector \<noteq> 0x12 then Inr (st_cs stack AND 3 \<noteq> 0)
            else bindE (LocalSegment_Read h) (\<lambda>v. Inr (v = 0))) (\<lambda>didSwap.
       if didSwap then bindE (LocalSegment_Swap h) (\<lambda>h. Inr (True, h)) else Inr (False, h))"

definition SwapScope_del :: "bool \<Rightarrow> hw \<Rightarrow> hw res" where
  "SwapScope_del didSwap h = (if didSwap then LocalSegment_Swap h else Inr h)"

lemma Swap_ok: "critical h \<Longrightarrow> LocalSegment_Swap h =
    Inr (h\<lparr>msr := (msr h)(0xc0000101 := msr h 0xc0000102, 0xc0000102 := msr h 0xc0000101)\<rparr>)"
  by (simp add: LocalSegment_Swap_def)

lemma Swap_twice: "critical h \<Longrightarrow> bindE (LocalSegment_Swap h) LocalSegment_Swap = Inr h"
  by (simp add: Swap_ok fun_upd_twist)

text \<open>The scope leaves the registers as they were, and says whether it swapped.\<close>

lemma SwapScope_ok:
  assumes "critical h"
  obtains d h' where "SwapScope_new vector stack h = Inr (d, h')" "critical h'" "SwapScope_del d h' = Inr h"
    "d \<longleftrightarrow> (if vector \<noteq> 2 \<and> vector \<noteq> 0x12 then st_cs stack AND 3 \<noteq> 0 else gs_base h = 0)"
    "gs_base h' = (if d then msr h 0xc0000102 else gs_base h)"
proof -
  define d where "d = (if vector \<noteq> 2 \<and> vector \<noteq> 0x12 then st_cs stack AND 3 \<noteq> 0 else gs_base h = 0)"
  have r: "LocalSegment_Read h = Inr (gs_base h)" using assms by (simp add: LocalSegment_Read_def gs_base_def)
  have n: "SwapScope_new vector stack h = (if d then bindE (LocalSegment_Swap h) (\<lambda>h. Inr (True, h)) else Inr (False, h))"
    using r by (simp add: SwapScope_new_def d_def)
  show ?thesis
  proof (cases d)
    case True
    define h1 where "h1 = h\<lparr>msr := (msr h)(0xc0000101 := msr h 0xc0000102, 0xc0000102 := msr h 0xc0000101)\<rparr>"
    have s1: "LocalSegment_Swap h = Inr h1" "critical h1" using assms by (simp_all add: Swap_ok h1_def)
    have s2: "LocalSegment_Swap h1 = Inr h" using Swap_twice [OF assms] s1 by simp
    have g: "gs_base h1 = msr h 0xc0000102" by (simp add: gs_base_def h1_def)
    show ?thesis
      by (rule that [of True h1]) (use True n s1 s2 g in \<open>simp_all add: SwapScope_del_def d_def\<close>)
  next
    case False
    show ?thesis
      by (rule that [of False h]) (use False n assms in \<open>simp_all add: SwapScope_del_def d_def\<close>)
  qed
qed

end
