(* ===== verification/Segments.thy ===== *)
theory Segments
  imports Hardware
begin

unbundle bit_operations_syntax

text \<open>
  Segment descriptors and the global descriptor table
  (\<^verbatim>\<open>src/arch/x64/segments/short-descriptor.cpp\<close>, \<^verbatim>\<open>tss.cpp\<close>, \<^verbatim>\<open>gdt.cpp\<close>). The packed
  structures are records of their fields, each at its width, with the layout as a function
  to the 64-bit words that the processor reads.
\<close>

section \<open>Code and data descriptors\<close>

record short_descriptor =
  s_limit :: u16
  s_baseLow :: u16
  s_baseMid :: u8
  s_accessBit :: "1 word"
  s_writable :: "1 word"
  s_direction :: "1 word"
  s_executable :: "1 word"
  s_reservedOne :: "1 word"
  s_privilege :: "2 word"
  s_present :: "1 word"
  s_limitHigh :: "4 word"
  s_reservedZero :: "1 word"
  s_longMode :: "1 word"
  s_size :: "1 word"
  s_granularity :: "1 word"
  s_baseHigh :: u8

definition ShortDescriptor_new :: "bool \<Rightarrow> bool \<Rightarrow> short_descriptor" where
  "ShortDescriptor_new privileged exec =
     \<lparr>s_limit = 0, s_baseLow = 0, s_baseMid = 0, s_accessBit = 0, s_writable = (if exec then 0 else 1),
      s_direction = 0, s_executable = (if exec then 1 else 0), s_reservedOne = 1,
      s_privilege = (if privileged then 0 else 3), s_present = 1, s_limitHigh = 0, s_reservedZero = 0,
      s_longMode = 1, s_size = 0, s_granularity = 0, s_baseHigh = 0\<rparr>"

definition short_bits :: "short_descriptor \<Rightarrow> u64" where
  "short_bits d = ucast (s_limit d) OR push_bit 16 (ucast (s_baseLow d)) OR push_bit 32 (ucast (s_baseMid d))
     OR push_bit 40 (ucast (s_accessBit d)) OR push_bit 41 (ucast (s_writable d))
     OR push_bit 42 (ucast (s_direction d)) OR push_bit 43 (ucast (s_executable d))
     OR push_bit 44 (ucast (s_reservedOne d)) OR push_bit 45 (ucast (s_privilege d))
     OR push_bit 47 (ucast (s_present d)) OR push_bit 48 (ucast (s_limitHigh d))
     OR push_bit 52 (ucast (s_reservedZero d)) OR push_bit 53 (ucast (s_longMode d))
     OR push_bit 54 (ucast (s_size d)) OR push_bit 55 (ucast (s_granularity d)) OR push_bit 56 (ucast (s_baseHigh d))"

section \<open>The task state segment\<close>

record tss =
  t_rsp :: "nat \<Rightarrow> u64"
  t_ist :: "nat \<Rightarrow> u64"

record tss_descriptor =
  d_limit_0 :: u16
  d_base_0 :: u16
  d_base_16 :: u8
  d_type :: "4 word"
  d_res0 :: "1 word"
  d_dpl :: "2 word"
  d_present :: "1 word"
  d_limit_16 :: "4 word"
  d_available :: "1 word"
  d_res1 :: "2 word"
  d_granularity :: "1 word"
  d_base_24 :: u8
  d_base_32 :: u32
  d_res2 :: u32

definition TssDescriptor_new :: "u64 \<Rightarrow> tss_descriptor" where
  "TssDescriptor_new ptrVal =
     \<lparr>d_limit_0 = 0x67, d_base_0 = ucast (ptrVal AND 0xffff), d_base_16 = ucast (drop_bit 16 ptrVal AND 0xff),
      d_type = 9, d_res0 = 0, d_dpl = 0, d_present = 1, d_limit_16 = 0, d_available = 1, d_res1 = 0,
      d_granularity = 0, d_base_24 = ucast (drop_bit 24 ptrVal AND 0xff),
      d_base_32 = ucast (drop_bit 0x20 ptrVal), d_res2 = 0\<rparr>"

text \<open>
  \<^verbatim>\<open>base_16\<close> and \<^verbatim>\<open>base_24\<close> are promoted to a 32-bit \<^verbatim>\<open>int\<close> before the shift, and the result
  is extended with its sign.
\<close>

definition TssDescriptor_GetPointer :: "tss_descriptor \<Rightarrow> u64" where
  "TssDescriptor_GetPointer d =
     ucast (d_base_0 d)
     OR signed (push_bit 16 (ucast (d_base_16 d)) :: u32)
     OR signed (push_bit 24 (ucast (d_base_24 d)) :: u32)
     OR push_bit 0x20 (ucast (d_base_32 d))"

definition tss_low :: "tss_descriptor \<Rightarrow> u64" where
  "tss_low d = ucast (d_limit_0 d) OR push_bit 16 (ucast (d_base_0 d)) OR push_bit 32 (ucast (d_base_16 d))
     OR push_bit 40 (ucast (d_type d)) OR push_bit 44 (ucast (d_res0 d)) OR push_bit 45 (ucast (d_dpl d))
     OR push_bit 47 (ucast (d_present d)) OR push_bit 48 (ucast (d_limit_16 d))
     OR push_bit 52 (ucast (d_available d)) OR push_bit 53 (ucast (d_res1 d))
     OR push_bit 55 (ucast (d_granularity d)) OR push_bit 56 (ucast (d_base_24 d))"

definition tss_high :: "tss_descriptor \<Rightarrow> u64" where
  "tss_high d = ucast (d_base_32 d) OR push_bit 32 (ucast (d_res2 d))"

text \<open>What the processor takes as the base address of a system descriptor.\<close>

definition cpu_base :: "u64 \<Rightarrow> u64 \<Rightarrow> u64" where
  "cpu_base lo hi = (drop_bit 16 lo AND mask 24) OR push_bit 24 (drop_bit 56 lo) OR push_bit 32 (hi AND mask 32)"

definition cpu_limit :: "u64 \<Rightarrow> u64" where
  "cpu_limit lo = (lo AND mask 16) OR push_bit 16 (drop_bit 48 lo AND mask 4)"

section \<open>The table\<close>

record gdt =
  g_buffer :: "nat \<Rightarrow> u64"
  amountUsed :: u64

definition Gdt_PushShortDescriptor :: "short_descriptor \<Rightarrow> gdt \<Rightarrow> (u16 \<times> gdt) res" where
  "Gdt_PushShortDescriptor desc g =
     bindE (assertE (amountUsed g + 8 \<le> 0x10000) ''amountUsed + 8 <= 0x10000'') (\<lambda>_.
       let sel = ucast (amountUsed g)
       in Inr (sel, \<lparr>g_buffer = (g_buffer g)(unat (amountUsed g) := short_bits desc), amountUsed = amountUsed g + 8\<rparr>))"

definition Gdt_PushTssDescriptor :: "tss_descriptor \<Rightarrow> gdt \<Rightarrow> (u16 \<times> gdt) res" where
  "Gdt_PushTssDescriptor desc g =
     bindE (assertE (amountUsed g + 0x10 \<le> 0x10000) ''amountUsed + 0x10 <= 0x10000'') (\<lambda>_.
       let sel = ucast (amountUsed g)
       in Inr (sel, \<lparr>g_buffer = (g_buffer g)(unat (amountUsed g) := tss_low desc, unat (amountUsed g) + 8 := tss_high desc),
            amountUsed = amountUsed g + 0x10\<rparr>))"

text \<open>\<^verbatim>\<open>lgdt\<close> loads the limit and the address of the buffer.\<close>

definition Gdt_GetPointer :: "u64 \<Rightarrow> u16 \<times> u64" where
  "Gdt_GetPointer buffer = (0xffff, buffer)"

definition Gdt_Set :: "u64 \<Rightarrow> hw \<Rightarrow> hw res" where
  "Gdt_Set buffer h = bindE (AssertCritical (hw_crit h)) (\<lambda>_. Inr (h\<lparr>gdtr := Gdt_GetPointer buffer\<rparr>))"

text \<open>
  The buffer comes from the kernel's allocator, a parameter here; None is a failed
  allocation. The result is the address of the buffer and its contents.
\<close>

definition Gdt_Initialize :: "('h \<Rightarrow> u64 \<Rightarrow> (u64 option \<times> 'h) res) \<Rightarrow> 'h \<Rightarrow> hw \<Rightarrow> (u64 \<times> gdt \<times> 'h \<times> hw) res" where
  "Gdt_Initialize alloc heap h =
     bindE (alloc heap 0x10000) (\<lambda>(r, heap).
       case r of
         None \<Rightarrow> Inl (Panic ''Gdt::Initialize() - failed to allocate buffer'')
       | Some buffer \<Rightarrow>
           bindE (Gdt_PushShortDescriptor (ShortDescriptor_new True True)
             \<lparr>g_buffer = (\<lambda>_. 0), amountUsed = 8\<rparr>) (\<lambda>(_, g).
           bindE (Gdt_PushShortDescriptor (ShortDescriptor_new True False) g) (\<lambda>(_, g).
           bindE (Gdt_PushShortDescriptor (ShortDescriptor_new False False) g) (\<lambda>(_, g).
           bindE (Gdt_PushShortDescriptor (ShortDescriptor_new False True) g) (\<lambda>(_, g).
           bindE (with_critical (Gdt_Set buffer) h) (\<lambda>h. Inr (buffer, g, heap, h)))))))"

definition gdt_ok :: "gdt \<Rightarrow> bool" where
  "gdt_ok g \<longleftrightarrow> unat (amountUsed g) mod 8 = 0 \<and> unat (amountUsed g) \<le> 0x10000"

text \<open>The descriptor behind a selector.\<close>

definition descriptor :: "gdt \<Rightarrow> u16 \<Rightarrow> u64" where
  "descriptor g sel = g_buffer g (unat (sel AND NOT 7))"

section \<open>Properties\<close>

lemma short_bits_values:
  "short_bits (ShortDescriptor_new True True) = 0x0020980000000000"
  "short_bits (ShortDescriptor_new True False) = 0x0020920000000000"
  "short_bits (ShortDescriptor_new False False) = 0x0020F20000000000"
  "short_bits (ShortDescriptor_new False True) = 0x0020F80000000000"
  by (simp_all add: short_bits_def ShortDescriptor_new_def)

lemma Gdt_Set_ok: "with_critical (Gdt_Set buffer) h = Inr (h\<lparr>gdtr := (0xffff, buffer)\<rparr>)"
  using with_critical_ok [of "Gdt_Set buffer" "\<lambda>h. h\<lparr>gdtr := (0xffff, buffer)\<rparr>" h]
  by (auto simp: Gdt_Set_def Gdt_GetPointer_def)

text \<open>
  Gdt::Initialize builds exactly the table that the rest of the kernel relies on: the
  null descriptor, then 64-bit code and data for ring 0 at selectors 8 and 0x10 and data and
  code for ring 3 at 0x18 and 0x20, with 0x28 bytes used, and loads its address into GDTR
  with the CPU's flags as they were; or it panics when the buffer cannot be allocated.
\<close>

lemma Gdt_Initialize_layout:
  "case alloc heap 0x10000 of
     Inl flt \<Rightarrow> Gdt_Initialize alloc heap h = Inl flt
   | Inr (None, heap') \<Rightarrow> Gdt_Initialize alloc heap h = Inl (Panic ''Gdt::Initialize() - failed to allocate buffer'')
   | Inr (Some b, heap') \<Rightarrow> \<exists>g. Gdt_Initialize alloc heap h = Inr (b, g, heap', h\<lparr>gdtr := (0xffff, b)\<rparr>)
        \<and> gdt_ok g \<and> amountUsed g = 0x28
        \<and> map (descriptor g) [0, 8, 0x10, 0x18, 0x20]
          = [0, 0x0020980000000000, 0x0020920000000000, 0x0020F20000000000, 0x0020F80000000000]"
  by (auto split: sum.splits option.splits simp: Gdt_Initialize_def Gdt_PushShortDescriptor_def Let_def
      gdt_ok_def short_bits_values descriptor_def Gdt_Set_ok)

lemma sel_unat:
  assumes "gdt_ok g" "unat (amountUsed g) < 0x10000"
  shows "unat (ucast (amountUsed g) AND NOT 7 :: u16) = unat (amountUsed g)"
proof -
  have b: "bit (amountUsed g) n \<Longrightarrow> 3 \<le> n" for n
    using bit_aligned [of "amountUsed g" 3] assms(1) by (simp add: gdt_ok_def)
  have e: "(ucast (amountUsed g) AND NOT 7 :: u16) = ucast (amountUsed g)"
  proof (rule bit_word_eqI)
    fix n assume "n < LENGTH(16)"
    have "(7 :: u16) = mask 3" by (simp add: mask_eq_exp_minus_1)
    then have s: "bit (NOT 7 :: u16) n \<longleftrightarrow> n < 16 \<and> \<not> n < 3"
      by (simp only: bit_not_iff bit_mask_iff) auto
    show "bit (ucast (amountUsed g) AND NOT 7 :: u16) n = bit (ucast (amountUsed g) :: u16) n"
      using b [of n] \<open>n < LENGTH(16)\<close> by (simp only: bit_and_iff s bit_ucast_iff) auto
  qed
  show ?thesis
    unfolding e using assms(2) by (simp add: unsigned_ucast_eq take_bit_nat_eq_self)
qed

text \<open>
  A pushed descriptor stays reachable and disturbs nothing: while the table has room,
  PushShortDescriptor and PushTssDescriptor return a selector behind which the processor
  finds the new descriptor, every earlier offset of the table keeps its contents, and the
  table stays well formed; when it is full they fail their assertion.
\<close>

lemma Gdt_Push_keeps:
  assumes "gdt_ok g"
  shows "(if unat (amountUsed g) + 8 \<le> 0x10000 then
      \<exists>sel g'. Gdt_PushShortDescriptor desc g = Inr (sel, g') \<and> gdt_ok g' \<and> descriptor g' sel = short_bits desc
        \<and> (\<forall>i. i < unat (amountUsed g) \<longrightarrow> g_buffer g' i = g_buffer g i)
      else Gdt_PushShortDescriptor desc g = Inl (AssertFail ''amountUsed + 8 <= 0x10000''))
    \<and> (if unat (amountUsed g) + 0x10 \<le> 0x10000 then
      \<exists>sel g'. Gdt_PushTssDescriptor tdesc g = Inr (sel, g') \<and> gdt_ok g' \<and> descriptor g' sel = tss_low tdesc
        \<and> g_buffer g' (unat (sel AND NOT 7) + 8) = tss_high tdesc
        \<and> (\<forall>i. i < unat (amountUsed g) \<longrightarrow> g_buffer g' i = g_buffer g i)
      else Gdt_PushTssDescriptor tdesc g = Inl (AssertFail ''amountUsed + 0x10 <= 0x10000''))"
proof -
  have le: "unat (amountUsed g) \<le> 0x10000" "unat (amountUsed g) mod 8 = 0" using assms by (simp_all add: gdt_ok_def)
  have u: "unat (amountUsed g + 8) = unat (amountUsed g) + 8" "unat (amountUsed g + 0x10) = unat (amountUsed g) + 0x10"
    using le(1) by (subst unat_add_lem [THEN iffD1]; simp)+
  have a: "amountUsed g + 8 \<le> 0x10000 \<longleftrightarrow> unat (amountUsed g) + 8 \<le> 0x10000"
    "amountUsed g + 0x10 \<le> 0x10000 \<longleftrightarrow> unat (amountUsed g) + 0x10 \<le> 0x10000"
    by (simp_all add: word_le_nat_alt u)
  have m: "(unat (amountUsed g) + 8) mod 8 = 0" "(unat (amountUsed g) + 0x10) mod 8 = 0"
    using le(2) by (simp_all add: mod_add_eq [symmetric])
  show ?thesis
    using a u m sel_unat [OF assms]
    by (auto simp: Gdt_PushShortDescriptor_def Gdt_PushTssDescriptor_def Let_def descriptor_def gdt_ok_def)
qed

lemma tss_masks: "(0xffff :: u64) = mask 16" "(0xff :: u64) = mask 8"
  by (simp_all add: mask_eq_exp_minus_1)

text \<open>The low word, with the constant fields gathered in two constants.\<close>

lemma tss_low_form:
  obtains L K where "L = 0x67" "K = 0x0010890000000000"
    "tss_low (TssDescriptor_new p) = L OR push_bit 16 (p AND mask 24) OR push_bit 56 (drop_bit 24 p) OR K"
proof -
  have b: "push_bit 16 (ucast (ucast (p AND 0xffff) :: u16) :: u64)
      OR push_bit 32 (ucast (ucast (drop_bit 16 p AND 0xff) :: u8)) = push_bit 16 (p AND mask 24)"
    "push_bit 56 (ucast (ucast (drop_bit 24 p AND 0xff) :: u8) :: u64) = push_bit 56 (drop_bit 24 p)"
  proof -
    have "\<not> bit p (16 + (n - 32)) \<Longrightarrow> bit p (n - 16) \<Longrightarrow> 16 \<le> n \<Longrightarrow> n - 16 < 16" for n
    proof (rule ccontr)
      assume b: "\<not> bit p (16 + (n - 32))" "bit p (n - 16)" "16 \<le> n" "\<not> n - 16 < 16"
      then have "16 + (n - 32) = n - 16" by linarith
      with b(1,2) show False by simp
    qed
    then show "push_bit 16 (ucast (ucast (p AND 0xffff) :: u16) :: u64)
        OR push_bit 32 (ucast (ucast (drop_bit 16 p AND 0xff) :: u8)) = push_bit 16 (p AND mask 24)"
      unfolding tss_masks by (intro bit_word_eqI) (auto simp: bit_simps)
    show "push_bit 56 (ucast (ucast (drop_bit 24 p AND 0xff) :: u8) :: u64) = push_bit 56 (drop_bit 24 p)"
      unfolding tss_masks by (intro bit_word_eqI) (auto simp: bit_simps)
  qed
  have "tss_low (TssDescriptor_new p) = 0x67 OR (push_bit 16 (ucast (ucast (p AND 0xffff) :: u16) :: u64)
      OR push_bit 32 (ucast (ucast (drop_bit 16 p AND 0xff) :: u8)))
      OR push_bit 56 (ucast (ucast (drop_bit 24 p AND 0xff) :: u8)) OR 0x0010890000000000"
    by (simp add: tss_low_def TssDescriptor_new_def or.assoc or.commute or.left_commute)
  then show ?thesis unfolding b by (rule that [OF refl refl])
qed

text \<open>
  The processor finds the task state segment at the address the descriptor was built
  from, with the limit 0x67 and as an available 64-bit TSS; GetPointer returns that address
  unless its bit 31 is set, when the sign extension of base_24 sets the upper half of the
  result to ones.
\<close>

lemma TssDescriptor_base:
  "cpu_base (tss_low (TssDescriptor_new p)) (tss_high (TssDescriptor_new p)) = p
   \<and> cpu_limit (tss_low (TssDescriptor_new p)) = 0x67
   \<and> drop_bit 40 (tss_low (TssDescriptor_new p)) AND 0xff = 0x89
   \<and> TssDescriptor_GetPointer (TssDescriptor_new p) = (if bit p 31 then p OR 0xFFFFFFFF00000000 else p)"
proof -
  obtain L K where L: "L = 0x67" and K: "K = 0x0010890000000000"
    and low: "tss_low (TssDescriptor_new p) = L OR push_bit 16 (p AND mask 24) OR push_bit 56 (drop_bit 24 p) OR K"
    by (rule tss_low_form)
  have high: "tss_high (TssDescriptor_new p) = drop_bit 32 p"
    by (rule bit_word_eqI) (auto simp: tss_high_def TssDescriptor_new_def bit_simps dest: bit_imp_le_length)
  have KK: "K = push_bit 40 0x89 OR push_bit 52 1" "(0x89 :: u64) = 0x89 AND mask 8"
    by (simp_all add: K mask_eq_exp_minus_1)
  have k: "bit K n \<longleftrightarrow> 40 \<le> n \<and> n < 48 \<and> bit (0x89 :: u64) (n - 40) \<or> n = 52" for n
    unfolding KK(1) by (subst KK(2))
      (simp only: bit_or_iff bit_push_bit_iff bit_and_iff bit_mask_iff bit_1_iff possible_bit_word, auto)
  have l: "bit L n \<longrightarrow> n < 7" for n using bit_less_exp [of L 7 n] by (simp add: L)
  have m: "(0xFFFFFFFF00000000 :: u64) = NOT (mask 32)" by (simp add: mask_eq_exp_minus_1)
  have "cpu_base (tss_low (TssDescriptor_new p)) (tss_high (TssDescriptor_new p)) = p"
  proof (rule bit_word_eqI)
    fix n assume n: "n < LENGTH(64)"
    have c: "n < 24 \<or> 24 \<le> n \<and> n < 32 \<or> 32 \<le> n" by linarith
    show "bit (cpu_base (tss_low (TssDescriptor_new p)) (tss_high (TssDescriptor_new p))) n = bit p n"
      using n c l [of "16 + n"] l [of "32 + n"] unfolding cpu_base_def low high
      by (elim disjE conjE) (simp_all add: bit_simps k, linarith)
  qed
  moreover have "cpu_limit (tss_low (TssDescriptor_new p)) = L"
    unfolding cpu_limit_def low by (rule bit_word_eqI) (auto simp: bit_simps k dest: l [rule_format])
  moreover have "drop_bit 40 (tss_low (TssDescriptor_new p)) AND mask 8 = 0x89 AND mask 8"
    unfolding low by (rule bit_word_eqI) (auto simp: bit_simps k dest: l [rule_format])
  moreover have "TssDescriptor_GetPointer (TssDescriptor_new p) = (if bit p 31 then p OR NOT (mask 32) else p)"
  proof (rule bit_word_eqI)
    fix n assume n: "n < LENGTH(64)"
    have c: "n < 16 \<or> 16 \<le> n \<and> n < 24 \<or> 24 \<le> n \<and> n < 32 \<or> 32 \<le> n" by linarith
    have o: "31 \<le> n \<Longrightarrow> n < 32 \<Longrightarrow> bit p n = bit p 31" by (cases "n = 31") simp_all
    show "bit (TssDescriptor_GetPointer (TssDescriptor_new p)) n = bit (if bit p 31 then p OR NOT (mask 32) else p) n"
      using n c unfolding TssDescriptor_GetPointer_def TssDescriptor_new_def tss_masks
      by (elim disjE conjE) (simp_all add: bit_simps min_def, auto simp: o)
  qed
  ultimately show ?thesis unfolding m L by (simp add: mask_eq_exp_minus_1)
qed

end
