(* ===== verification/Interrupts.thy ===== *)
theory Interrupts
  imports Segments
begin

unbundle bit_operations_syntax

text \<open>
  Interrupt delivery: the interrupt descriptor table and the machine code thunks behind its
  gates (\<^verbatim>\<open>src/arch/x64/interrupts/idt.cpp\<close>, \<^verbatim>\<open>idt-types.hpp\<close>), the routine table
  (\<^verbatim>\<open>irt.cpp\<close>) and the handlers that dispatch to it (\<^verbatim>\<open>isr.cpp\<close>). A function pointer is
  its address; calling one is an argument of the dispatching operations.
\<close>

section \<open>Little-endian bytes\<close>

primrec le_bytes :: "nat \<Rightarrow> u64 \<Rightarrow> u8 list" where
  "le_bytes 0 x = []"
| "le_bytes (Suc n) x = ucast x # le_bytes n (drop_bit 8 x)"

primrec of_le :: "u8 list \<Rightarrow> u64" where
  "of_le [] = 0"
| "of_le (b # bs) = ucast b OR push_bit 8 (of_le bs)"

lemma length_le_bytes [simp]: "length (le_bytes n x) = n"
  by (induction n arbitrary: x) simp_all

lemma of_le_le_bytes: "of_le (le_bytes n x) = take_bit (8 * n) x"
proof (induction n arbitrary: x)
  case (Suc n)
  have "ucast (ucast x :: u8) OR push_bit 8 (take_bit (8 * n) (drop_bit 8 x)) = take_bit (8 * Suc n) x"
    by (rule bit_word_eqI) (auto simp: bit_simps)
  then show ?case by (simp add: Suc.IH)
qed simp

lemma of_le_8 [simp]: "of_le (le_bytes 8 x) = x"
  by (simp add: of_le_le_bytes take_bit_word_eq_self)

section \<open>The thunks\<close>

record idt_handler =
  h_argument :: u64
  h_function :: u64

definition handler_code :: "idt_handler \<Rightarrow> u8 list" where
  "handler_code h = [0x50, 0x50, 0x48, 0xB8] @ le_bytes 8 (h_argument h)
     @ [0x48, 0x89, 0x44, 0x24, 0x08, 0x48, 0xB8] @ le_bytes 8 (h_function h)
     @ [0x48, 0x87, 0x04, 0x24, 0xc3]"

text \<open>
  The instructions that occur in a thunk, on a machine with RAX, RSP and a memory of
  quadwords; the program counter is an offset into the code, or the address that \<^verbatim>\<open>ret\<close>
  left it for.
\<close>

datatype xpc = At nat | Gone u64

record x86 =
  x_pc :: xpc
  x_rax :: u64
  x_rsp :: u64
  x_mem :: "u64 \<Rightarrow> u64"

definition x86_step :: "u8 list \<Rightarrow> x86 \<Rightarrow> x86 option" where
  "x86_step code s = (case x_pc s of
     Gone _ \<Rightarrow> None
   | At pc \<Rightarrow>
       let c = drop pc code in
       if take 1 c = [0x50] then
         Some (s\<lparr>x_pc := At (pc + 1), x_rsp := x_rsp s - 8, x_mem := (x_mem s)(x_rsp s - 8 := x_rax s)\<rparr>)
       else if take 2 c = [0x48, 0xB8] then
         Some (s\<lparr>x_pc := At (pc + 10), x_rax := of_le (take 8 (drop 2 c))\<rparr>)
       else if take 5 c = [0x48, 0x89, 0x44, 0x24, 0x08] then
         Some (s\<lparr>x_pc := At (pc + 5), x_mem := (x_mem s)(x_rsp s + 8 := x_rax s)\<rparr>)
       else if take 4 c = [0x48, 0x87, 0x04, 0x24] then
         Some (s\<lparr>x_pc := At (pc + 4), x_rax := x_mem s (x_rsp s), x_mem := (x_mem s)(x_rsp s := x_rax s)\<rparr>)
       else if take 1 c = [0xc3] then
         Some (s\<lparr>x_pc := Gone (x_mem s (x_rsp s)), x_rsp := x_rsp s + 8\<rparr>)
       else None)"

primrec x86_run :: "nat \<Rightarrow> u8 list \<Rightarrow> x86 \<Rightarrow> x86 option" where
  "x86_run 0 code s = Some s"
| "x86_run (Suc n) code s = (case x86_step code s of None \<Rightarrow> None | Some s \<Rightarrow> x86_run n code s)"

lemma x86_steps:
  assumes "x_pc s = At pc"
  shows "drop pc code = 0x50 # r \<Longrightarrow> x86_step code s =
      Some (s\<lparr>x_pc := At (pc + 1), x_rsp := x_rsp s - 8, x_mem := (x_mem s)(x_rsp s - 8 := x_rax s)\<rparr>)"
    "drop pc code = 0x48 # 0xB8 # le_bytes 8 v @ r \<Longrightarrow> x86_step code s =
      Some (s\<lparr>x_pc := At (pc + 10), x_rax := v\<rparr>)"
    "drop pc code = 0x48 # 0x89 # 0x44 # 0x24 # 0x08 # r \<Longrightarrow> x86_step code s =
      Some (s\<lparr>x_pc := At (pc + 5), x_mem := (x_mem s)(x_rsp s + 8 := x_rax s)\<rparr>)"
    "drop pc code = 0x48 # 0x87 # 0x04 # 0x24 # r \<Longrightarrow> x86_step code s =
      Some (s\<lparr>x_pc := At (pc + 4), x_rax := x_mem s (x_rsp s), x_mem := (x_mem s)(x_rsp s := x_rax s)\<rparr>)"
    "drop pc code = 0xc3 # r \<Longrightarrow> x86_step code s =
      Some (s\<lparr>x_pc := Gone (x_mem s (x_rsp s)), x_rsp := x_rsp s + 8\<rparr>)"
  using assms by (simp_all add: x86_step_def)

lemma handler_run:
  assumes "x_pc s = At 0"
  shows "x86_run 7 (handler_code h) s = Some (s\<lparr>x_pc := Gone (h_function h), x_rsp := x_rsp s - 8,
    x_mem := (x_mem s)(x_rsp s - 8 := h_argument h, x_rsp s - 16 := h_function h)\<rparr>)"
proof -
  let ?c = "handler_code h"
  have d: "drop 0 ?c = 0x50 # drop 1 ?c"
    "drop 1 ?c = 0x50 # drop 2 ?c"
    "drop 2 ?c = 0x48 # 0xB8 # le_bytes 8 (h_argument h) @ drop 12 ?c"
    "drop 12 ?c = 0x48 # 0x89 # 0x44 # 0x24 # 0x08 # drop 17 ?c"
    "drop 17 ?c = 0x48 # 0xB8 # le_bytes 8 (h_function h) @ drop 27 ?c"
    "drop 27 ?c = 0x48 # 0x87 # 0x04 # 0x24 # drop 31 ?c"
    "drop 31 ?c = 0xc3 # []"
    by (simp_all add: handler_code_def)
  have n: "(7 :: nat) = Suc (Suc (Suc (Suc (Suc (Suc (Suc 0))))))" by simp
  show ?thesis
    unfolding n x86_run.simps
    by (simp add: x86_steps(1) [OF _ d(1)] x86_steps(1) [OF _ d(2)] x86_steps(2) [OF _ d(3)]
        x86_steps(3) [OF _ d(4)] x86_steps(2) [OF _ d(5)] x86_steps(4) [OF _ d(6)] x86_steps(5) [OF _ d(7)]
        assms fun_upd_twist)
qed

section \<open>The descriptor table\<close>

record idt_entry =
  lowOffset :: u16
  codeSegment :: u16
  ist :: "3 word"
  gate_flags :: u8
  midOffset :: u16
  highOffset :: u32

definition IdtEntry_new :: idt_entry where
  "IdtEntry_new = \<lparr>lowOffset = 0, codeSegment = 8, ist = 0, gate_flags = 0, midOffset = 0, highOffset = 0\<rparr>"

definition SetOffset :: "u64 \<Rightarrow> idt_entry \<Rightarrow> idt_entry" where
  "SetOffset exc e = e\<lparr>lowOffset := ucast (exc AND 0xffff),
     midOffset := ucast (drop_bit 16 exc AND 0xffff), highOffset := ucast (drop_bit 32 exc)\<rparr>"

text \<open>The address of the handler, as the processor takes it from a gate.\<close>

definition gate_offset :: "idt_entry \<Rightarrow> u64" where
  "gate_offset e = ucast (lowOffset e) OR push_bit 16 (ucast (midOffset e)) OR push_bit 32 (ucast (highOffset e))"

lemma gate_offset_SetOffset: "gate_offset (SetOffset exc e) = exc"
proof (rule bit_word_eqI)
  fix n assume n: "n < LENGTH(64)"
  have c: "n < 16 \<or> 16 \<le> n \<and> n < 32 \<or> 32 \<le> n" by linarith
  show "bit (gate_offset (SetOffset exc e)) n = bit exc n"
    using n c unfolding gate_offset_def SetOffset_def tss_masks
    by (elim disjE conjE) (simp_all add: bit_simps, auto)
qed

record idt =
  idt_entries :: "nat \<Rightarrow> idt_entry"
  idt_handlers :: "nat \<Rightarrow> idt_handler"

text \<open>\<^verbatim>\<open>ha\<close> is the address of the array of thunks, each 0x20 bytes long.\<close>

definition Idt_SetEntry :: "u64 \<Rightarrow> nat \<Rightarrow> u64 \<Rightarrow> u8 \<Rightarrow> idt \<Rightarrow> idt" where
  "Idt_SetEntry ha idx fn flags t =
     (let t = t\<lparr>idt_handlers := (idt_handlers t)(idx := \<lparr>h_argument = of_nat idx, h_function = fn\<rparr>)\<rparr>
      in t\<lparr>idt_entries := (idt_entries t)(idx :=
           (SetOffset (ha + 0x20 * of_nat idx) (idt_entries t idx))\<lparr>gate_flags := flags\<rparr>)\<rparr>)"

definition Idt_SetIst :: "nat \<Rightarrow> u8 \<Rightarrow> idt \<Rightarrow> idt" where
  "Idt_SetIst idx i t = t\<lparr>idt_entries := (idt_entries t)(idx := (idt_entries t idx)\<lparr>ist := ucast i\<rparr>)\<rparr>"

definition Idt_Set :: "u64 \<Rightarrow> u64 \<Rightarrow> hw \<Rightarrow> hw res" where
  "Idt_Set ptrAddr entriesAddr h =
     bindE (assertE (ptrAddr AND 7 = 0) ''!((uint64_t)&idtPtr & 0x7)'') (\<lambda>_.
     bindE (assertE (entriesAddr AND 7 = 0) ''!((uint64_t)entries & 0x7)'') (\<lambda>_.
       Inr (h\<lparr>idtr := (0xfff, entriesAddr)\<rparr>)))"

section \<open>The routine table\<close>

type_synonym irt = "u8 \<Rightarrow> u64"

definition Irt_Get :: "u8 \<Rightarrow> irt \<Rightarrow> u64" where
  "Irt_Get idx routines = routines idx"

definition Irt_Set :: "u8 \<Rightarrow> u64 \<Rightarrow> irt \<Rightarrow> irt" where
  "Irt_Set idx r routines = routines(idx := r)"

definition Irt_Unset :: "u8 \<Rightarrow> irt \<Rightarrow> irt" where
  "Irt_Unset idx routines = routines(idx := 0)"

definition Irt_ConfigurePicEoi :: "u64 \<Rightarrow> u64 \<Rightarrow> idt \<Rightarrow> idt" where
  "Irt_ConfigurePicEoi ha RawPicEoiIsr = fold (\<lambda>i. Idt_SetEntry ha i RawPicEoiIsr 0x8e) [0..<0x100]"

definition hasCode :: "nat \<Rightarrow> bool" where
  "hasCode i \<longleftrightarrow> i = 0x8 \<or> i = 0x11 \<or> (0xa \<le> i \<and> i \<le> 0xe)"

definition Irt_Configure :: "u64 \<Rightarrow> u64 \<Rightarrow> u64 \<Rightarrow> idt \<Rightarrow> idt" where
  "Irt_Configure ha RawCodedIsr RawNonCodedIsr =
     fold (\<lambda>i. if hasCode i then Idt_SetEntry ha i RawCodedIsr 0x8e
       else Idt_SetEntry ha i RawNonCodedIsr 0x8e) [0..<0x100]"

definition Irt_Initialize :: "u64 \<Rightarrow> u64 \<Rightarrow> hw \<Rightarrow> hw res" where
  "Irt_Initialize = Idt_Set"

lemma SetEntry_fold:
  "i < n \<Longrightarrow> \<exists>e. idt_entries (fold (\<lambda>i. Idt_SetEntry ha i (f i) 0x8e) [0..<n] t) i
      = (SetOffset (ha + 0x20 * of_nat i) e)\<lparr>gate_flags := 0x8e\<rparr>
    \<and> idt_handlers (fold (\<lambda>i. Idt_SetEntry ha i (f i) 0x8e) [0..<n] t) i = \<lparr>h_argument = of_nat i, h_function = f i\<rparr>"
  by (induction n) (auto simp: Idt_SetEntry_def Let_def less_Suc_eq)

lemma codeSegment_fold:
  "codeSegment (idt_entries (fold (\<lambda>i. Idt_SetEntry ha i (f i) fl) xs t) j) = codeSegment (idt_entries t j)"
  by (induction xs arbitrary: t) (auto simp: Idt_SetEntry_def Let_def SetOffset_def)

lemma Irt_Configure_eq:
  "Irt_Configure ha coded plain = fold (\<lambda>i. Idt_SetEntry ha i (if hasCode i then coded else plain) 0x8e) [0..<0x100]"
  unfolding Irt_Configure_def by (rule arg_cong [of _ _ "\<lambda>g. fold g [0..<0x100]"]) auto

text \<open>The exceptions for which the processor pushes an error code.\<close>

definition pushes_error_code :: "nat list" where
  "pushes_error_code = [8, 10, 11, 12, 13, 14, 17]"

text \<open>
  C9. Irt::Configure leads every interrupt to the right assembly stub with its number on
  the stack: for each of the 256 vectors the gate is a present interrupt gate in segment 8,
  the processor finds the thunk of that vector behind it, and the machine code of the thunk
  jumps to the stub for exceptions with an error code exactly when the processor pushed
  one, having pushed the vector, with RAX as it was and nothing above the stack pointer
  changed.
\<close>

theorem Irt_Configure_dispatch:
  assumes "i < 0x100" and "x_pc s = At 0"
    and "t' = Irt_Configure ha coded plain \<lparr>idt_entries = (\<lambda>_. IdtEntry_new), idt_handlers = hs\<rparr>"
  shows "gate_offset (idt_entries t' i) = ha + 0x20 * of_nat i \<and> gate_flags (idt_entries t' i) = 0x8e
    \<and> codeSegment (idt_entries t' i) = 8
    \<and> (\<exists>s'. x86_run 7 (handler_code (idt_handlers t' i)) s = Some s'
        \<and> x_pc s' = Gone (if i \<in> set pushes_error_code then coded else plain)
        \<and> x_rsp s' = x_rsp s - 8 \<and> x_mem s' (x_rsp s') = of_nat i \<and> x_rax s' = x_rax s
        \<and> (\<forall>a. a \<noteq> x_rsp s - 8 \<and> a \<noteq> x_rsp s - 16 \<longrightarrow> x_mem s' a = x_mem s a))"
proof -
  have p: "i \<in> set pushes_error_code \<longleftrightarrow> hasCode i"
    by (auto simp: pushes_error_code_def hasCode_def)
  obtain e where e: "idt_entries t' i = (SetOffset (ha + 0x20 * of_nat i) e)\<lparr>gate_flags := 0x8e\<rparr>"
    "idt_handlers t' i = \<lparr>h_argument = of_nat i, h_function = if hasCode i then coded else plain\<rparr>"
    using SetEntry_fold [OF assms(1), of ha "\<lambda>i. if hasCode i then coded else plain"
        "\<lparr>idt_entries = (\<lambda>_. IdtEntry_new), idt_handlers = hs\<rparr>"] assms(3)
    unfolding Irt_Configure_eq by blast
  have "gate_offset (idt_entries t' i) = gate_offset (SetOffset (ha + 0x20 * of_nat i) e)"
    by (simp add: e gate_offset_def)
  moreover have "codeSegment (idt_entries t' i) = 8"
    unfolding assms(3) Irt_Configure_eq codeSegment_fold by (simp add: IdtEntry_new_def)
  moreover have "x_rsp s - 8 \<noteq> x_rsp s - 16" by simp
  ultimately show ?thesis
    using handler_run [OF assms(2), of "idt_handlers t' i"] by (simp add: e gate_offset_SetOffset p)
qed

theorem Irt_Configure_dispatch_witness:
  "\<exists>s'. x86_run 7 (handler_code (idt_handlers (Irt_Configure 0x5000 0x111 0x222
      \<lparr>idt_entries = (\<lambda>_. IdtEntry_new), idt_handlers = (\<lambda>_. \<lparr>h_argument = 0, h_function = 0\<rparr>)\<rparr>) 14))
      \<lparr>x_pc = At 0, x_rax = 7, x_rsp = 0x9000, x_mem = (\<lambda>_. 0)\<rparr> = Some s' \<and> x_pc s' = Gone 0x111
      \<and> x_mem s' 0x8ff8 = 14"
proof -
  have "(14 :: nat) < 0x100" "x_pc \<lparr>x_pc = At 0, x_rax = 7, x_rsp = 0x9000, x_mem = (\<lambda>_. 0)\<rparr> = At 0" by simp_all
  from Irt_Configure_dispatch [OF this refl, of "0x5000" "0x111" "0x222" "\<lambda>_. \<lparr>h_argument = 0, h_function = 0\<rparr>"]
  show ?thesis by (auto simp: pushes_error_code_def)
qed

section \<open>Dispatch\<close>

text \<open>
  \<^verbatim>\<open>call\<close> runs the routine at an address; \<^verbatim>\<open>delegate\<close> is the global page delegate and
  \<^verbatim>\<open>cr2\<close> the register that holds the address of a page fault. The console output before
  the panic is left out.
\<close>

definition run_routine :: "(u64 \<Rightarrow> isr_stack \<Rightarrow> u64 \<Rightarrow> hw \<Rightarrow> hw res) \<Rightarrow> irt \<Rightarrow> u64 \<Rightarrow> isr_stack \<Rightarrow> u64 \<Rightarrow> string \<Rightarrow> hw \<Rightarrow> hw res" where
  "run_routine call irt vector stack code msg h =
     (let routine = Irt_Get (ucast vector) irt
      in if routine \<noteq> 0 then call routine stack code h
         else if vector < 0xf0 then Inl (Panic msg) else Inr h)"

definition InterruptCoded ::
  "(u64 \<Rightarrow> bool \<Rightarrow> hw \<Rightarrow> hw res) option \<Rightarrow> (u64 \<Rightarrow> isr_stack \<Rightarrow> u64 \<Rightarrow> hw \<Rightarrow> hw res) \<Rightarrow> irt \<Rightarrow> u64 \<Rightarrow>
    u64 \<Rightarrow> isr_stack \<Rightarrow> u64 \<Rightarrow> hw \<Rightarrow> hw res" where
  "InterruptCoded delegate call irt cr2 vector stack code h =
     bindE (SwapScope_new (ucast vector) stack h) (\<lambda>(scope, h).
     bindE (case (vector = 0xe, delegate) of
         (True, Some f) \<Rightarrow> f cr2 (code AND 2 \<noteq> 0) h
       | _ \<Rightarrow> run_routine call irt vector stack code ''unhandled exception'' h)
       (SwapScope_del scope))"

definition InterruptNonCoded ::
  "(u64 \<Rightarrow> isr_stack \<Rightarrow> u64 \<Rightarrow> hw \<Rightarrow> hw res) \<Rightarrow> irt \<Rightarrow> u64 \<Rightarrow> isr_stack \<Rightarrow> hw \<Rightarrow> hw res" where
  "InterruptNonCoded call irt vector stack h =
     bindE (SwapScope_new (ucast vector) stack h) (\<lambda>(scope, h).
     bindE (run_routine call irt vector stack 0 ''unhandled interrupt'' h) (SwapScope_del scope))"

definition InterruptPicEoi :: "u64 \<Rightarrow> hw \<Rightarrow> hw res" where
  "InterruptPicEoi vector h =
     bindE (if 0xf < vector then OutB 0xa0 0x20 h else Inr h) (OutB 0x20 0x20)"

text \<open>A routine that leaves the model-specific registers alone and interrupts masked.\<close>

definition keeps_msrs :: "(hw \<Rightarrow> hw res) \<Rightarrow> bool" where
  "keeps_msrs f \<longleftrightarrow> (\<forall>h. critical h \<longrightarrow> (\<exists>h'. f h = Inr h' \<and> critical h' \<and> msr h' = msr h))"

lemma scope_balanced:
  assumes "critical h" and "keeps_msrs f"
  shows "\<exists>h'. bindE (SwapScope_new vector stack h) (\<lambda>(scope, h). bindE (f h) (SwapScope_del scope)) = Inr h'
    \<and> msr h' = msr h \<and> critical h'"
proof -
  obtain d h1 where h1: "SwapScope_new vector stack h = Inr (d, h1)" "critical h1" "SwapScope_del d h1 = Inr h"
    using SwapScope_ok [OF assms(1)] by metis
  obtain h2 where h2: "f h1 = Inr h2" "critical h2" "msr h2 = msr h1"
    using assms(2) h1(2) unfolding keeps_msrs_def by blast
  have "\<exists>h3. SwapScope_del d h2 = Inr h3 \<and> msr h3 = msr h \<and> critical h3"
  proof (cases d)
    case True
    with h1(2,3) h2(2,3) show ?thesis by (auto simp: SwapScope_del_def Swap_ok)
  next
    case False
    with h1(3) h2(2,3) show ?thesis by (auto simp: SwapScope_del_def)
  qed
  with h1(1) h2(1) show ?thesis by auto
qed



end
