(* ===== verification/Apic.thy ===== *)
theory Apic
  imports Interrupts
begin

unbundle bit_operations_syntax

text \<open>
  The local interrupt controller (\<^verbatim>\<open>src/arch/x64/interrupts/apic/lapic.cpp\<close>, \<^verbatim>\<open>lapic.hpp\<close>,
  \<^verbatim>\<open>xapic.cpp\<close>, \<^verbatim>\<open>x2apic.cpp\<close>, \<^verbatim>\<open>lapic-module.cpp\<close>). The operations of the base class are
  functions of the virtual \<^verbatim>\<open>ReadReg\<close> and \<^verbatim>\<open>WriteReg\<close>; the locale \<^verbatim>\<open>lapic\<close> holds what the
  two subclasses promise, and both are interpretations of it.
\<close>

section \<open>The device\<close>

text \<open>
  The mapped page as an array of 32-bit words, and the values of the interrupt command
  register that were sent: the xAPIC sends when the low word is written, the x2APIC when
  its register is.
\<close>

record apic =
  a_hw :: hw
  a_regs :: "nat \<Rightarrow> u32"
  a_sent :: "u64 list"

definition mmio_write :: "nat \<Rightarrow> u32 \<Rightarrow> apic \<Rightarrow> apic" where
  "mmio_write i v s = s\<lparr>a_regs := (a_regs s)(i := v),
     a_sent := (if i = 0xc0 then a_sent s @ [ucast v OR push_bit 32 (ucast (a_regs s 0xc4))] else a_sent s)\<rparr>"

definition apic_wrmsr :: "u32 \<Rightarrow> u64 \<Rightarrow> apic \<Rightarrow> apic res" where
  "apic_wrmsr cell v s = bindE (WriteMsr cell v (a_hw s)) (\<lambda>h.
     Inr (s\<lparr>a_hw := h, a_sent := (if cell = 0x830 then a_sent s @ [v] else a_sent s)\<rparr>))"

definition RegApicId :: u16 where "RegApicId = 0x2"
definition RegTaskPriority :: u16 where "RegTaskPriority = 0x8"
definition RegEoi :: u16 where "RegEoi = 0xb"
definition RegSpurious :: u16 where "RegSpurious = 0xf"
definition RegEsr :: u16 where "RegEsr = 0x28"
definition RegIcr :: u16 where "RegIcr = 0x30"
definition RegLvtTimer :: u16 where "RegLvtTimer = 0x32"
definition RegLvtPerf :: u16 where "RegLvtPerf = 0x34"
definition RegLvtLint0 :: u16 where "RegLvtLint0 = 0x35"
definition RegLvtLint1 :: u16 where "RegLvtLint1 = 0x36"
definition RegLvtError :: u16 where "RegLvtError = 0x37"
definition RegTimerInitCount :: u16 where "RegTimerInitCount = 0x38"
definition RegTimerCurrCount :: u16 where "RegTimerCurrCount = 0x39"
definition RegTimerDiv :: u16 where "RegTimerDiv = 0x3e"
definition PreferredDivide :: u64 where "PreferredDivide = 3"

lemmas apic_reg_defs = RegApicId_def RegTaskPriority_def RegEoi_def RegSpurious_def RegEsr_def RegIcr_def
  RegLvtTimer_def RegLvtPerf_def RegLvtLint0_def RegLvtLint1_def RegLvtError_def RegTimerInitCount_def
  RegTimerCurrCount_def RegTimerDiv_def PreferredDivide_def

section \<open>The two implementations\<close>

definition a_assert :: "apic \<Rightarrow> unit res" where
  "a_assert s = AssertCritical (hw_crit (a_hw s))"

definition XApic_ReadReg :: "u16 \<Rightarrow> apic \<Rightarrow> u64 res" where
  "XApic_ReadReg reg s = bindE (a_assert s) (\<lambda>_.
     if reg \<noteq> RegIcr then Inr (ucast (a_regs s (unat reg * 4)))
     else let lower = a_regs s (unat reg * 4); higher = a_regs s ((unat reg + 1) * 4)
          in Inr (ucast lower OR push_bit 0x20 (ucast higher)))"

definition XApic_WriteReg :: "u16 \<Rightarrow> u64 \<Rightarrow> apic \<Rightarrow> apic res" where
  "XApic_WriteReg reg val s = bindE (a_assert s) (\<lambda>_.
     if reg \<noteq> RegIcr then
       bindE (assertE (val AND 0xFFFFFFFF00000000 = 0) ''!(value & 0xFFFFFFFF00000000UL)'') (\<lambda>_.
         Inr (mmio_write (unat reg * 4) (ucast val) s))
     else Inr (mmio_write (unat reg * 4) (ucast (val AND 0xFFFFFFFF))
                (mmio_write ((unat reg + 1) * 4) (ucast (drop_bit 0x20 val)) s)))"

definition XApic_Enable :: "PhysAddr \<Rightarrow> apic \<Rightarrow> apic res" where
  "XApic_Enable base s = bindE (a_assert s) (\<lambda>_.
     bindE (ReadMsr 0x1b (a_hw s)) (\<lambda>v.
       let flags = (v AND 0xf00) OR push_bit 11 1 in apic_wrmsr 0x1b (base OR flags) s))"

definition XApic_GetId :: "apic \<Rightarrow> u32 res" where
  "XApic_GetId s = bindE (a_assert s) (\<lambda>_. bindE (XApic_ReadReg RegApicId s) (\<lambda>v. Inr (ucast (drop_bit 0x18 v))))"

definition ipi_value :: "u8 \<Rightarrow> u8 \<Rightarrow> u8 \<Rightarrow> u8 \<Rightarrow> u64" where
  "ipi_value vector mode level trigger =
     (ucast vector OR push_bit 8 (ucast mode)) OR (push_bit 0xe (ucast level) OR push_bit 0xf (ucast trigger))"

definition XApic_SendIpi :: "u32 \<Rightarrow> u8 \<Rightarrow> u8 \<Rightarrow> u8 \<Rightarrow> u8 \<Rightarrow> apic \<Rightarrow> apic res" where
  "XApic_SendIpi cpu vector mode level trigger s = bindE (a_assert s) (\<lambda>_.
     XApic_WriteReg RegIcr (ipi_value vector mode level trigger OR push_bit 0x38 (ucast cpu)) s)"

definition X2Apic_ReadReg :: "u16 \<Rightarrow> apic \<Rightarrow> u64 res" where
  "X2Apic_ReadReg reg s = bindE (a_assert s) (\<lambda>_. ReadMsr (ucast reg + 0x800) (a_hw s))"

definition X2Apic_WriteReg :: "u16 \<Rightarrow> u64 \<Rightarrow> apic \<Rightarrow> apic res" where
  "X2Apic_WriteReg reg val s = bindE (a_assert s) (\<lambda>_. apic_wrmsr (ucast reg + 0x800) val s)"

definition X2Apic_Enable :: "apic \<Rightarrow> apic res" where
  "X2Apic_Enable s = bindE (a_assert s) (\<lambda>_.
     bindE (ReadMsr 0x1b (a_hw s)) (\<lambda>v. apic_wrmsr 0x1b ((v AND 0xf00) OR push_bit 10 3) s))"

definition X2Apic_GetId :: "apic \<Rightarrow> u32 res" where
  "X2Apic_GetId s = bindE (a_assert s) (\<lambda>_. bindE (X2Apic_ReadReg RegApicId s) (\<lambda>v. Inr (ucast v)))"

definition X2Apic_SendIpi :: "u32 \<Rightarrow> u8 \<Rightarrow> u8 \<Rightarrow> u8 \<Rightarrow> u8 \<Rightarrow> apic \<Rightarrow> apic res" where
  "X2Apic_SendIpi cpu vector mode level trigger s = bindE (a_assert s) (\<lambda>_.
     X2Apic_WriteReg RegIcr (ipi_value vector mode level trigger OR push_bit 0x20 (ucast cpu)) s)"

section \<open>The base class\<close>

fun write_regs :: "(u16 \<Rightarrow> u64 \<Rightarrow> 's \<Rightarrow> 's res) \<Rightarrow> (u16 \<times> u64) list \<Rightarrow> 's \<Rightarrow> 's res" where
  "write_regs wr [] s = Inr s"
| "write_regs wr ((r, v) # rest) s = bindE (wr r v s) (write_regs wr rest)"

definition lapic_defaults :: "(u16 \<times> u64) list" where
  "lapic_defaults =
     [(RegTaskPriority, 0), (RegLvtTimer, 0x10000), (RegLvtPerf, 0x10000), (RegLvtLint0, 0x8700),
      (RegLvtLint1, 0x400), (RegLvtError, 0x10000), (RegSpurious, 0x1ff), (RegLvtLint0, 0x8700),
      (RegLvtLint1, 0x400), (RegTimerDiv, PreferredDivide)]"

definition Lapic_SetDefaults :: "(u16 \<Rightarrow> u64 \<Rightarrow> 's \<Rightarrow> 's res) \<Rightarrow> 's \<Rightarrow> 's res" where
  "Lapic_SetDefaults wr = write_regs wr lapic_defaults"

definition Lapic_ClearErrors :: "(u16 \<Rightarrow> u64 \<Rightarrow> 's \<Rightarrow> 's res) \<Rightarrow> 's \<Rightarrow> 's res" where
  "Lapic_ClearErrors wr = wr RegEsr 0"

definition Lapic_SendEoi :: "(u16 \<Rightarrow> u64 \<Rightarrow> 's \<Rightarrow> 's res) \<Rightarrow> 's \<Rightarrow> 's res" where
  "Lapic_SendEoi wr = wr RegEoi 0"

definition Lapic_SetPriority :: "(u16 \<Rightarrow> u64 \<Rightarrow> 's \<Rightarrow> 's res) \<Rightarrow> u8 \<Rightarrow> 's \<Rightarrow> 's res" where
  "Lapic_SetPriority wr vector = wr RegTaskPriority (ucast vector)"

text \<open>\<^verbatim>\<open>1 << (vector & 0x1f)\<close> is stored as a 32-bit mask.\<close>

definition vector_bit :: "(u16 \<Rightarrow> 's \<Rightarrow> u64 res) \<Rightarrow> u16 \<Rightarrow> u8 \<Rightarrow> 's \<Rightarrow> bool res" where
  "vector_bit rd base vector s =
     (let regIndex = base + ucast (drop_bit 5 vector); msk = push_bit (unat (vector AND 0x1f)) 1 :: u32
      in bindE (rd regIndex s) (\<lambda>v. Inr (v AND ucast msk \<noteq> 0)))"

definition Lapic_IsRequested :: "(u16 \<Rightarrow> 's \<Rightarrow> u64 res) \<Rightarrow> u8 \<Rightarrow> 's \<Rightarrow> bool res" where
  "Lapic_IsRequested rd = vector_bit rd 0x20"

definition Lapic_IsInService :: "(u16 \<Rightarrow> 's \<Rightarrow> u64 res) \<Rightarrow> u8 \<Rightarrow> 's \<Rightarrow> bool res" where
  "Lapic_IsInService rd = vector_bit rd 0x10"

definition Lapic_SetTimeout :: "(u16 \<Rightarrow> u64 \<Rightarrow> 's \<Rightarrow> 's res) \<Rightarrow> u8 \<Rightarrow> u32 \<Rightarrow> 's \<Rightarrow> 's res" where
  "Lapic_SetTimeout wr vector ticks = write_regs wr [(RegLvtTimer, ucast vector), (RegTimerInitCount, ucast ticks)]"

definition Lapic_ClearTimeout :: "(u16 \<Rightarrow> u64 \<Rightarrow> 's \<Rightarrow> 's res) \<Rightarrow> 's \<Rightarrow> 's res" where
  "Lapic_ClearTimeout wr = wr RegLvtTimer 0x10000"

definition Lapic_IsTimerRunning :: "(u16 \<Rightarrow> 's \<Rightarrow> u64 res) \<Rightarrow> 's \<Rightarrow> bool res" where
  "Lapic_IsTimerRunning rd s = bindE (rd RegLvtTimer s) (\<lambda>v.
     if v AND 0x10000 \<noteq> 0 then Inr False else bindE (rd RegTimerCurrCount s) (\<lambda>v. Inr (v \<noteq> 0)))"

lemma hex32: "(0xFFFFFFFF :: u64) = mask 32" "(0xFFFFFFFF00000000 :: u64) = NOT (mask 32)"
  by (simp_all add: mask_eq_exp_minus_1)

text \<open>What a subclass promises: its registers hold what was last written to them.\<close>

locale lapic =
  fixes rd :: "u16 \<Rightarrow> 's \<Rightarrow> u64 res" and wr :: "u16 \<Rightarrow> u64 \<Rightarrow> 's \<Rightarrow> 's res"
    and reg :: "'s \<Rightarrow> u16 \<Rightarrow> u64" and enabled :: "'s \<Rightarrow> bool"
  assumes reg_read: "enabled s \<Longrightarrow> rd r s = Inr (reg s r)"
    and reg_write: "enabled s \<Longrightarrow> v AND 0xFFFFFFFF00000000 = 0 \<Longrightarrow> r \<noteq> RegIcr \<Longrightarrow> r \<noteq> 0x31 \<Longrightarrow>
      \<exists>s'. wr r v s = Inr s' \<and> enabled s' \<and> reg s' = (reg s)(r := v)"
begin

lemma write_list:
  "enabled s \<Longrightarrow> \<forall>(r, v) \<in> set xs. v AND 0xFFFFFFFF00000000 = 0 \<and> r \<noteq> RegIcr \<and> r \<noteq> 0x31 \<Longrightarrow>
   \<exists>s'. write_regs wr xs s = Inr s' \<and> enabled s' \<and> reg s' = fold (\<lambda>(r, v) g. g(r := v)) xs (reg s)"
proof (induction xs arbitrary: s)
  case (Cons x xs)
  obtain r v where x: "x = (r, v)" by (cases x)
  have "\<exists>s'. wr r v s = Inr s' \<and> enabled s' \<and> reg s' = (reg s)(r := v)"
    by (rule reg_write) (use Cons.prems x in auto)
  then obtain s1 where "wr r v s = Inr s1" "enabled s1" "reg s1 = (reg s)(r := v)" by blast
  with Cons.IH [of s1] Cons.prems(2) show ?case by (simp add: x)
qed simp

lemma SetDefaults:
  "enabled s \<Longrightarrow> \<exists>s'. Lapic_SetDefaults wr s = Inr s' \<and> enabled s'
    \<and> map (reg s') [RegTaskPriority, RegLvtTimer, RegLvtPerf, RegLvtLint0, RegLvtLint1, RegLvtError, RegSpurious, RegTimerDiv]
      = [0, 0x10000, 0x10000, 0x8700, 0x400, 0x10000, 0x1ff, 3]
    \<and> (\<forall>r. r \<notin> {0x8, 0x32, 0x34, 0x35, 0x36, 0x37, 0xf, 0x3e} \<longrightarrow> reg s' r = reg s r)"
  using write_list [of s lapic_defaults] unfolding Lapic_SetDefaults_def
  by (auto simp: lapic_defaults_def apic_reg_defs simp del: write_regs.simps)

lemma vector_bit_reg:
  "enabled s \<Longrightarrow> vector_bit rd base vector s
    = Inr (bit (reg s (base + ucast (drop_bit 5 vector))) (unat vector mod 32))"
proof -
  assume e: "enabled s"
  have m: "unat (vector AND 0x1f) = unat vector mod 32"
    using word_and_mask_eq_mod [of vector 5] by (simp add: mask_eq_exp_minus_1)
  have "unat vector mod 32 < 32" by simp
  then have "(ucast (push_bit (unat vector mod 32) (1 :: u32)) :: u64) = 2 ^ (unat vector mod 32)"
    by (intro bit_word_eqI) (auto simp: bit_simps bit_1_iff)
  then show ?thesis
    by (simp add: vector_bit_def reg_read [OF e] m Let_def and_exp_eq_0)
qed

lemma TimeoutRunning:
  assumes "enabled s"
  shows "\<exists>s'. Lapic_SetTimeout wr vector ticks s = Inr s' \<and> enabled s'
      \<and> Lapic_IsTimerRunning rd s' = Inr (reg s RegTimerCurrCount \<noteq> 0)
      \<and> reg s' RegTimerInitCount = ucast ticks \<and> reg s' RegLvtTimer = ucast vector"
    and "\<exists>s'. Lapic_ClearTimeout wr s = Inr s' \<and> enabled s' \<and> Lapic_IsTimerRunning rd s' = Inr False"
proof -
  have v: "(ucast vector :: u64) AND 0x10000 = 0" "(ucast vector :: u64) AND 0xFFFFFFFF00000000 = 0"
    "(ucast ticks :: u64) AND 0xFFFFFFFF00000000 = 0"
  proof -
    have c: "(0x10000 :: u64) = 2 ^ 16" by simp
    show "(ucast vector :: u64) AND 0x10000 = 0" unfolding c and_exp_eq_0 by (auto simp: bit_simps dest: bit_imp_le_length)
    show "(ucast vector :: u64) AND 0xFFFFFFFF00000000 = 0" "(ucast ticks :: u64) AND 0xFFFFFFFF00000000 = 0"
      unfolding hex32 by (rule bit_word_eqI, auto simp: bit_simps dest: bit_imp_le_length)+
  qed
  have "\<exists>s'. write_regs wr [(RegLvtTimer, ucast vector), (RegTimerInitCount, ucast ticks)] s = Inr s' \<and> enabled s'
      \<and> reg s' = fold (\<lambda>(r, v) g. g(r := v)) [(RegLvtTimer, ucast vector), (RegTimerInitCount, ucast ticks)] (reg s)"
    by (rule write_list [OF assms]) (auto simp: v apic_reg_defs)
  then show "\<exists>s'. Lapic_SetTimeout wr vector ticks s = Inr s' \<and> enabled s'
      \<and> Lapic_IsTimerRunning rd s' = Inr (reg s RegTimerCurrCount \<noteq> 0)
      \<and> reg s' RegTimerInitCount = ucast ticks \<and> reg s' RegLvtTimer = ucast vector"
    unfolding Lapic_SetTimeout_def by (auto simp: Lapic_IsTimerRunning_def reg_read v apic_reg_defs)
  have "\<exists>s'. wr RegLvtTimer 0x10000 s = Inr s' \<and> enabled s' \<and> reg s' = (reg s)(RegLvtTimer := 0x10000)"
    by (rule reg_write [OF assms]) (auto simp: apic_reg_defs)
  then show "\<exists>s'. Lapic_ClearTimeout wr s = Inr s' \<and> enabled s' \<and> Lapic_IsTimerRunning rd s' = Inr False"
    by (auto simp: Lapic_ClearTimeout_def Lapic_IsTimerRunning_def reg_read)
qed

end

definition xapic_reg :: "apic \<Rightarrow> u16 \<Rightarrow> u64" where
  "xapic_reg s r = (if r = RegIcr then ucast (a_regs s 0xc0) OR push_bit 32 (ucast (a_regs s 0xc4))
     else ucast (a_regs s (unat r * 4)))"

definition x2apic_reg :: "apic \<Rightarrow> u16 \<Rightarrow> u64" where
  "x2apic_reg s r = msr (a_hw s) (ucast r + 0x800)"

definition a_enabled :: "apic \<Rightarrow> bool" where
  "a_enabled s \<longleftrightarrow> critical (a_hw s)"

lemma a_assert_ok [simp]: "a_enabled s \<Longrightarrow> a_assert s = Inr ()"
  by (simp add: a_assert_def a_enabled_def)

lemma small_value: "v AND 0xFFFFFFFF00000000 = 0 \<Longrightarrow> ucast (ucast v :: u32) = v" for v :: u64
proof -
  assume v: "v AND 0xFFFFFFFF00000000 = 0"
  have h: "n < 32" if "bit v n" for n
  proof (rule ccontr)
    assume "\<not> n < 32"
    with that have "bit (v AND 0xFFFFFFFF00000000) n"
      unfolding hex32 by (simp add: bit_simps bit_imp_le_length) (use bit_imp_le_length in fastforce)
    with v show False by simp
  qed
  show "ucast (ucast v :: u32) = v"
    by (rule bit_word_eqI) (auto simp: bit_simps dest: h)
qed

lemma ucast_inj: "(ucast r :: u32) = ucast q \<longleftrightarrow> r = q" for r q :: u16
proof
  assume "(ucast r :: u32) = ucast q"
  then have "bit r n = bit q n" for n
    by (cases "n < 16") (auto simp: bit_eq_iff bit_simps dest: bit_imp_le_length)
  then show "r = q" by (simp add: bit_eq_iff)
qed simp

interpretation xapic: lapic XApic_ReadReg XApic_WriteReg xapic_reg a_enabled
proof
  fix s r and v :: u64 assume s: "a_enabled s"
  show "XApic_ReadReg r s = Inr (xapic_reg s r)"
    using s by (simp add: XApic_ReadReg_def xapic_reg_def Let_def apic_reg_defs)
  assume v: "v AND 0xFFFFFFFF00000000 = 0" "r \<noteq> RegIcr" "r \<noteq> 0x31"
  have n: "unat r * 4 \<noteq> 0xc0" "unat r * 4 \<noteq> 0xc4"
    using v(2,3) by (auto simp: apic_reg_defs word_unat_eq_iff)
  have e: "XApic_WriteReg r v s = Inr (mmio_write (unat r * 4) (ucast v) s)"
    using s v by (simp add: XApic_WriteReg_def)
  moreover have "xapic_reg (mmio_write (unat r * 4) (ucast v) s) = (xapic_reg s)(r := v)"
    using n small_value [OF v(1)] v(2) by (intro ext) (auto simp: xapic_reg_def mmio_write_def apic_reg_defs word_unat_eq_iff)
  moreover have "a_enabled (mmio_write (unat r * 4) (ucast v) s)" using s by (simp add: a_enabled_def mmio_write_def)
  ultimately show "\<exists>s'. XApic_WriteReg r v s = Inr s' \<and> a_enabled s' \<and> xapic_reg s' = (xapic_reg s)(r := v)" by blast
qed

interpretation x2apic: lapic X2Apic_ReadReg X2Apic_WriteReg x2apic_reg a_enabled
proof
  fix s r and v :: u64 assume s: "a_enabled s"
  show "X2Apic_ReadReg r s = Inr (x2apic_reg s r)"
    using s by (simp add: X2Apic_ReadReg_def x2apic_reg_def a_enabled_def)
  show "\<exists>s'. X2Apic_WriteReg r v s = Inr s' \<and> a_enabled s' \<and> x2apic_reg s' = (x2apic_reg s)(r := v)"
    using s by (auto simp: X2Apic_WriteReg_def apic_wrmsr_def a_enabled_def)
      (auto simp: x2apic_reg_def fun_eq_iff ucast_inj, metis ucast_inj)
qed

section \<open>The module\<close>

text \<open>The pointer that GetLapic returns, as the object behind it.\<close>

datatype lapic_kind = XApic | X2Apic

definition Lapic_ReadReg :: "lapic_kind \<Rightarrow> u16 \<Rightarrow> apic \<Rightarrow> u64 res" where
  "Lapic_ReadReg k = (case k of XApic \<Rightarrow> XApic_ReadReg | X2Apic \<Rightarrow> X2Apic_ReadReg)"

definition Lapic_WriteReg :: "lapic_kind \<Rightarrow> u16 \<Rightarrow> u64 \<Rightarrow> apic \<Rightarrow> apic res" where
  "Lapic_WriteReg k = (case k of XApic \<Rightarrow> XApic_WriteReg | X2Apic \<Rightarrow> X2Apic_WriteReg)"

definition Lapic_SendIpi :: "lapic_kind \<Rightarrow> u32 \<Rightarrow> u8 \<Rightarrow> u8 \<Rightarrow> u8 \<Rightarrow> u8 \<Rightarrow> apic \<Rightarrow> apic res" where
  "Lapic_SendIpi k = (case k of XApic \<Rightarrow> XApic_SendIpi | X2Apic \<Rightarrow> X2Apic_SendIpi)"

definition Lapic_Enable :: "lapic_kind \<Rightarrow> PhysAddr \<Rightarrow> apic \<Rightarrow> apic res" where
  "Lapic_Enable k base = (case k of XApic \<Rightarrow> XApic_Enable base | X2Apic \<Rightarrow> X2Apic_Enable)"

text \<open>The second pointer argument of CpuID, which GetLapic passes, receives EDX.\<close>

definition LapicModule_GetLapic :: "apic \<Rightarrow> lapic_kind res" where
  "LapicModule_GetLapic s = bindE (a_assert s) (\<lambda>_.
     bindE (CpuID 1 (a_hw s)) (\<lambda>(_, ecx, _).
       Inr (if ecx AND push_bit 21 1 \<noteq> 0 then X2Apic else XApic)))"

text \<open>
  \<^verbatim>\<open>lapicAddr\<close> is the field of the APIC table, None when there is none; constructing the
  xAPIC maps its page, which the device state already holds.
\<close>

definition LapicModule_Initialize :: "u32 option \<Rightarrow> apic \<Rightarrow> apic res" where
  "LapicModule_Initialize lapicAddr s = (case lapicAddr of
     None \<Rightarrow> Inl (AssertFail ''table != NULL'')
   | Some base \<Rightarrow>
       let s = s\<lparr>a_hw := (a_hw s)\<lparr>hw_crit := SetCritical True (hw_crit (a_hw s))\<rparr>\<rparr> in
       bindE (LapicModule_GetLapic s) (\<lambda>k. bindE (Lapic_Enable k (ucast base) s) (\<lambda>s.
       bindE (LapicModule_GetLapic s) (\<lambda>k. bindE (Lapic_SetDefaults (Lapic_WriteReg k) s) (\<lambda>s.
         Inr (s\<lparr>a_hw := (a_hw s)\<lparr>hw_crit := SetCritical False (hw_crit (a_hw s))\<rparr>\<rparr>))))))"

section \<open>Properties\<close>

lemma SendIpi_x:
  "a_enabled s \<Longrightarrow> \<exists>s'. XApic_SendIpi cpu vector mode level trigger s = Inr s' \<and>
    a_sent s' = a_sent s @ [ipi_value vector mode level trigger OR push_bit 56 (ucast cpu)]"
proof -
  assume s: "a_enabled s"
  define v where "v = ipi_value vector mode level trigger OR push_bit 56 (ucast cpu)"
  have "ucast (ucast (v AND 0xFFFFFFFF) :: u32) OR push_bit 32 (ucast (ucast (drop_bit 32 v) :: u32)) = v"
  proof (rule bit_word_eqI)
    fix n assume "n < LENGTH(64)"
    then show "bit (ucast (ucast (v AND 0xFFFFFFFF) :: u32) OR push_bit 32 (ucast (ucast (drop_bit 32 v) :: u32)) :: u64) n = bit v n"
      unfolding hex32 by (cases "n < 32") (simp_all add: bit_simps, linarith)
  qed
  then show ?thesis
    using s unfolding XApic_SendIpi_def v_def [symmetric]
    by (simp add: XApic_WriteReg_def mmio_write_def apic_reg_defs)
qed

lemma SendIpi_x2:
  "a_enabled s \<Longrightarrow> \<exists>s'. X2Apic_SendIpi cpu vector mode level trigger s = Inr s' \<and>
    a_sent s' = a_sent s @ [ipi_value vector mode level trigger OR push_bit 32 (ucast cpu)]"
  by (auto simp: X2Apic_SendIpi_def X2Apic_WriteReg_def apic_wrmsr_def apic_reg_defs a_enabled_def)

lemma ipi_value_high: "bit (ipi_value vector mode level trigger) n \<Longrightarrow> n < 32"
  by (auto simp: ipi_value_def bit_simps dest: bit_imp_le_length)

text \<open>
  C31. Both local APICs send the same interrupt: SendIpi makes each of them send exactly one
  command, with the same low word (vector, delivery mode, level and trigger), and its
  destination is the given CPU in the x2APIC and the low byte of it in the xAPIC, whose
  destination field has eight bits; so for identifiers below 256 they reach the same CPU.
\<close>

theorem SendIpi_equivalent:
  assumes "a_enabled s" and "a_enabled t"
  shows "\<exists>s' t' vx v2. XApic_SendIpi cpu vector mode level trigger s = Inr s' \<and> a_sent s' = a_sent s @ [vx]
    \<and> X2Apic_SendIpi cpu vector mode level trigger t = Inr t' \<and> a_sent t' = a_sent t @ [v2]
    \<and> vx AND mask 32 = v2 AND mask 32 \<and> drop_bit 32 v2 = ucast cpu
    \<and> drop_bit 56 vx = ucast cpu AND mask 8
    \<and> (unat cpu < 256 \<longrightarrow> drop_bit 56 vx = drop_bit 32 v2)"
proof -
  let ?i = "ipi_value vector mode level trigger"
  obtain s' where s': "XApic_SendIpi cpu vector mode level trigger s = Inr s'"
    "a_sent s' = a_sent s @ [?i OR push_bit 56 (ucast cpu)]" using SendIpi_x [OF assms(1)] by blast
  obtain t' where t': "X2Apic_SendIpi cpu vector mode level trigger t = Inr t'"
    "a_sent t' = a_sent t @ [?i OR push_bit 32 (ucast cpu)]" using SendIpi_x2 [OF assms(2)] by blast
  have low: "(?i OR push_bit 56 (ucast cpu)) AND mask 32 = (?i OR push_bit 32 (ucast cpu)) AND mask 32"
    by (rule bit_word_eqI) (auto simp: bit_simps)
  have d2: "drop_bit 32 (?i OR push_bit 32 (ucast cpu)) = ucast cpu"
    by (rule bit_word_eqI) (auto simp: bit_simps dest: ipi_value_high bit_imp_le_length)
  have dx: "drop_bit 56 (?i OR push_bit 56 (ucast cpu)) = ucast cpu AND mask 8"
    by (rule bit_word_eqI) (auto simp: bit_simps dest: ipi_value_high bit_imp_le_length)
  have "ucast cpu AND mask 8 = (ucast cpu :: u64)" if "unat cpu < 256"
    using that bit_less_exp [of cpu 8] by (intro bit_word_eqI) (auto simp: bit_simps)
  with s' t' low d2 dx show ?thesis by (metis (lifting))
qed

definition ex_apic :: apic where
  "ex_apic = \<lparr>a_hw = ex_hw, a_regs = (\<lambda>_. 0), a_sent = []\<rparr>"

lemma ex_apic_enabled: "a_enabled ex_apic"
  by (simp add: a_enabled_def ex_apic_def ex_hw_critical)

theorem SendIpi_equivalent_witness:
  "\<exists>s' v. XApic_SendIpi 3 0x22 0 1 0 ex_apic = Inr s' \<and> a_sent s' = [v] \<and> drop_bit 56 v = 3"
proof -
  have "(3 :: u64) AND mask 8 = 3" by (simp add: mask_eq_exp_minus_1)
  with SendIpi_equivalent [OF ex_apic_enabled ex_apic_enabled, of 3 "0x22" 0 1 0] show ?thesis
    by (fastforce simp: ex_apic_def)
qed

text \<open>
  GetLapic does not look at the x2APIC feature: whatever ECX says, where CPUID reports
  the feature in bit 21, it follows bit 21 of EDX, which says whether the CPU has the debug
  store; so it picks the x2APIC on a CPU without one and the xAPIC on a CPU with one.
\<close>

lemma GetLapic_reads_edx:
  assumes "a_enabled s"
  shows "LapicModule_GetLapic s = Inr (if bit (id_edx (cpuid (a_hw s) 1)) 21 then X2Apic else XApic)"
proof -
  have "(2097152 :: u32) = 2 ^ 21" by simp
  then have "x AND 2097152 = 0 \<longleftrightarrow> \<not> bit x 21" for x :: u32
    using and_exp_eq_0_iff_not_bit [of x 21] by simp
  with assms show ?thesis
    by (simp add: LapicModule_GetLapic_def CpuID_def Let_def a_enabled_def)
qed

end
