(* ===== verification/UserMap.thy ===== *)
theory UserMap
  imports FreeListProps EasyMapProofs PageTableProps
begin

unbundle bit_operations_syntax

text \<open>
  The address space of a process (\<^verbatim>\<open>src/arch/x64/vmm/user/user-map.cpp\<close>): a page table of
  its own whose first entry is the kernel's, and the free list of its addresses. The
  machine state is that of the page table theory; the constructor and the destructor reach
  the page frames through the kernel's map. The lock has no state of its own here.
\<close>

section \<open>State and operations\<close>

record ('a, 'h) umap =
  um_table :: "'a page_table"
  um_free :: "region list"
  um_heap :: 'h

definition UserMap_GetPageSizeCount :: nat where
  "UserMap_GetPageSizeCount = 2"

definition UserMap_GetPageSize :: "int \<Rightarrow> u64 res" where
  "UserMap_GetPageSize idx = bindE (assertE (0 \<le> idx \<and> idx < 3) ''idx >= 0 && idx < 3'') (\<lambda>_.
     Inr (if idx = 0 then 0x1000 else 0x200000))"

definition UserMap_GetPageSizeAlign :: "int \<Rightarrow> u64 res" where
  "UserMap_GetPageSizeAlign = UserMap_GetPageSize"

definition UserMap_GetCapabilities :: capabilities where
  "UserMap_GetCapabilities = \<lparr>placementReserve = True, placementMap = True, executableFlag = True,
     writableFlag = True, cachableFlag = False\<rparr>"

text \<open>The first and the last entry, then zeros between them.\<close>

definition init_pml4 :: "PhysAddr \<Rightarrow> PhysAddr \<Rightarrow> VirtAddr \<Rightarrow> 'a gmap \<Rightarrow> 'a gmap res" where
  "init_pml4 pdpt root mapData g =
     bindE (vwrite (mach g) mapData (pdpt OR 3)) (\<lambda>s.
     bindE (vwrite s (mapData + 8 * 0x1ff) (root OR 3)) (\<lambda>s.
     bindE (foldE (\<lambda>i s. vwrite s (mapData + 8 * of_nat i) 0) [1..<0x1ff] s) (\<lambda>s.
       Inr (g\<lparr>mach := s\<rparr>))))"

definition init_free :: "crit \<Rightarrow> 'h node_heap \<Rightarrow> 'h \<Rightarrow> (region list \<times> 'h) res" where
  "init_free c nh h =
     bindE (FreeList_Free c nh [] h KernelEnd 0x8000000000 0xff) (\<lambda>(l, h).
       FreeList_Free c nh l h 0xFFFF800000000000 0x800000000 0xff)"

definition UserMap_new ::
    "crit \<Rightarrow> 'h node_heap \<Rightarrow> 'h \<Rightarrow> 'a allocator_ops \<Rightarrow> 'a gmap \<Rightarrow> (('a, 'h) umap \<times> 'a gmap) res" where
  "UserMap_new c nh h ops g =
     bindE (al_Alloc ops (alst (mach g)) 0x1000 0x1000) (\<lambda>(r, al).
       let g = g\<lparr>mach := (mach g)\<lparr>alst := al\<rparr>\<rparr>
       in case r of
            None \<Rightarrow> Inl (Panic ''UserMap::UserMap() - failed to allocate PML4'')
          | Some root \<Rightarrow>
              bindE (with_map c g root 0x1000 (init_pml4 (gm_pdpt g) root)) (\<lambda>g.
              bindE (init_free c nh h) (\<lambda>(l, h).
                Inr (\<lparr>um_table = \<lparr>allocator = ops, pml4 = root\<rparr>, um_free = l, um_heap = h\<rparr>, g))))"

definition UserMap_del :: "crit \<Rightarrow> ('a, 'h) umap \<Rightarrow> 'a gmap \<Rightarrow> 'a gmap res" where
  "UserMap_del c u g = FreeTable c (um_table u) 1 g"

text \<open>\<^verbatim>\<open>WillSetAddressSpace\<close> is an argument; then CR3 is loaded.\<close>

definition UserMap_Set :: "(unit \<Rightarrow> 't res) \<Rightarrow> crit \<Rightarrow> ('a, 'h) umap \<Rightarrow> 'a machine \<Rightarrow> ('t \<times> 'a machine) res" where
  "UserMap_Set will c u s =
     bindE (AssertCritical c) (\<lambda>_. bindE (will ()) (\<lambda>t. Inr (t, s\<lparr>cr3 := GetPml4 (um_table u)\<rparr>)))"

definition UserMap_Read :: "crit \<Rightarrow> ('a, 'h) umap \<Rightarrow> 'a machine \<Rightarrow> VirtAddr \<Rightarrow> ((PhysAddr \<times> attributes) option \<times> u64) res" where
  "UserMap_Read c u s addr = bindE (AssertNoncritical c) (\<lambda>_. Read c (um_table u) s addr)"

definition um_SetList :: "crit \<Rightarrow> ('a, 'h) umap \<Rightarrow> 'a machine \<Rightarrow> VirtAddr \<Rightarrow> PhysAddr \<Rightarrow> mm_size \<Rightarrow> attributes
    \<Rightarrow> (bool option \<times> 'a machine) res" where
  "um_SetList c u s addr phys sz attrs =
     SetList c (um_table u) s addr (phys OR CalcMask (pageSize sz) False attrs) sz 7"

definition UserMap_Map ::
    "crit \<Rightarrow> 'h node_heap \<Rightarrow> ('a, 'h) umap \<Rightarrow> 'a machine \<Rightarrow> PhysAddr \<Rightarrow> mm_size \<Rightarrow> attributes
     \<Rightarrow> (VirtAddr option \<times> ('a, 'h) umap \<times> 'a machine) res" where
  "UserMap_Map c nh u s phys sz attrs =
     bindE (AssertNoncritical c) (\<lambda>_.
     bindE (FreeList_Alloc c nh (um_free u) (um_heap u) (pageSize sz) (pageCount sz)) (\<lambda>(addr, l, h).
       let u = u\<lparr>um_free := l, um_heap := h\<rparr>
       in if addr = 0 then Inr (None, u, s)
          else
            bindE (assertE (addr \<ge> KernelEnd) ''addr >= PageTable::KernelEnd'') (\<lambda>_.
            bindE (um_SetList c u s addr phys sz attrs) (\<lambda>(_, s). Inr (Some addr, u, s)))))"

text \<open>
  \<^verbatim>\<open>overwrote\<close> has no initial value, and SetList leaves it alone for an empty range, so what
  it holds at first is an argument.
\<close>

definition UserMap_MapAt ::
    "bool \<Rightarrow> crit \<Rightarrow> ('a, 'h) umap \<Rightarrow> 'a machine \<Rightarrow> VirtAddr \<Rightarrow> PhysAddr \<Rightarrow> mm_size \<Rightarrow> attributes \<Rightarrow> 'a machine res" where
  "UserMap_MapAt overwrote c u s addr phys sz attrs =
     bindE (AssertNoncritical c) (\<lambda>_.
     bindE (assertE (addr \<ge> KernelEnd \<and> addr + Bytes sz \<ge> KernelEnd) ''addr >= PageTable::KernelEnd'') (\<lambda>_.
     bindE (um_SetList c u s addr phys sz attrs) (\<lambda>(ow, s).
       Inr (if (case ow of None \<Rightarrow> overwrote | Some b \<Rightarrow> b) then DistributeInvlpg s addr (Bytes sz) else s))))"

fun um_unset :: "crit \<Rightarrow> 'a page_table \<Rightarrow> nat \<Rightarrow> VirtAddr \<Rightarrow> u64 \<Rightarrow> 'a machine \<Rightarrow> 'a machine res" where
  "um_unset c t 0 next pgSize s = Inr s"
| "um_unset c t (Suc n) next pgSize s =
     bindE (Unset c t s next) (\<lambda>(ok, s).
       if \<not> ok then Inl (Panic ''UserMap::Unmap() - Unset() failed'')
       else um_unset c t n (next + pgSize) pgSize s)"

definition um_FreeList_Free :: "crit \<Rightarrow> 'h node_heap \<Rightarrow> ('a, 'h) umap \<Rightarrow> VirtAddr \<Rightarrow> mm_size \<Rightarrow> ('a, 'h) umap res" where
  "um_FreeList_Free c nh u addr sz =
     bindE (FreeList_Free c nh (um_free u) (um_heap u) addr (pageSize sz) (pageCount sz)) (\<lambda>(l, h).
       Inr (u\<lparr>um_free := l, um_heap := h\<rparr>))"

definition UserMap_Unmap ::
    "crit \<Rightarrow> 'h node_heap \<Rightarrow> ('a, 'h) umap \<Rightarrow> 'a machine \<Rightarrow> VirtAddr \<Rightarrow> mm_size \<Rightarrow> (('a, 'h) umap \<times> 'a machine) res" where
  "UserMap_Unmap c nh u s addr sz =
     bindE (AssertNoncritical c) (\<lambda>_.
     bindE (um_unset c (um_table u) (unat (pageCount sz)) addr (pageSize sz) s) (\<lambda>s.
     bindE (um_FreeList_Free c nh u addr sz) (\<lambda>u.
       Inr (u, DistributeInvlpg s addr (Bytes sz)))))"

definition UserMap_UnmapAndReserve ::
    "crit \<Rightarrow> ('a, 'h) umap \<Rightarrow> 'a machine \<Rightarrow> VirtAddr \<Rightarrow> mm_size \<Rightarrow> 'a machine res" where
  "UserMap_UnmapAndReserve c u s addr sz =
     bindE (AssertNoncritical c) (\<lambda>_.
     bindE (um_unset c (um_table u) (unat (pageCount sz)) addr (pageSize sz) s) (\<lambda>s.
       Inr (DistributeInvlpg s addr (Bytes sz))))"

definition UserMap_Reserve ::
    "crit \<Rightarrow> 'h node_heap \<Rightarrow> ('a, 'h) umap \<Rightarrow> mm_size \<Rightarrow> (VirtAddr option \<times> ('a, 'h) umap) res" where
  "UserMap_Reserve c nh u sz =
     bindE (AssertNoncritical c) (\<lambda>_.
     bindE (FreeList_Alloc c nh (um_free u) (um_heap u) (pageSize sz) (pageCount sz)) (\<lambda>(addr, l, h).
       Inr (if addr \<noteq> 0 then Some addr else None, u\<lparr>um_free := l, um_heap := h\<rparr>)))"

definition UserMap_ReserveAt ::
    "crit \<Rightarrow> 'h node_heap \<Rightarrow> ('a, 'h) umap \<Rightarrow> VirtAddr \<Rightarrow> mm_size \<Rightarrow> ('a, 'h) umap res" where
  "UserMap_ReserveAt c nh u addr sz =
     bindE (assertE (addr \<ge> KernelEnd) ''addr >= PageTable::KernelEnd'') (\<lambda>_.
     bindE (assertE (addr + Bytes sz \<ge> KernelEnd) ''addr + size.Bytes() >= PageTable::KernelEnd'') (\<lambda>_.
     bindE (AssertNoncritical c) (\<lambda>_.
     bindE (FreeList_AllocAt c nh (um_free u) (um_heap u) addr (pageSize sz) (pageCount sz)) (\<lambda>(ok, l, h).
       if \<not> ok then Inl (Panic ''UserMap::ReserveAt() - failed'')
       else Inr (u\<lparr>um_free := l, um_heap := h\<rparr>)))))"

definition UserMap_Unreserve ::
    "crit \<Rightarrow> 'h node_heap \<Rightarrow> ('a, 'h) umap \<Rightarrow> VirtAddr \<Rightarrow> mm_size \<Rightarrow> ('a, 'h) umap res" where
  "UserMap_Unreserve c nh u addr sz = bindE (AssertNoncritical c) (\<lambda>_. um_FreeList_Free c nh u addr sz)"

definition UserMap_Rereserve :: "crit \<Rightarrow> ('a, 'h) umap \<Rightarrow> VirtAddr \<Rightarrow> mm_size \<Rightarrow> u64 \<Rightarrow> ('a, 'h) umap res" where
  "UserMap_Rereserve c u addr oldSize newPageSize =
     bindE (AssertNoncritical c) (\<lambda>_.
     if newPageSize = 0 then Inl DivideError
     else
       bindE (assertE (Bytes oldSize mod newPageSize = 0) ''oldSize.Bytes() % newPageSize == 0'') (\<lambda>_.
       bindE (assertE (addr mod newPageSize = 0) ''addr % newPageSize == 0'') (\<lambda>_. Inr u)))"

text \<open>The page delegate, when set, and the copy itself are arguments.\<close>

definition UserMap_CopyToKernel ::
    "(VirtAddr \<Rightarrow> bool \<Rightarrow> 's \<Rightarrow> 's res) option \<Rightarrow> (VirtAddr \<Rightarrow> VirtAddr \<Rightarrow> u64 \<Rightarrow> 's \<Rightarrow> 's res)
     \<Rightarrow> VirtAddr \<Rightarrow> VirtAddr \<Rightarrow> u64 \<Rightarrow> 's \<Rightarrow> 's res" where
  "UserMap_CopyToKernel delegate memcpy dest start sz s =
     (if start + sz < start \<or> start < KernelEnd then
        (case delegate of
           None \<Rightarrow> Inl (Panic ''UserMap::CopyToKernel() - page fault with no delegate'')
         | Some f \<Rightarrow> f start False s)
      else memcpy dest start sz s)"

definition UserMap_CopyFromKernel ::
    "(VirtAddr \<Rightarrow> bool \<Rightarrow> 's \<Rightarrow> 's res) option \<Rightarrow> (VirtAddr \<Rightarrow> VirtAddr \<Rightarrow> u64 \<Rightarrow> 's \<Rightarrow> 's res)
     \<Rightarrow> VirtAddr \<Rightarrow> VirtAddr \<Rightarrow> u64 \<Rightarrow> 's \<Rightarrow> 's res" where
  "UserMap_CopyFromKernel delegate memcpy dest start sz s =
     (if dest + sz < dest \<or> dest < KernelEnd then
        (case delegate of
           None \<Rightarrow> Inl (Panic ''UserMap::CopyFromKernel() - page fault with no delegate'')
         | Some f \<Rightarrow> f dest True s)
      else memcpy dest start sz s)"

section \<open>Properties\<close>

lemma no_wrap: "\<not> a + n < a \<longleftrightarrow> unat a + unat n < 2 ^ 64" for a n :: u64
proof -
  have "unat (a + n) = (unat a + unat n) mod 2 ^ 64" by (simp add: unat_word_ariths)
  moreover have "unat a < 2 ^ 64" "unat n < 2 ^ 64" using unsigned_less [of a] unsigned_less [of n] by simp_all
  ultimately show ?thesis
    by (cases "unat a + unat n < 2 ^ 64") (auto simp: word_less_nat_alt mod_if not_less)
qed

text \<open>
  A process cannot use the copy operations to reach the kernel: CopyFromKernel and
  CopyToKernel copy only when the whole range on the process's side lies above KernelEnd and
  does not wrap around; any other range, overflowing ones included, is reported to the page
  delegate as a fault at its first address, or panics when there is none.
\<close>

lemma UserMap_copy_guard:
  "UserMap_CopyFromKernel delegate memcpy a b n s =
     (if unat KernelEnd \<le> unat a \<and> unat a + unat n < 2 ^ 64 then memcpy a b n s
      else (case delegate of None \<Rightarrow> Inl (Panic ''UserMap::CopyFromKernel() - page fault with no delegate'')
            | Some f \<Rightarrow> f a True s))
   \<and> UserMap_CopyToKernel delegate memcpy b a n s =
     (if unat KernelEnd \<le> unat a \<and> unat a + unat n < 2 ^ 64 then memcpy b a n s
      else (case delegate of None \<Rightarrow> Inl (Panic ''UserMap::CopyToKernel() - page fault with no delegate'')
            | Some f \<Rightarrow> f a False s))"
  using no_wrap [of a n] unfolding UserMap_CopyFromKernel_def UserMap_CopyToKernel_def
  by (auto simp: word_less_nat_alt not_less)

lemma pt_inv_Distribute: "pt_inv ainv taken (DistributeInvlpg s v n) = pt_inv ainv taken s"
  "pmem (DistributeInvlpg s v n) = pmem s" "cr3 (DistributeInvlpg s v n) = cr3 s"
  by (simp_all add: DistributeInvlpg_def pt_inv_def)


definition ex_umap :: "(PhysAddr, u64) umap" where
  "ex_umap = \<lparr>um_table = ex_table, um_free = [], um_heap = 0x100\<rparr>"


lemma free_range: "{a :: u64. unat (KernelEnd) \<le> unat a \<and> unat a < unat KernelEnd + unat (0x8000000000 * 0xff :: u64)}
    = {a. 0x8000000000 \<le> a \<and> a < 0x800000000000}"
  by (auto simp: KernelEnd_def word_le_nat_alt word_less_nat_alt)

text \<open>
  C40. A new process gets only a sixteenth of the upper half of its address space: as long as
  the list's nodes can be allocated, the free addresses of a new map are the lower half
  above the kernel and the range from 0xFFFF800000000000 of 255 pieces of 0x800000000 bytes,
  where the code means 255 pieces of 0x8000000000; everything from 0xFFFF87F800000000 on is
  never handed out.
\<close>

theorem UserMap_new_upper_half:
  assumes "noncritical c" and "heap_total nh"
  shows "init_free c nh h = Inl NullDeref \<or>
    (\<exists>l h'. init_free c nh h = Inr (l, h') \<and> wf_list l \<and> above 1 l
      \<and> free_set l = {a. 0xFFFF800000000000 \<le> a \<and> a < 0xFFFF87F800000000} \<union> {a. 0x8000000000 \<le> a \<and> a < 0x800000000000})"
proof -
  let ?A = "{a :: u64. 0x8000000000 \<le> a \<and> a < 0x800000000000}"
  have u: "{a :: u64. unat (0xFFFF800000000000 :: u64) \<le> unat a
        \<and> unat a < unat (0xFFFF800000000000 :: u64) + unat (0x800000000 * 0xff :: u64)}
      = {a. 0xFFFF800000000000 \<le> a \<and> a < 0xFFFF87F800000000}"
    by (auto simp: word_le_nat_alt word_less_nat_alt)
  have k: "0 < unat KernelEnd" "0 < unat (0x8000000000 * 0xff :: u64)"
    "unat KernelEnd + unat (0x8000000000 * 0xff :: u64) \<le> 2 ^ 64"
    by (simp_all add: KernelEnd_def)
  have e: "wf_list []" "above 1 []" by simp_all
  from FreeList_Free_adds [OF assms e k, of h]
  consider "FreeList_Free c nh [] h KernelEnd 0x8000000000 0xff = Inl NullDeref"
    | l h1 where "FreeList_Free c nh [] h KernelEnd 0x8000000000 0xff = Inr (l, h1)" "wf_list l" "above 1 l"
      "free_set l = ?A"
    unfolding free_range by auto
  then show ?thesis
  proof cases
    case 1
    then show ?thesis by (simp add: init_free_def)
  next
    case (2 l h1)
    have a: "0 < unat (0xFFFF800000000000 :: u64)" "0 < unat (0x800000000 * 0xff :: u64)"
      "unat (0xFFFF800000000000 :: u64) + unat (0x800000000 * 0xff :: u64) \<le> 2 ^ 64" by simp_all
    have n: "a \<notin> free_set l" if "unat (0xFFFF800000000000 :: u64) \<le> unat a" for a
      using that by (simp add: 2(4) word_less_nat_alt not_less)
    from FreeList_Free_adds [OF assms 2(2,3) a n, of h1] 2(1,4) show ?thesis
      unfolding u by (auto simp: init_free_def)
  qed
qed

theorem UserMap_new_upper_half_witness:
  "\<exists>l h'. init_free ex_noncrit ex_nodes 0x100 = Inr (l, h') \<and> 0xFFFF900000000000 \<notin> free_set l"
proof -
  have "case init_free ex_noncrit ex_nodes 0x100 of Inr _ \<Rightarrow> True | _ \<Rightarrow> False" by code_simp
  then show ?thesis
    using UserMap_new_upper_half [OF ex_list_ok(1,2), of "0x100"]
    by (auto split: sum.splits)
qed

end
