(* ===== verification/Acpi.thy ===== *)
theory Acpi
  imports Interrupts
begin

unbundle bit_operations_syntax

text \<open>
  The ACPI tables (\<^verbatim>\<open>src/arch/x64/acpi\<close>): finding the root pointer, the root tables, the APIC
  table and its iterator. \<^verbatim>\<open>pb\<close> gives the bytes of physical memory; a table read through an
  EasyMap or PhysCopy shows the bytes at its physical address (theory MemoryProps), so it is
  read from there.
\<close>

section \<open>Reading memory\<close>

type_synonym bytes = "u64 \<Rightarrow> u8"

definition rd_le :: "nat \<Rightarrow> bytes \<Rightarrow> u64 \<Rightarrow> u64" where
  "rd_le n pb a = of_le (map (\<lambda>i. pb (a + of_nat i)) [0..<n])"

definition rd32 :: "bytes \<Rightarrow> u64 \<Rightarrow> u32" where
  "rd32 pb a = ucast (rd_le 4 pb a)"

section \<open>The root pointer and the root tables\<close>

definition MemChecksum :: "bytes \<Rightarrow> u64 \<Rightarrow> nat \<Rightarrow> u8" where
  "MemChecksum pb ptr len = fold (\<lambda>i sum. sum + pb (ptr + of_nat i)) [0..<len] 0"

definition rsdp_signature :: "u8 list" where
  "rsdp_signature = [0x52, 0x53, 0x44, 0x20, 0x50, 0x54, 0x52, 0x20]"

definition AcpiPointer_at :: "bytes \<Rightarrow> nat \<Rightarrow> bool" where
  "AcpiPointer_at pb p \<longleftrightarrow>
     map (\<lambda>i. pb (of_nat p + of_nat i)) [0..<8] = rsdp_signature \<and> MemChecksum pb (of_nat p) 0x14 = 0"

definition AcpiPointer_Find :: "bytes \<Rightarrow> u64 option" where
  "AcpiPointer_Find pb =
     (case List.find (AcpiPointer_at pb) [0x80000..<0x9fc00] of
        Some p \<Rightarrow> Some (of_nat p)
      | None \<Rightarrow> map_option of_nat (List.find (AcpiPointer_at pb) [0xe0000..<0x100000]))"

datatype root_kind = Rsdt | Xsdt

record acpi_root =
  ar_kind :: root_kind
  ar_base :: PhysAddr
  tableSize :: u64

definition AcpiRoot_new :: "root_kind \<Rightarrow> bytes \<Rightarrow> PhysAddr \<Rightarrow> acpi_root" where
  "AcpiRoot_new k pb tableBase = \<lparr>ar_kind = k, ar_base = tableBase, tableSize = ucast (rd32 pb (tableBase + 4))\<rparr>"

text \<open>The fields revision, ptrRSDT and ptrXSDT of the packed root pointer.\<close>

definition GenerateRoot :: "bytes \<Rightarrow> u64 \<Rightarrow> acpi_root" where
  "GenerateRoot pb p =
     (if pb (p + 15) = 0 then AcpiRoot_new Rsdt pb (ucast (rd32 pb (p + 16)))
      else AcpiRoot_new Xsdt pb (rd_le 8 pb (p + 24)))"

definition int_of_size :: "u64 \<Rightarrow> int" where
  "int_of_size n = sint (ucast n :: u32)"

definition Rsdt_GetCount :: "acpi_root \<Rightarrow> int" where
  "Rsdt_GetCount r = int_of_size ((tableSize r - 0x24) div 4)"

definition Rsdt_GetTable :: "bytes \<Rightarrow> acpi_root \<Rightarrow> int \<Rightarrow> PhysAddr" where
  "Rsdt_GetTable pb r i = ucast (rd32 pb (ar_base r + 0x24 + 4 * of_int i))"

definition Xsdt_GetCount :: "acpi_root \<Rightarrow> int" where
  "Xsdt_GetCount r = int_of_size ((tableSize r - 0x24) div 8)"

definition Xsdt_GetTable :: "bytes \<Rightarrow> acpi_root \<Rightarrow> int \<Rightarrow> PhysAddr" where
  "Xsdt_GetTable pb r i = rd_le 8 pb (ar_base r + 0x24 + 8 * of_int i)"

definition AcpiRoot_GetCount :: "acpi_root \<Rightarrow> int" where
  "AcpiRoot_GetCount r = (case ar_kind r of Rsdt \<Rightarrow> Rsdt_GetCount r | Xsdt \<Rightarrow> Xsdt_GetCount r)"

definition AcpiRoot_GetTable :: "bytes \<Rightarrow> acpi_root \<Rightarrow> int \<Rightarrow> PhysAddr" where
  "AcpiRoot_GetTable pb r i = (case ar_kind r of Rsdt \<Rightarrow> Rsdt_GetTable pb r i | Xsdt \<Rightarrow> Xsdt_GetTable pb r i)"

definition AcpiRoot_FindTable :: "bytes \<Rightarrow> acpi_root \<Rightarrow> u32 \<Rightarrow> int" where
  "AcpiRoot_FindTable pb r num =
     (case List.find (\<lambda>i. rd32 pb (AcpiRoot_GetTable pb r (int i)) = num) [0..<nat (AcpiRoot_GetCount r)] of
        Some i \<Rightarrow> int i | None \<Rightarrow> -1)"

section \<open>The APIC table\<close>

record apic_table =
  at_base :: PhysAddr
  at_size :: u64

record apic_iter =
  it_address :: u64
  it_size :: u64

definition TypeLapic :: u8 where "TypeLapic = 0"
definition TypeIOApic :: u8 where "TypeIOApic = 1"
definition TypeIso :: u8 where "TypeIso = 2"
definition TypeX2Apic :: u8 where "TypeX2Apic = 9"

definition ApicTable_new :: "bytes \<Rightarrow> PhysAddr \<Rightarrow> apic_table" where
  "ApicTable_new pb baseAddr = \<lparr>at_base = baseAddr, at_size = ucast (rd32 pb (baseAddr + 4))\<rparr>"

definition header_size :: u64 where
  "header_size = 44"

definition ApicTable_lapicAddr :: "bytes \<Rightarrow> apic_table \<Rightarrow> u32" where
  "ApicTable_lapicAddr pb t = rd32 pb (at_base t + 36)"

definition SystemHas8259 :: "bytes \<Rightarrow> apic_table \<Rightarrow> bool" where
  "SystemHas8259 pb t \<longleftrightarrow> rd32 pb (at_base t + 40) AND 1 \<noteq> 0"

definition GetData :: "apic_table \<Rightarrow> u64" where
  "GetData t = at_base t + header_size"

definition GetDataSize :: "apic_table \<Rightarrow> u64" where
  "GetDataSize t = at_size t - header_size"

definition CanIterate :: "apic_table \<Rightarrow> bool" where
  "CanIterate t \<longleftrightarrow> GetDataSize t > 0"

definition GetIterator :: "apic_table \<Rightarrow> apic_iter" where
  "GetIterator t = \<lparr>it_address = GetData t, it_size = GetDataSize t\<rparr>"

definition it_GetType :: "bytes \<Rightarrow> apic_iter \<Rightarrow> u8" where
  "it_GetType pb it = pb (it_address it)"

definition it_GetSize :: "bytes \<Rightarrow> apic_iter \<Rightarrow> u64" where
  "it_GetSize pb it = ucast (pb (it_address it + 1))"

text \<open>None at the end of the table.\<close>

definition it_Next :: "bytes \<Rightarrow> apic_iter \<Rightarrow> apic_iter option res" where
  "it_Next pb it =
     (let thisSize = it_GetSize pb it
      in bindE (assertE (thisSize \<le> it_size it) ''thisSize <= dataSize'') (\<lambda>_.
           if thisSize = it_size it then Inr None
           else Inr (Some \<lparr>it_address = it_address it + thisSize, it_size = it_size it - thisSize\<rparr>)))"

text \<open>
  The loop \<^verbatim>\<open>do ... while (it.Next())\<close>: the body updates a state, or returns a result from
  the enclosing function. The outer option is None when the loop does not end.
\<close>

partial_function (option) do_iterate ::
    "bytes \<Rightarrow> (apic_iter \<Rightarrow> 's \<Rightarrow> 's \<times> 'r option) \<Rightarrow> apic_iter \<Rightarrow> 's \<Rightarrow> ('s \<times> 'r option) res option" where
  "do_iterate pb body it s =
     (case body it s of
        (s, Some r) \<Rightarrow> Some (Inr (s, Some r))
      | (s, None) \<Rightarrow>
          (case it_Next pb it of
             Inl e \<Rightarrow> Some (Inl e)
           | Inr None \<Rightarrow> Some (Inr (s, None))
           | Inr (Some it') \<Rightarrow> do_iterate pb body it' s))"

definition iterate :: "bytes \<Rightarrow> apic_table \<Rightarrow> (apic_iter \<Rightarrow> 's \<Rightarrow> 's \<times> 'r option) \<Rightarrow> 's \<Rightarrow> ('s \<times> 'r option) res option" where
  "iterate pb t body s = (if \<not> CanIterate t then Some (Inr (s, None)) else do_iterate pb body (GetIterator t) s)"

definition CountType :: "bytes \<Rightarrow> apic_table \<Rightarrow> u8 \<Rightarrow> int res option" where
  "CountType pb t ty =
     map_option (\<lambda>x. bindE x (\<lambda>(count, _ :: unit option). Inr count))
       (iterate pb t (\<lambda>it count. (if it_GetType pb it = ty then count + 1 else count, None)) 0)"

definition CountIOApics :: "bytes \<Rightarrow> apic_table \<Rightarrow> int res option" where
  "CountIOApics pb t = CountType pb t TypeIOApic"

text \<open>The flags of the two structures that describe a local APIC.\<close>

definition lapic_flags :: "bytes \<Rightarrow> u64 \<Rightarrow> u32" where
  "lapic_flags pb p = rd32 pb (p + 4)"

definition lapic2_flags :: "bytes \<Rightarrow> u64 \<Rightarrow> u32" where
  "lapic2_flags pb p = rd32 pb (p + 8)"

definition counts_lapic :: "bytes \<Rightarrow> bool \<Rightarrow> u64 \<Rightarrow> bool" where
  "counts_lapic pb checkUsable p \<longleftrightarrow>
     (if pb p = TypeLapic then \<not> checkUsable \<or> lapic_flags pb p AND 1 \<noteq> 0
      else if pb p = TypeX2Apic then \<not> checkUsable \<or> lapic2_flags pb p AND 1 \<noteq> 0
      else False)"

definition CountLapics :: "bytes \<Rightarrow> apic_table \<Rightarrow> bool \<Rightarrow> int res option" where
  "CountLapics pb t checkUsable =
     map_option (\<lambda>x. bindE x (\<lambda>(count, _ :: unit option). Inr count))
       (iterate pb t (\<lambda>it count. (if counts_lapic pb checkUsable (it_address it) then count + 1 else count, None)) 0)"

text \<open>An interrupt source override and an I/O APIC entry, read at their address.\<close>

record iso =
  iso_bus :: u8
  iso_source :: u8
  iso_interrupt :: u32
  iso_flags :: u16

definition iso_at :: "bytes \<Rightarrow> u64 \<Rightarrow> iso" where
  "iso_at pb p = \<lparr>iso_bus = pb (p + 2), iso_source = pb (p + 3), iso_interrupt = rd32 pb (p + 4),
     iso_flags = ucast (rd_le 2 pb (p + 8))\<rparr>"

record ioapic_info =
  info_baseAddr :: u32
  info_interruptBase :: u32

definition ioapic_info_at :: "bytes \<Rightarrow> u64 \<Rightarrow> ioapic_info" where
  "ioapic_info_at pb p = \<lparr>info_baseAddr = rd32 pb (p + 4), info_interruptBase = rd32 pb (p + 8)\<rparr>"

definition lookup :: "bytes \<Rightarrow> apic_table \<Rightarrow> (u64 \<Rightarrow> 'r option) \<Rightarrow> 'r option res option" where
  "lookup pb t f = map_option (\<lambda>x. bindE x (\<lambda>(_, r). Inr r)) (iterate pb t (\<lambda>it s. (s, f (it_address it))) ())"

definition LookupIso :: "bytes \<Rightarrow> apic_table \<Rightarrow> u8 \<Rightarrow> iso option res option" where
  "LookupIso pb t physIRQ = lookup pb t (\<lambda>p.
     if pb p \<noteq> TypeIso then None
     else let i = iso_at pb p in if iso_source i = physIRQ \<and> iso_bus i = 0 then Some i else None)"

definition LookupIOApic :: "bytes \<Rightarrow> apic_table \<Rightarrow> u32 \<Rightarrow> ioapic_info option res option" where
  "LookupIOApic pb t base = lookup pb t (\<lambda>p.
     if pb p \<noteq> TypeIOApic then None
     else let i = ioapic_info_at pb p in if info_interruptBase i = base then Some i else None)"

section \<open>The HPET table and the module\<close>

text \<open>
  The structure is not packed, so the field after the one-byte \<^verbatim>\<open>hpetNumber\<close> is aligned.
\<close>

record hpet_table =
  hpet_address :: u64
  hpet_blockID :: u32
  hpet_number :: u8
  hpet_counterMinimum :: u16

definition HpetTable_at :: "bytes \<Rightarrow> PhysAddr \<Rightarrow> hpet_table" where
  "HpetTable_at pb p = \<lparr>hpet_address = rd_le 8 pb (p + 44), hpet_blockID = rd32 pb (p + 36),
     hpet_number = pb (p + 52), hpet_counterMinimum = ucast (rd_le 2 pb (p + 54))\<rparr>"

text \<open>
  \<^verbatim>\<open>newOk\<close> says which allocations succeed. The copy of the HPET table goes to the
  allocated object unchecked.
\<close>

definition AcpiModule_Initialize ::
    "(string \<Rightarrow> bool) \<Rightarrow> bytes \<Rightarrow> (acpi_root \<times> apic_table option \<times> hpet_table option) res" where
  "AcpiModule_Initialize newOk pb =
     (case AcpiPointer_Find pb of
        None \<Rightarrow> Inl (AssertFail ''pointer != NULL'')
      | Some pointer \<Rightarrow>
          bindE (assertE (newOk ''root'') ''root != NULL'') (\<lambda>_.
          let root = GenerateRoot pb pointer; apicIndex = AcpiRoot_FindTable pb root 0x43495041 in
          bindE (if apicIndex \<ge> 0 then
                   bindE (assertE (newOk ''ApicTable'') ''apicTable != NULL'') (\<lambda>_.
                     Inr (Some (ApicTable_new pb (AcpiRoot_GetTable pb root apicIndex))))
                 else Inr None) (\<lambda>apicTable.
          let hpetIndex = AcpiRoot_FindTable pb root 0x54455048 in
          bindE (if hpetIndex \<ge> 0 then
                   (if newOk ''HpetTable'' then Inr (Some (HpetTable_at pb (AcpiRoot_GetTable pb root hpetIndex)))
                    else Inl NullDeref)
                 else Inr None) (\<lambda>hpetTable.
            Inr (root, apicTable, hpetTable)))))"

section \<open>Properties\<close>

text \<open>
  The entries of a table, by their addresses: each has a positive length, and the lengths
  add up to the size.
\<close>

fun chain :: "bytes \<Rightarrow> u64 \<Rightarrow> u64 \<Rightarrow> u64 list \<Rightarrow> bool" where
  "chain pb a n [] = False"
| "chain pb a n (e # es) =
     (e = a \<and> 0 < (ucast (pb (a + 1)) :: u64) \<and> ucast (pb (a + 1)) \<le> n \<and>
      (if ucast (pb (a + 1)) = n then es = [] else chain pb (a + ucast (pb (a + 1))) (n - ucast (pb (a + 1))) es))"

text \<open>The loop over such a table visits the entries in order.\<close>

lemma do_iterate_count:
  "chain pb a n es \<Longrightarrow> do_iterate pb (\<lambda>it s. (f (it_address it) s, None)) \<lparr>it_address = a, it_size = n\<rparr> s
    = Some (Inr (fold f es s, None))"
proof (induction pb a n es arbitrary: s rule: chain.induct)
  case (2 pb a n e es)
  show ?case
    by (subst do_iterate.simps) (use 2 in \<open>auto simp: it_Next_def it_GetSize_def Let_def split: if_splits\<close>)
qed simp

lemma do_iterate_find:
  "chain pb a n es \<Longrightarrow> \<exists>u. do_iterate pb (\<lambda>it s. (s, f (it_address it))) \<lparr>it_address = a, it_size = n\<rparr> s
    = Some (Inr (u, case List.find (\<lambda>e. f e \<noteq> None) es of None \<Rightarrow> None | Some e \<Rightarrow> f e))"
proof (induction pb a n es rule: chain.induct)
  case (2 pb a n e es)
  show ?case
  proof (cases "f e")
    case None
    with 2 show ?thesis
      by (subst do_iterate.simps) (auto simp: it_Next_def it_GetSize_def Let_def split: if_splits)
  next
    case (Some r)
    with 2 show ?thesis by (subst do_iterate.simps) auto
  qed
qed simp

lemma fold_count: "fold (\<lambda>e c. if P e then c + 1 else c) es (k :: int) = k + int (length (filter P es))"
  by (induction es arbitrary: k) auto

text \<open>An entry of length zero keeps the loop where it is.\<close>

definition never_returns :: "(apic_iter \<Rightarrow> 's \<Rightarrow> 's \<times> 'r option) \<Rightarrow> bool" where
  "never_returns body \<longleftrightarrow> (\<forall>it s. snd (body it s) = None)"

lemma do_iterate_zero:
  "do_iterate pb body it s = Some y \<Longrightarrow> never_returns body \<longrightarrow> 0 < it_size it \<longrightarrow> pb (it_address it + 1) \<noteq> 0"
proof (rule do_iterate.raw_induct [where P = "\<lambda>pb body it s y. never_returns body \<longrightarrow> 0 < it_size it \<longrightarrow>
    pb (it_address it + 1) \<noteq> 0"])
  fix di and pb :: bytes and body :: "apic_iter \<Rightarrow> 'a \<Rightarrow> 'a \<times> 'b option" and it s y
  assume IH: "\<And>pb body it s y. di pb body it s = Some y \<Longrightarrow>
      never_returns body \<longrightarrow> 0 < it_size it \<longrightarrow> pb (it_address it + 1) \<noteq> 0"
    and e: "(case body it s of
        (s, None) \<Rightarrow> (case it_Next pb it of Inl e \<Rightarrow> Some (Inl e) | Inr None \<Rightarrow> Some (Inr (s, None))
          | Inr (Some it') \<Rightarrow> di pb body it' s)
      | (s, Some r) \<Rightarrow> Some (Inr (s, Some r))) = Some y"
  show "never_returns body \<longrightarrow> 0 < it_size it \<longrightarrow> pb (it_address it + 1) \<noteq> 0"
  proof (intro impI notI)
    assume n: "never_returns body" "0 < it_size it" and z: "pb (it_address it + 1) = 0"
    from n(1) have "snd (body it s) = None" unfolding never_returns_def by blast
    then obtain s' where b: "body it s = (s', None)" by (cases "body it s") simp
    from n(2) z have "it_Next pb it = Inr (Some it)" by (simp add: it_Next_def it_GetSize_def)
    with e b have "di pb body it s' = Some y" by simp
    from IH [OF this] n z show False by simp
  qed
qed

lemma CountLapics_iterate:
  assumes "chain pb (GetData t) (GetDataSize t) es"
  shows "iterate pb t (\<lambda>it c. (f (it_address it) c, None)) k = Some (Inr (fold f es k, None))"
proof -
  have "0 < GetDataSize t"
    using assms by (cases es) (auto simp: word_gt_0 split: if_splits)
  with do_iterate_count [OF assms] show ?thesis by (simp add: iterate_def CanIterate_def GetIterator_def)
qed

lemma lookup_find:
  assumes "chain pb (GetData t) (GetDataSize t) es"
  shows "lookup pb t f = Some (Inr (case List.find (\<lambda>e. f e \<noteq> None) es of None \<Rightarrow> None | Some e \<Rightarrow> f e))"
proof -
  have "0 < GetDataSize t"
    using assms by (cases es) (auto simp: word_gt_0 split: if_splits)
  with do_iterate_find [OF assms, of f "()"] show ?thesis
    by (auto simp: lookup_def iterate_def CanIterate_def GetIterator_def)
qed


text \<open>A table with two local APICs, the second not usable, and an override of
  interrupt 0 (active high, edge triggered).\<close>

definition ex_apic_bytes :: bytes where
  "ex_apic_bytes a = (if a < 0x1000 \<or> 0x101a \<le> a then 0 else
     [0, 8, 0, 0, 1, 0, 0, 0, 0, 8, 1, 1, 0, 0, 0, 0, 2, 10, 0, 0, 2, 0, 0, 0, 5, 0] ! unat (a - 0x1000))"


end
