(* ===== verification/IOApic.thy ===== *)
theory IOApic
  imports Acpi Apic
begin

unbundle bit_operations_syntax

text \<open>
  The I/O APIC (\<^verbatim>\<open>src/arch/x64/interrupts/apic/ioapic.cpp\<close>, \<^verbatim>\<open>ioapic-module.cpp\<close>). The device
  has a select register and the registers behind it; the log keeps the order of the writes.
  Its two locks and the critical sections leave no state behind and are not part of the
  model.
\<close>

section \<open>Registers\<close>

record ioapic =
  io_select :: u32
  io_regs :: "u32 \<Rightarrow> u32"
  io_log :: "(u32 \<times> u32) list"

definition IOApic_WriteReg :: "u8 \<Rightarrow> u32 \<Rightarrow> ioapic \<Rightarrow> ioapic" where
  "IOApic_WriteReg reg val d =
     (let d = d\<lparr>io_select := ucast reg\<rparr>
      in d\<lparr>io_regs := (io_regs d)(io_select d := val), io_log := io_log d @ [(io_select d, val)]\<rparr>)"

definition IOApic_ReadReg :: "u8 \<Rightarrow> ioapic \<Rightarrow> u32 \<times> ioapic" where
  "IOApic_ReadReg reg d = (let d = d\<lparr>io_select := ucast reg\<rparr> in (io_regs d (io_select d), d))"

definition RegVersion :: u8 where "RegVersion = 1"

definition IOApic_GetVersion :: "ioapic \<Rightarrow> u32 \<times> ioapic" where
  "IOApic_GetVersion d = (let (v, d) = IOApic_ReadReg RegVersion d in (v AND 0xff, d))"

definition IOApic_GetPinCount :: "ioapic \<Rightarrow> u32 \<times> ioapic" where
  "IOApic_GetPinCount d = (let (v, d) = IOApic_ReadReg RegVersion d in (1 + (drop_bit 0x10 v AND 0xff), d))"

definition IOApic_GetInterruptBase :: "ioapic_info \<Rightarrow> u32" where
  "IOApic_GetInterruptBase info = info_interruptBase info"

section \<open>Entries\<close>

record io_entry =
  e_vector :: u8
  e_delmode :: "3 word"
  e_destmode :: "1 word"
  e_delstatus :: "1 word"
  e_intpol :: "1 word"
  e_remirr :: "1 word"
  e_triggermode :: "1 word"
  e_imask :: "1 word"
  e_reserved :: "39 word"
  e_destfield :: u8

text \<open>The two 32-bit halves of the packed entry.\<close>

definition entry_low :: "io_entry \<Rightarrow> u32" where
  "entry_low e = ucast (e_vector e) OR push_bit 8 (ucast (e_delmode e)) OR push_bit 11 (ucast (e_destmode e))
     OR push_bit 12 (ucast (e_delstatus e)) OR push_bit 13 (ucast (e_intpol e)) OR push_bit 14 (ucast (e_remirr e))
     OR push_bit 15 (ucast (e_triggermode e)) OR push_bit 16 (ucast (e_imask e)) OR push_bit 17 (ucast (e_reserved e))"

definition entry_high :: "io_entry \<Rightarrow> u32" where
  "entry_high e = ucast (drop_bit 15 (e_reserved e)) OR push_bit 24 (ucast (e_destfield e))"

definition empty_entry :: io_entry where
  "empty_entry = \<lparr>e_vector = 0, e_delmode = 0, e_destmode = 0, e_delstatus = 0, e_intpol = 0, e_remirr = 0,
     e_triggermode = 0, e_imask = 0, e_reserved = 0, e_destfield = 0\<rparr>"

text \<open>The register numbers are computed as int and passed as a byte.\<close>

definition IOApic_SetEntry :: "u8 \<Rightarrow> io_entry \<Rightarrow> ioapic \<Rightarrow> ioapic" where
  "IOApic_SetEntry idx entry d =
     (let d = IOApic_WriteReg (0x10 + idx * 2) 0x10000 d;
          d = IOApic_WriteReg (0x11 + idx * 2) (entry_high entry) d
      in IOApic_WriteReg (0x10 + idx * 2) (entry_low entry) d)"

definition IOApic_MaskPin :: "u8 \<Rightarrow> ioapic \<Rightarrow> ioapic" where
  "IOApic_MaskPin irq d = IOApic_WriteReg (0x10 + irq * 2) 0x10000 d"

definition iso_entry :: "u8 \<Rightarrow> iso \<Rightarrow> io_entry" where
  "iso_entry vector i =
     (let entry = empty_entry\<lparr>e_vector := vector\<rparr>;
          entry = (if iso_flags i AND 0x3 \<noteq> 0 then entry\<lparr>e_intpol := 1\<rparr> else entry)
      in if drop_bit 2 (iso_flags i) AND 0x3 \<noteq> 0 then entry\<lparr>e_triggermode := 1\<rparr> else entry)"

definition IOApic_MapIrq :: "bytes \<Rightarrow> apic_table \<Rightarrow> u8 \<Rightarrow> u8 \<Rightarrow> ioapic \<Rightarrow> ioapic res option" where
  "IOApic_MapIrq pb t irq vector d =
     map_option (\<lambda>x. bindE x (\<lambda>r. Inr (case r of
         Some i \<Rightarrow> IOApic_SetEntry (ucast (iso_interrupt i)) (iso_entry vector i) d
       | None \<Rightarrow> IOApic_SetEntry irq (empty_entry\<lparr>e_vector := vector\<rparr>) d)))
       (LookupIso pb t irq)"

definition IOApic_MaskIrq :: "bytes \<Rightarrow> apic_table \<Rightarrow> u8 \<Rightarrow> ioapic \<Rightarrow> ioapic res option" where
  "IOApic_MaskIrq pb t irq d =
     map_option (\<lambda>x. bindE x (\<lambda>r. Inr (IOApic_MaskPin (case r of Some i \<Rightarrow> ucast (iso_interrupt i) | None \<Rightarrow> irq) d)))
       (LookupIso pb t irq)"

section \<open>The module\<close>

text \<open>The loop reads the pin count, at most 0x100, before every step.\<close>

definition mask_pins :: "ioapic \<Rightarrow> ioapic" where
  "mask_pins = fold (\<lambda>i d. let (count, d) = IOApic_GetPinCount d
     in if of_nat i < count then IOApic_MaskPin (of_nat i) d else d) [0..<0x100]"

definition hw_critical :: "bool \<Rightarrow> hw \<Rightarrow> hw" where
  "hw_critical flag h = h\<lparr>hw_crit := SetCritical flag (hw_crit h)\<rparr>"

definition IOApicModule_Initialize ::
    "bool \<Rightarrow> bytes \<Rightarrow> apic_table option \<Rightarrow> ioapic \<Rightarrow> hw \<Rightarrow> (ioapic_info \<times> ioapic \<times> hw) res option" where
  "IOApicModule_Initialize newOk pb t d h = (case t of
     None \<Rightarrow> Some (Inl (Panic ''IOApicModule::Initialize() - no APIC table in ACPI''))
   | Some t \<Rightarrow> map_option (\<lambda>x. bindE x (\<lambda>r. case r of
         None \<Rightarrow> Inl (Panic ''IOApicModule::Initialize() - no base I/O APIC'')
       | Some info \<Rightarrow>
           bindE (assertE newOk ''baseIOApic != NULL'') (\<lambda>_.
           let d = mask_pins d; h = hw_critical True h in
           bindE (OutB 0x22 0x70 h) (\<lambda>h. bindE (OutB 0x23 0x01 h) (\<lambda>h.
             Inr (info, snd (IOApic_GetVersion d), hw_critical False h))))))
       (LookupIOApic pb t 0))"

section \<open>Properties\<close>

lemma entry_words:
  "entry_high (iso_entry v i) = 0"
  "entry_low (iso_entry v i) = ucast v OR (if iso_flags i AND 3 \<noteq> 0 then 0x2000 else 0)
     OR (if drop_bit 2 (iso_flags i) AND 3 \<noteq> 0 then 0x8000 else 0)"
  by (simp_all add: entry_high_def entry_low_def iso_entry_def Let_def empty_entry_def or.assoc)

lemma pin_regs:
  assumes "unat pin < 0x78"
  shows "(ucast (0x10 + pin * 2 :: u8) :: u32) = 0x10 + 2 * ucast pin" "(ucast (0x11 + pin * 2 :: u8) :: u32) = 0x11 + 2 * ucast pin"
proof -
  have m: "unat (pin * 2) = 2 * unat pin" using assms by (subst unat_mult_lem [THEN iffD1]) simp_all
  have p: "unat (0x10 + pin * 2 :: u8) = 0x10 + 2 * unat pin" "unat (0x11 + pin * 2 :: u8) = 0x11 + 2 * unat pin"
    using assms m by (subst unat_add_lem [THEN iffD1]; simp)+
  have u: "unat (ucast b :: u32) = unat b" for b :: u8
    using unat_less_2p [of b] by (simp add: unsigned_ucast_eq take_bit_nat_eq_self)
  have q: "unat (2 * ucast pin :: u32) = 2 * unat pin"
    using assms u [of pin] by (subst unat_mult_lem [THEN iffD1]) simp_all
  have r: "unat (0x10 + 2 * ucast pin :: u32) = 0x10 + 2 * unat pin" "unat (0x11 + 2 * ucast pin :: u32) = 0x11 + 2 * unat pin"
    using assms q by (subst unat_add_lem [THEN iffD1]; simp)+
  show "(ucast (0x10 + pin * 2 :: u8) :: u32) = 0x10 + 2 * ucast pin" "(ucast (0x11 + pin * 2 :: u8) :: u32) = 0x11 + 2 * ucast pin"
    by (simp_all only: word_unat_eq_iff u p r)
qed



end
