(* ===== verification/Console.thy ===== *)
theory Console
  imports Hardware
begin

unbundle bit_operations_syntax

text \<open>
  The text console and the output streams (\<^verbatim>\<open>src/arch/x64/console/text-console.cpp\<close>,
  \<^verbatim>\<open>src/util/stream.cpp\<close>) and the message of a panic (\<^verbatim>\<open>src/arch/x64/panic/panic.cpp\<close>).
  Strings are lists of bytes, without the final zero; the screen is an array of cells.
\<close>

section \<open>The text console\<close>

record console =
  con_color :: u8
  con_x :: int
  con_y :: int
  con_buf :: "nat \<Rightarrow> u16"

definition con_GetWidth :: int where "con_GetWidth = 80"
definition con_GetHeight :: int where "con_GetHeight = 25"

definition GetBufferIndex :: "console \<Rightarrow> nat" where
  "GetBufferIndex c =
     (let pos = (word_of_int (con_y c * con_GetWidth + con_x c) :: u16)
      in if uint pos \<ge> con_GetWidth * con_GetHeight then nat (con_GetWidth * con_GetHeight - 1) else unat pos)"

definition CurrentCharacter :: "console \<Rightarrow> u16" where
  "CurrentCharacter c = con_buf c (GetBufferIndex c)"

definition set_cell :: "u16 \<Rightarrow> console \<Rightarrow> console" where
  "set_cell v c = c\<lparr>con_buf := (con_buf c)(GetBufferIndex c := v)\<rparr>"

definition attribute :: "console \<Rightarrow> u16" where
  "attribute c = push_bit 8 (ucast (con_color c))"

definition con_ScrollUp :: "console \<Rightarrow> console" where
  "con_ScrollUp c =
     (let buffer = fold (\<lambda>i b. b(i := b (i + 80))) [0..<80 * (25 - 1)] (con_buf c)
      in c\<lparr>con_buf := fold (\<lambda>i b. b(i := 0)) [80 * (25 - 1)..<80 * 25] buffer\<rparr>)"

definition PrintNewline :: "console \<Rightarrow> console" where
  "PrintNewline c =
     (let c = c\<lparr>con_x := 0, con_y := con_y c + 1\<rparr>
      in if con_y c \<ge> con_GetHeight then con_ScrollUp (c\<lparr>con_y := con_GetHeight - 1\<rparr>) else c)"

definition PrintCarriageReturn :: "console \<Rightarrow> console" where
  "PrintCarriageReturn c = c\<lparr>con_x := 0\<rparr>"

text \<open>The loop over the previous line, from a column on.\<close>

function find_blank :: "console \<Rightarrow> console" where
  "find_blank c =
     (if con_x c < con_GetWidth then
        (if CurrentCharacter c AND 0xff = 0 then c else find_blank (c\<lparr>con_x := con_x c + 1\<rparr>))
      else c)"
  by pat_completeness auto
termination
  by (relation "measure (\<lambda>c. nat (con_GetWidth - con_x c))") auto

definition PrintBackspace :: "console \<Rightarrow> console" where
  "PrintBackspace c =
     (if con_x c \<noteq> 0 then let c = c\<lparr>con_x := con_x c - 1\<rparr> in set_cell (attribute c) c
      else
        let c = find_blank (c\<lparr>con_y := con_y c - 1, con_x := 0\<rparr>);
            c = (if con_x c = con_GetWidth then c\<lparr>con_x := con_x c - 1\<rparr> else c)
        in set_cell (attribute c) c)"

definition PrintCharacter :: "u8 \<Rightarrow> console \<Rightarrow> console" where
  "PrintCharacter theChar c =
     (let c = (if con_x c = con_GetWidth then PrintNewline c else c);
          c = set_cell (ucast theChar OR attribute c) c;
          c = c\<lparr>con_x := con_x c + 1\<rparr>
      in if con_x c = 80 \<and> con_y c = con_GetHeight - 1 then
           let c = con_ScrollUp c in c\<lparr>con_y := con_y c - 1\<rparr>
         else c)"

definition print_one :: "u8 \<Rightarrow> console \<Rightarrow> console" where
  "print_one theChar c =
     (if theChar = 0x0a then PrintNewline c
      else if theChar = 0x0d then PrintCarriageReturn c
      else if theChar = 0x08 then PrintBackspace c
      else PrintCharacter theChar c)"

definition PositionCursor :: "nat \<Rightarrow> hw \<Rightarrow> hw res" where
  "PositionCursor position h =
     bindE (OutB 0x3D4 0x0f h) (\<lambda>h. bindE (OutB 0x3D5 (ucast (of_nat position AND 0xff :: u16)) h) (\<lambda>h.
     bindE (OutB 0x3D4 0x0e h) (OutB 0x3D5 (ucast (drop_bit 8 (of_nat position) AND 0xff :: u16)))))"

definition PrintString :: "u8 list \<Rightarrow> console \<Rightarrow> hw \<Rightarrow> (console \<times> hw) res" where
  "PrintString str c h =
     (let c = fold print_one str c;
          c = (if CurrentCharacter c AND 0xff00 = 0 then set_cell (attribute c) c else c)
      in bindE (with_critical (PositionCursor (GetBufferIndex c)) h) (\<lambda>h. Inr (c, h)))"

definition SetColor :: "u8 \<Rightarrow> bool \<Rightarrow> console \<Rightarrow> console" where
  "SetColor clr bright c = c\<lparr>con_color := clr OR (if bright then 8 else 0)\<rparr>"

definition TextConsole_Initialize :: "console \<Rightarrow> console" where
  "TextConsole_Initialize c = c\<lparr>con_buf := (\<lambda>i. if i < 80 * 25 then 0 else con_buf c i)\<rparr>"

text \<open>The cursor stays on the screen, and never rests behind the last cell.\<close>

definition con_ok :: "console \<Rightarrow> bool" where
  "con_ok c \<longleftrightarrow> 0 \<le> con_x c \<and> con_x c \<le> 80 \<and> 0 \<le> con_y c \<and> con_y c < 25 \<and> \<not> (con_x c = 80 \<and> con_y c = 24)"

lemma index_ok:
  assumes "con_ok c"
  shows "GetBufferIndex c = nat (80 * con_y c + con_x c)" "GetBufferIndex c < 2000"
proof -
  let ?p = "con_y c * 80 + con_x c"
  have p: "0 \<le> ?p" "?p < 2000" using assms by (auto simp: con_ok_def)
  have "uint (word_of_int q :: u16) = q" if "0 \<le> q" "q < 2000" for q
    using that by (simp add: uint_word_of_int)
  from this [OF p] have u: "uint (word_of_int ?p :: u16) = ?p" .
  then have n: "unat (word_of_int ?p :: u16) = nat ?p" by (metis unat_eq_nat_uint)
  show "GetBufferIndex c = nat (80 * con_y c + con_x c)"
    using p u n by (simp add: GetBufferIndex_def Let_def con_GetWidth_def con_GetHeight_def mult.commute)
  with p show "GetBufferIndex c < 2000" by (simp add: mult.commute)
qed

lemma set_cell_sel [simp]:
  "con_x (set_cell v c) = con_x c" "con_y (set_cell v c) = con_y c" "con_color (set_cell v c) = con_color c"
  by (simp_all add: set_cell_def)

lemma ScrollUp_sel [simp]:
  "con_x (con_ScrollUp c) = con_x c" "con_y (con_ScrollUp c) = con_y c" "con_color (con_ScrollUp c) = con_color c"
  by (simp_all add: con_ScrollUp_def Let_def)

lemma PrintNewline_ok: "con_ok c \<Longrightarrow> con_ok (PrintNewline c) \<and> con_x (PrintNewline c) = 0"
  by (simp add: con_ok_def PrintNewline_def Let_def con_GetHeight_def)

lemma print_one_ok: "con_ok c \<Longrightarrow> ch \<noteq> 8 \<Longrightarrow> con_ok (print_one ch c)"
proof -
  assume c: "con_ok c" and ch: "ch \<noteq> 8"
  have "con_ok (PrintCharacter ch c)"
    using c PrintNewline_ok [OF c]
    by (auto simp: PrintCharacter_def Let_def con_ok_def con_GetWidth_def con_GetHeight_def)
  moreover have "con_ok (PrintCarriageReturn c)" using c by (auto simp: con_ok_def PrintCarriageReturn_def)
  ultimately show ?thesis using PrintNewline_ok [OF c] ch by (simp add: print_one_def)
qed

lemma fold_print_ok: "con_ok c \<Longrightarrow> 8 \<notin> set str \<Longrightarrow> con_ok (fold print_one str c)"
  by (induction str arbitrary: c) (auto intro: print_one_ok)

lemma PositionCursor_ok:
  "\<exists>h'. with_critical (PositionCursor i) h = Inr h' \<and> hw_crit h' = hw_crit h"
  using with_critical_ok [of "PositionCursor i" "\<lambda>h. h\<lparr>ports := ports h @ [(0x3D4, 0x0f),
      (0x3D5, ucast (of_nat i AND 0xff :: u16)), (0x3D4, 0x0e), (0x3D5, ucast (drop_bit 8 (of_nat i) AND 0xff :: u16))]\<rparr>" h]
  by (auto simp: PositionCursor_def OutB_def)

lemma print_plain:
  assumes "con_ok c" and "con_x c < 79" and "ch \<notin> {0x0a, 0x0d, 0x08}"
  shows "print_one ch c = c\<lparr>con_x := con_x c + 1,
    con_buf := (con_buf c)(nat (80 * con_y c + con_x c) := ucast ch OR attribute c)\<rparr>"
  using assms index_ok(1) [OF assms(1)]
  by (simp add: print_one_def PrintCharacter_def Let_def con_GetWidth_def set_cell_def)

lemma fold_print_plain:
  "con_ok c \<Longrightarrow> con_x c + int (length str) < 80 \<Longrightarrow> set str \<inter> {0x0a, 0x0d, 0x08} = {} \<Longrightarrow>
   fold print_one str c = c\<lparr>con_x := con_x c + int (length str),
     con_buf := (\<lambda>i. if nat (80 * con_y c + con_x c) \<le> i \<and> i < nat (80 * con_y c + con_x c) + length str
       then ucast (str ! (i - nat (80 * con_y c + con_x c))) OR attribute c else con_buf c i)\<rparr>"
proof (induction str arbitrary: c)
  case Nil
  have "(\<lambda>i. if nat (80 * con_y c + con_x c) \<le> i \<and> i < nat (80 * con_y c + con_x c) then
      ucast (([] :: u8 list) ! (i - nat (80 * con_y c + con_x c))) OR attribute c else con_buf c i) = con_buf c"
    by (intro ext) auto
  then show ?case by simp
next
  case (Cons ch str)
  let ?k = "nat (80 * con_y c + con_x c)"
  let ?c = "c\<lparr>con_x := con_x c + 1, con_buf := (con_buf c)(?k := ucast ch OR attribute c)\<rparr>"
  have p: "print_one ch c = ?c" by (rule print_plain [OF Cons.prems(1)]) (use Cons.prems in auto)
  have ok: "con_ok ?c" using Cons.prems(1,2) by (auto simp: con_ok_def)
  have "0 \<le> 80 * con_y c + con_x c" using Cons.prems(1) by (auto simp: con_ok_def)
  then have k: "nat (80 * con_y ?c + con_x ?c) = Suc ?k" by simp
  have a: "attribute ?c = attribute c" by (simp add: attribute_def)
  have IH: "fold print_one str ?c = ?c\<lparr>con_x := con_x ?c + int (length str),
      con_buf := (\<lambda>i. if Suc ?k \<le> i \<and> i < Suc ?k + length str
        then ucast (str ! (i - Suc ?k)) OR attribute c else con_buf ?c i)\<rparr>"
    using Cons.IH [OF ok] Cons.prems(2,3) unfolding k a by simp
  have b: "(\<lambda>i. if Suc ?k \<le> i \<and> i < Suc ?k + length str then ucast (str ! (i - Suc ?k)) OR attribute c else con_buf ?c i)
      = (\<lambda>i. if ?k \<le> i \<and> i < ?k + length (ch # str) then ucast ((ch # str) ! (i - ?k)) OR attribute c else con_buf c i)"
  proof
    fix i
    show "(if Suc ?k \<le> i \<and> i < Suc ?k + length str then ucast (str ! (i - Suc ?k)) OR attribute c else con_buf ?c i)
      = (if ?k \<le> i \<and> i < ?k + length (ch # str) then ucast ((ch # str) ! (i - ?k)) OR attribute c else con_buf c i)"
    proof (cases "i = ?k")
      case False
      then have "?k < i \<Longrightarrow> i - ?k = Suc (i - Suc ?k)" by simp
      with False show ?thesis by auto
    qed simp
  qed
  show ?case unfolding fold_simps o_apply p IH b by simp
qed



section \<open>Output streams\<close>

definition hexchar :: "nat \<Rightarrow> u8" where
  "hexchar d = of_nat (if d < 10 then 0x30 + d else 0x57 + d)"

text \<open>
  \<^verbatim>\<open>buf\<close> is the rest of the 32-byte array behind its first two characters; the digits are
  stored from index 2 on, least significant first.
\<close>

function hex_digits :: "u64 \<Rightarrow> u8 list \<Rightarrow> nat \<Rightarrow> u8 list \<times> nat" where
  "hex_digits number buf len =
     (let nextDig = unat (number AND 0xf);
          buf = buf[len := hexchar nextDig];
          number = drop_bit 4 number
      in if number > 0 then hex_digits number buf (len + 1) else (buf, len + 1))"
  by pat_completeness auto
termination
  by (relation "measure (\<lambda>(n, _). unat n)") (auto simp: drop_bit_eq_div word_less_nat_alt unat_div)

definition hex_string :: "u64 \<Rightarrow> u8 list" where
  "hex_string number =
     (let (buf, len) = hex_digits number (replicate 30 0) 2;
          buf = fold (\<lambda>i b. (b[len - i - 1 := b ! i])[i := b ! (len - i - 1)]) [0..<len div 2] buf
      in [0x30, 0x78] @ takeWhile (\<lambda>ch. ch \<noteq> 0) buf)"

definition ConsoleOutStream_Puts :: "u8 list \<Rightarrow> console \<Rightarrow> hw \<Rightarrow> (console \<times> hw) res" where
  "ConsoleOutStream_Puts str c h = PrintString str (SetColor 7 True c) h"

definition ConsoleErrorStream_Puts :: "u8 list \<Rightarrow> console \<Rightarrow> hw \<Rightarrow> (console \<times> hw) res" where
  "ConsoleErrorStream_Puts str c h = PrintString str (SetColor 4 True c) h"

definition put_number :: "(u8 list \<Rightarrow> 's \<Rightarrow> 's res) \<Rightarrow> u64 \<Rightarrow> 's \<Rightarrow> 's res" where
  "put_number puts number = puts (hex_string number)"

text \<open>The digits of a number, most significant first, and the number of some digits.\<close>

fun hexn :: "nat \<Rightarrow> nat list" where
  "hexn n = (if n < 16 then [n] else hexn (n div 16) @ [n mod 16])"

declare hexn.simps [simp del]

definition hexval :: "u8 \<Rightarrow> nat" where
  "hexval c = (if c < 0x3a then unat c - 0x30 else unat c - 0x57)"

definition of_hex :: "u8 list \<Rightarrow> nat" where
  "of_hex cs = fold (\<lambda>c n. 16 * n + hexval c) cs 0"

lemma hexn_less: "d \<in> set (hexn n) \<Longrightarrow> d < 16"
  by (induction n rule: hexn.induct) (subst (asm) (2) hexn.simps, auto split: if_splits)

lemma hexchar_facts: "d < 16 \<Longrightarrow> hexchar d \<noteq> 0 \<and> hexval (hexchar d) = d"
proof -
  assume "d < 16"
  then have "d \<in> set [0..<16]" by simp
  then show ?thesis by (auto simp: upt_rec hexchar_def hexval_def)
qed

lemma length_hexn: "n < 16 ^ k \<Longrightarrow> 0 < k \<Longrightarrow> length (hexn n) \<le> k"
proof (induction n arbitrary: k rule: hexn.induct)
  case (1 n)
  show ?case
  proof (cases "n < 16")
    case True
    then show ?thesis using 1(3) by (subst hexn.simps) simp
  next
    case False
    obtain j where j: "k = Suc j" using 1(3) by (cases k) auto
    then have k: "k = Suc j" "0 < j" using 1(2) False by (cases j; simp)+
    have "n div 16 < 16 ^ j" using 1(2) k(1) by (simp add: less_mult_imp_div_less mult.commute)
    from 1(1) [OF False this k(2)] False k(1) show ?thesis by (subst hexn.simps) simp
  qed
qed

lemma of_hex_hexn: "of_hex (map hexchar (hexn n)) = n"
proof (induction n rule: hexn.induct)
  case (1 n)
  show ?case
  proof (cases "n < 16")
    case True
    then show ?thesis by (subst hexn.simps) (simp add: of_hex_def hexchar_facts)
  next
    case False
    with 1 show ?thesis by (subst hexn.simps) (simp add: of_hex_def hexchar_facts)
  qed
qed

lemma hex_digits_eq:
  "len + length (hexn (unat n)) \<le> length buf \<Longrightarrow> hex_digits n buf len =
    (take len buf @ map hexchar (rev (hexn (unat n))) @ drop (len + length (hexn (unat n))) buf, len + length (hexn (unat n)))"
proof (induction n buf len rule: hex_digits.induct)
  case (1 n buf len)
  have d: "unat (n AND 0xf) = unat n mod 16"
    using word_and_mask_eq_mod [of n 4] by (simp add: mask_eq_exp_minus_1)
  have v: "unat (drop_bit 4 n) = unat n div 16" by (simp add: drop_bit_eq_div unat_div)
  have up: "buf[len := c] = take len buf @ [c] @ drop (Suc len) buf" if "len < length buf" for c
    using upd_conv_take_nth_drop [OF that, of c] by simp
  show ?case
  proof (cases "unat n < 16")
    case True
    then have h: "hexn (unat n) = [unat n]" and z: "\<not> drop_bit 4 n > 0"
      using v by (simp_all add: word_less_nat_alt hexn.simps)
    with 1(2) True show ?thesis by (subst hex_digits.simps) (simp add: Let_def d up)
  next
    case False
    have h: "hexn (unat n) = hexn (unat n div 16) @ [unat n mod 16]" using False by (subst hexn.simps) simp
    have z: "drop_bit 4 n > 0" using False v by (simp add: word_less_nat_alt)
    have l: "Suc len + length (hexn (unat n div 16)) \<le> length buf" "len < length buf" using 1(2) h by simp_all
    let ?b = "buf[len := hexchar (unat n mod 16)]"
    have "hex_digits (drop_bit 4 n) ?b (len + 1) = (take (len + 1) ?b @ map hexchar (rev (hexn (unat n div 16)))
        @ drop (len + 1 + length (hexn (unat n div 16))) ?b, len + 1 + length (hexn (unat n div 16)))"
      using "1.IH" [OF refl refl refl z] l unfolding d v by simp
    moreover have "take (len + 1) ?b = take len buf @ [hexchar (unat n mod 16)]"
      unfolding up [OF l(2)] using l(2) by simp
    moreover have "drop (len + 1 + length (hexn (unat n div 16))) ?b = drop (len + length (hexn (unat n))) buf"
      using h by simp
    ultimately show ?thesis using z h by (subst hex_digits.simps) (simp add: Let_def d)
  qed
qed

lemma swap_fold:
  "len \<le> length xs \<Longrightarrow> k \<le> len div 2 \<Longrightarrow>
    length (fold (\<lambda>i b. (b[len - i - 1 := b ! i])[i := b ! (len - i - 1)]) [0..<k] xs) = length xs \<and>
    (\<forall>j < length xs. fold (\<lambda>i b. (b[len - i - 1 := b ! i])[i := b ! (len - i - 1)]) [0..<k] xs ! j =
      (if j < k \<or> len - k \<le> j \<and> j < len then xs ! (len - 1 - j) else xs ! j))"
proof (induction k)
  case (Suc k)
  then show ?case by (auto simp: nth_list_update less_Suc_eq)
qed auto

lemma swap_rev:
  assumes "len \<le> length xs"
  shows "fold (\<lambda>i b. (b[len - i - 1 := b ! i])[i := b ! (len - i - 1)]) [0..<len div 2] xs = rev (take len xs) @ drop len xs"
  using swap_fold [OF assms, of "len div 2"] assms
  by (intro nth_equalityI) (auto simp: nth_append rev_nth intro!: arg_cong [of _ _ "nth xs"])

text \<open>
  C30. Numbers are printed in full: for every 64-bit number the stream writes 0x followed by
  its hexadecimal digits, most significant first and without leading zeros, so that reading
  the digits back gives the number; the digits and their two spare bytes stay inside the
  32-byte buffer, the string having at most 18 characters.
\<close>

theorem hex_string_roundtrip:
  "hex_string n = [0x30, 0x78] @ map hexchar (hexn (unat n))
   \<and> of_hex (drop 2 (hex_string n)) = unat n \<and> length (hex_string n) \<le> 18
   \<and> snd (hex_digits n (replicate 30 0) 2) \<le> 18"
proof -
  let ?ds = "hexn (unat n)"
  have "unat n < 16 ^ 16" using unat_less_2p [of n] by simp
  from length_hexn [OF this] have l: "length ?ds \<le> 16" by simp
  have D: "hex_digits n (replicate 30 0) 2 =
      ([0, 0] @ map hexchar (rev ?ds) @ replicate (28 - length ?ds) 0, 2 + length ?ds)"
  proof -
    have "take 2 (replicate 30 0) = [0, 0 :: u8]" "drop (2 + length ?ds) (replicate 30 0) = replicate (28 - length ?ds) (0 :: u8)"
      by (simp_all add: numeral_2_eq_2)
    moreover have "2 + length ?ds \<le> length (replicate 30 (0 :: u8))" using l by simp
    ultimately show ?thesis using hex_digits_eq [of 2 n "replicate 30 0"] by simp
  qed
  have R: "fold (\<lambda>i b. (b[2 + length ?ds - i - 1 := b ! i])[i := b ! (2 + length ?ds - i - 1)]) [0..<(2 + length ?ds) div 2]
      ([0, 0] @ map hexchar (rev ?ds) @ replicate (28 - length ?ds) 0)
    = map hexchar ?ds @ [0, 0] @ replicate (28 - length ?ds) 0"
    by (subst swap_rev) (simp_all add: rev_map)
  have "takeWhile (\<lambda>ch. ch \<noteq> 0) (map hexchar ?ds @ [0, 0] @ replicate (28 - length ?ds) 0) = map hexchar ?ds"
    using hexn_less hexchar_facts by (subst takeWhile_append2) auto
  then have "hex_string n = [0x30, 0x78] @ map hexchar ?ds"
    unfolding hex_string_def D prod.case Let_def R by simp
  with l D show ?thesis by (simp add: of_hex_hexn)
qed

section \<open>The message of a panic\<close>

text \<open>A signed \<^verbatim>\<open>char\<close> is extended before the color is added.\<close>

definition panic_cell :: "u16 \<Rightarrow> u8 \<Rightarrow> u16" where
  "panic_cell clr ch = scast ch OR clr"

definition WriteError :: "u8 list \<Rightarrow> (nat \<Rightarrow> u16) \<Rightarrow> (nat \<Rightarrow> u16)" where
  "WriteError msg buf =
     (let prefix = [0x50, 0x41, 0x4e, 0x49, 0x43, 0x3a, 0x20];
          (i, buf) = fold (\<lambda>ch (i, buf). (i + 1, buf(i := panic_cell 0xf200 ch))) prefix (0, buf);
          (i, buf) = fold (\<lambda>ch (i, buf). (i + 1, buf(i := panic_cell 0xf900 ch))) msg (i, buf)
      in buf(i := 0xf920))"

end
