(* ===== verification/Malloc.thy ===== *)
theory Malloc
  imports EasyMapProofs
begin

text \<open>
  The kernel's heap (\<^verbatim>\<open>src/memory/malloc.cpp\<close>) and the choice between domains
  (\<^verbatim>\<open>src/arch/api/domain.cpp\<close>). A segment is a mapped pool with an allocator of analloc2,
  which is not part of the repository: its operations are the fields of a record. Segments
  are named by their address, the \<^verbatim>\<open>next\<close> pointers are the list.
\<close>

section \<open>State\<close>

text \<open>Allocation answers the null pointer, 0, when it fails.\<close>

record 'm analloc2 =
  aa_Wrap :: "VirtAddr \<Rightarrow> u64 \<Rightarrow> 'm"
  aa_Alloc :: "'m \<Rightarrow> u64 \<Rightarrow> u64 \<times> 'm"
  aa_Owns :: "'m \<Rightarrow> u64 \<Rightarrow> bool"
  aa_Free :: "'m \<Rightarrow> u64 \<Rightarrow> 'm res"

record 'm malloc =
  poolSize :: u64
  bigPages :: bool
  segments :: "(VirtAddr \<times> 'm) list"

definition Malloc_new :: "u64 \<Rightarrow> bool \<Rightarrow> 'm malloc" where
  "Malloc_new pool big = \<lparr>poolSize = pool, bigPages = big, segments = []\<rparr>"

section \<open>Operations\<close>

text \<open>
  The destructor reads \<^verbatim>\<open>next\<close> from the first segment, frees the memory of the next one and
  goes on with that one.
\<close>

fun Malloc_del_loop :: "crit \<Rightarrow> u64 \<Rightarrow> VirtAddr list \<Rightarrow> 'a gmap \<Rightarrow> 'a gmap res" where
  "Malloc_del_loop c pool [] g = Inr g"
| "Malloc_del_loop c pool (a # rest) g =
     bindE (vread (mach g) (a + 8)) (\<lambda>_.
     bindE (FreeAndUnmap c g (case rest of [] \<Rightarrow> 0 | b # _ \<Rightarrow> b) pool) (Malloc_del_loop c pool rest))"

definition Malloc_del :: "crit \<Rightarrow> 'm malloc \<Rightarrow> 'a gmap \<Rightarrow> 'a gmap res" where
  "Malloc_del c m g = bindE (AssertNoncritical c) (\<lambda>_. Malloc_del_loop c (poolSize m) (map fst (segments m)) g)"

fun alloc_segments :: "'m analloc2 \<Rightarrow> u64 \<Rightarrow> (VirtAddr \<times> 'm) list \<Rightarrow> u64 \<times> (VirtAddr \<times> 'm) list" where
  "alloc_segments aa sz [] = (0, [])"
| "alloc_segments aa sz ((a, m) # rest) =
     (let (p, m) = aa_Alloc aa m sz
      in if p \<noteq> 0 then (p, (a, m) # rest)
         else let (p, rest) = alloc_segments aa sz rest in (p, (a, m) # rest))"

definition AllocNoNewSegment :: "crit \<Rightarrow> 'm analloc2 \<Rightarrow> 'm malloc \<Rightarrow> u64 \<Rightarrow> (u64 \<times> 'm malloc) res" where
  "AllocNoNewSegment c aa m sz =
     bindE (AssertNoncritical c) (\<lambda>_.
       let (p, segs) = alloc_segments aa sz (segments m) in Inr (p, m\<lparr>segments := segs\<rparr>))"

definition CreateSegment :: "crit \<Rightarrow> 'm analloc2 \<Rightarrow> 'm malloc \<Rightarrow> 'a gmap \<Rightarrow> (bool \<times> 'm malloc \<times> 'a gmap) res" where
  "CreateSegment c aa m g =
     bindE (AllocAndMap c g (poolSize m) (bigPages m)) (\<lambda>(r, g). case r of
         None \<Rightarrow> Inr (False, m, g)
       | Some freshMemory \<Rightarrow>
           bindE (assertE (freshMemory mod 8 = 0) ''!(freshMemory % ANARCH_OBJECT_ALIGN)'') (\<lambda>_.
             Inr (True, m\<lparr>segments := (freshMemory, aa_Wrap aa freshMemory (poolSize m)) # segments m\<rparr>, g)))"

definition Malloc_Alloc ::
    "crit \<Rightarrow> 'm analloc2 \<Rightarrow> 'm malloc \<Rightarrow> u64 \<Rightarrow> 'a gmap \<Rightarrow> (u64 option \<times> 'm malloc \<times> 'a gmap) res" where
  "Malloc_Alloc c aa m sz g =
     (if sz \<ge> poolSize m div 2 then Inr (None, m, g)
      else
        bindE (AllocNoNewSegment c aa m sz) (\<lambda>(p, m).
          if p \<noteq> 0 then Inr (Some p, m, g)
          else
            bindE (CreateSegment c aa m g) (\<lambda>(ok, m, g).
              if \<not> ok then Inr (None, m, g)
              else
                bindE (AllocNoNewSegment c aa m sz) (\<lambda>(p, m). Inr (if p \<noteq> 0 then Some p else None, m, g)))))"

text \<open>
  The loops of \<^verbatim>\<open>Free\<close> and \<^verbatim>\<open>Owns\<close> over the segment; what they call is an argument. They do
  not move \<^verbatim>\<open>segment\<close> on, so the outer option is None when they never end.
\<close>

partial_function (option) segment_loop ::
    "(VirtAddr \<times> 'm \<Rightarrow> 'r option) \<Rightarrow> 'r \<Rightarrow> (VirtAddr \<times> 'm) option \<Rightarrow> 'r option" where
  "segment_loop f end segment =
     (case segment of
        None \<Rightarrow> Some end
      | Some s \<Rightarrow> (case f s of Some r \<Rightarrow> Some r | None \<Rightarrow> segment_loop f end segment))"

definition firstSegment :: "'m malloc \<Rightarrow> (VirtAddr \<times> 'm) option" where
  "firstSegment m = (case segments m of [] \<Rightarrow> None | s # _ \<Rightarrow> Some s)"

definition Malloc_Free :: "crit \<Rightarrow> 'm analloc2 \<Rightarrow> 'm malloc \<Rightarrow> u64 \<Rightarrow> 'm malloc res option" where
  "Malloc_Free c aa m addr =
     (case AssertNoncritical c of
        Inl e \<Rightarrow> Some (Inl e)
      | Inr _ \<Rightarrow>
          segment_loop (\<lambda>(a, s).
              if aa_Owns aa s addr then
                Some (bindE (aa_Free aa s addr) (\<lambda>s. Inr (m\<lparr>segments := (segments m)[0 := (a, s)]\<rparr>)))
              else None)
            (Inl (Panic ''Malloc::Free() - unowned memory region'')) (firstSegment m))"

definition Malloc_Owns :: "crit \<Rightarrow> 'm analloc2 \<Rightarrow> 'm malloc \<Rightarrow> u64 \<Rightarrow> bool res option" where
  "Malloc_Owns c aa m ptr =
     (case AssertNoncritical c of
        Inl e \<Rightarrow> Some (Inl e)
      | Inr _ \<Rightarrow> segment_loop (\<lambda>(a, s). if aa_Owns aa s ptr then Some (Inr True) else None) (Inr False) (firstSegment m))"

section \<open>Domains\<close>

text \<open>
  A domain asks its own allocator and then its siblings, the other domains of the list, in
  order. \<^verbatim>\<open>st\<close> is the list of the allocators' states, the domain's own one first.
\<close>

fun Domain_Alloc :: "('v \<Rightarrow> 'q \<Rightarrow> (u64 option \<times> 'v) res) \<Rightarrow> 'q \<Rightarrow> 'v list \<Rightarrow> (u64 option \<times> 'v list) res" where
  "Domain_Alloc alloc q [] = Inr (None, [])"
| "Domain_Alloc alloc q (v # rest) =
     bindE (alloc v q) (\<lambda>(p, v). case p of
         Some a \<Rightarrow> Inr (Some a, v # rest)
       | None \<Rightarrow> bindE (Domain_Alloc alloc q rest) (\<lambda>(p, rest). Inr (p, v # rest)))"

fun Domain_Free :: "('v \<Rightarrow> u64 \<Rightarrow> bool) \<Rightarrow> ('v \<Rightarrow> u64 \<Rightarrow> 'v res) \<Rightarrow> string \<Rightarrow> u64 \<Rightarrow> 'v list \<Rightarrow> 'v list res" where
  "Domain_Free owns free msg ptr [] = Inl (Panic msg)"
| "Domain_Free owns free msg ptr (v # rest) =
     (if owns v ptr then bindE (free v ptr) (\<lambda>v. Inr (v # rest))
      else bindE (Domain_Free owns free msg ptr rest) (\<lambda>rest. Inr (v # rest)))"

definition Domain_AllocPhys :: "('v \<Rightarrow> PhysSize \<times> PhysSize \<Rightarrow> (u64 option \<times> 'v) res) \<Rightarrow> PhysSize \<Rightarrow> PhysSize
    \<Rightarrow> 'v list \<Rightarrow> (u64 option \<times> 'v list) res" where
  "Domain_AllocPhys alloc sz align = Domain_Alloc alloc (sz, align)"

definition Domain_FreePhys :: "('v \<Rightarrow> u64 \<Rightarrow> bool) \<Rightarrow> ('v \<Rightarrow> u64 \<Rightarrow> 'v res) \<Rightarrow> u64 \<Rightarrow> 'v list \<Rightarrow> 'v list res" where
  "Domain_FreePhys owns free = Domain_Free owns free ''Domain::FreePhys() - no Domain owns the physical address''"

lemma Domain_Free_owner:
  "\<exists>v \<in> set vs. owns v ptr \<Longrightarrow> \<exists>pre v post. vs = pre @ v # post \<and> owns v ptr \<and> (\<forall>w \<in> set pre. \<not> owns w ptr)
    \<and> Domain_Free owns free msg ptr vs = bindE (free v ptr) (\<lambda>v. Inr (pre @ v # post))"
proof (induction vs)
  case (Cons v vs)
  show ?case
  proof (cases "owns v ptr")
    case True
    then show ?thesis by (intro exI [of _ "[]"] exI [of _ v] exI [of _ vs]) simp
  next
    case False
    with Cons obtain pre w post where "vs = pre @ w # post" "owns w ptr" "\<forall>w \<in> set pre. \<not> owns w ptr"
      "Domain_Free owns free msg ptr vs = bindE (free w ptr) (\<lambda>v. Inr (pre @ v # post))" by auto
    with False show ?thesis
      by (intro exI [of _ "v # pre"] exI [of _ w] exI [of _ post]) (simp add: bindE_assoc)
  qed
qed simp

section \<open>Properties\<close>

lemma segment_loop_None:
  fixes f :: "VirtAddr \<times> 'm \<Rightarrow> 'r option"
  shows "segment_loop f e x = Some y \<Longrightarrow> \<not> (\<exists>s. x = Some s \<and> f s = None)"
proof (rule segment_loop.raw_induct [where P = "\<lambda>f e x y. \<not> (\<exists>s. x = Some s \<and> f s = None)"])
  fix sl and f :: "VirtAddr \<times> 'm \<Rightarrow> 'r option" and e x y
  assume IH: "\<And>f e x y. sl f e x = Some y \<Longrightarrow> \<not> (\<exists>s. x = Some s \<and> f s = None)"
    and e: "(case x of None \<Rightarrow> Some e | Some s \<Rightarrow> (case f s of Some r \<Rightarrow> Some r | None \<Rightarrow> sl f e x)) = Some y"
  show "\<not> (\<exists>s. x = Some s \<and> f s = None)"
  proof
    assume "\<exists>s. x = Some s \<and> f s = None"
    then obtain s where s: "x = Some s" "f s = None" by blast
    with e have "sl f e x = Some y" by simp
    from IH [OF this] s show False by blast
  qed
qed

lemma segment_loop_eq:
  "segment_loop f e x = (case x of None \<Rightarrow> Some e | Some s \<Rightarrow> f s)"
proof (cases x)
  case None
  then show ?thesis by (subst segment_loop.simps) simp
next
  case (Some s)
  show ?thesis
  proof (cases "f s")
    case None
    then have "segment_loop f e x = None" using segment_loop_None [of f e x] Some by (cases "segment_loop f e x") auto
    then show ?thesis using Some None by simp
  next
    case r: (Some r)
    then show ?thesis using Some by (subst segment_loop.simps) simp
  qed
qed

text \<open>
  C39. Malloc::Free and Malloc::Owns never leave the newest segment: they answer for memory
  of that segment, Free panics and Owns denies when there is no segment at all, and for every
  other pointer - one that an older segment owns, or nobody does - they run for ever, since
  the loop does not go on to the next segment.
\<close>

theorem Malloc_Free_diverges:
  assumes "noncritical c"
  shows "case segments m of
      [] \<Rightarrow> Malloc_Owns c aa m p = Some (Inr False)
        \<and> Malloc_Free c aa m p = Some (Inl (Panic ''Malloc::Free() - unowned memory region''))
    | (a, s) # rest \<Rightarrow>
        if aa_Owns aa s p then Malloc_Owns c aa m p = Some (Inr True)
           \<and> Malloc_Free c aa m p = Some (bindE (aa_Free aa s p) (\<lambda>s. Inr (m\<lparr>segments := (a, s) # rest\<rparr>)))
        else Malloc_Owns c aa m p = None \<and> Malloc_Free c aa m p = None"
  using assms by (auto simp: Malloc_Free_def Malloc_Owns_def firstSegment_def segment_loop_eq split: list.split)

text \<open>An allocator that hands out 16 bytes once, behind the header of its segment.\<close>

definition ex_analloc2 :: "(u64 \<times> bool) analloc2" where
  "ex_analloc2 = \<lparr>aa_Wrap = (\<lambda>a _. (a, False)), aa_Alloc = (\<lambda>(a, used) _. if used then (0, (a, used)) else (a + 0x20, (a, True))),
     aa_Owns = (\<lambda>(a, _) p. a \<le> p \<and> p < a + 0x1000), aa_Free = (\<lambda>(a, _) _. Inr (a, False))\<rparr>"

theorem Malloc_Free_diverges_witness:
  "\<exists>m. AllocNoNewSegment \<lparr>crit_initialized = True, rflags = 0x202\<rparr> ex_analloc2
      \<lparr>poolSize = 0x1000, bigPages = False, segments = [(0x9000, (0x9000, True)), (0x5000, (0x5000, False))]\<rparr> 8 = Inr (0x5020, m)
    \<and> Malloc_Free \<lparr>crit_initialized = True, rflags = 0x202\<rparr> ex_analloc2 m 0x5020 = None"
proof -
  let ?c = "\<lparr>crit_initialized = True, rflags = 0x202\<rparr>"
  let ?m = "\<lparr>poolSize = 0x1000, bigPages = False, segments = [(0x9000, (0x9000, True)), (0x5000, (0x5000, True))]\<rparr>"
  have c: "noncritical ?c" by (simp add: noncritical_def IgnoreCriticality_def GetCritical_def)
  have "AllocNoNewSegment ?c ex_analloc2
      \<lparr>poolSize = 0x1000, bigPages = False, segments = [(0x9000, (0x9000, True)), (0x5000, (0x5000, False))]\<rparr> 8 = Inr (0x5020, ?m)"
    using c by (simp add: AllocNoNewSegment_def ex_analloc2_def Let_def)
  moreover have "Malloc_Free ?c ex_analloc2 ?m 0x5020 = None"
    using Malloc_Free_diverges [OF c, of ex_analloc2 ?m "0x5020"] by (simp add: ex_analloc2_def)
  ultimately show ?thesis by blast
qed

end
