(* ===== verification/Smp.thy ===== *)
theory Smp
  imports IOApic Malloc
begin

unbundle bit_operations_syntax

text \<open>
  CPUs and their start (\<^verbatim>\<open>src/arch/x64/smp\<close>, \<^verbatim>\<open>src/arch/x64/domains\<close>). The heap of type
  \<^verbatim>\<open>'h\<close> is an argument: \<^verbatim>\<open>alloc\<close> is Domain::Alloc or an allocator's Alloc, None when it
  fails. Function pointers are addresses, calling one is an argument.
\<close>

type_synonym 'h heap_alloc = "'h \<Rightarrow> u64 \<Rightarrow> (u64 option \<times> 'h) res"

section \<open>A CPU\<close>

record lapic_timer =
  ticksPerMicro :: "u64 \<times> u64"
  calibrated :: bool
  isExpecting :: bool
  callbackFunction :: u64
  callbackArg :: u64

definition LapicTimer_new :: "lapic_timer \<Rightarrow> lapic_timer" where
  "LapicTimer_new old = old\<lparr>ticksPerMicro := (1, 0), calibrated := False, isExpecting := False\<rparr>"

record cpu =
  wakeupFunction :: u64
  wakeupArg :: u64
  cpu_lapic :: lapic_kind
  lapicTimer :: lapic_timer
  thisCpu :: u64
  syscallStack :: u64
  userData :: u64
  taskSegment :: tss
  apicId :: u32
  stackTop :: u64

definition cpu_StackSize :: u64 where "cpu_StackSize = 0x10000"

definition a_with_critical :: "(apic \<Rightarrow> ('r \<times> apic) res) \<Rightarrow> apic \<Rightarrow> ('r \<times> apic) res" where
  "a_with_critical f s =
     (let (was, c) = ScopedCritical_new (hw_crit (a_hw s))
      in bindE (f (s\<lparr>a_hw := (a_hw s)\<lparr>hw_crit := c\<rparr>\<rparr>)) (\<lambda>(r, s).
           Inr (r, s\<lparr>a_hw := (a_hw s)\<lparr>hw_crit := ScopedCritical_del was (hw_crit (a_hw s))\<rparr>\<rparr>)))"

definition GetLapicCritical :: "apic \<Rightarrow> (lapic_kind \<times> apic) res" where
  "GetLapicCritical = a_with_critical (\<lambda>s. bindE (LapicModule_GetLapic s) (\<lambda>k. Inr (k, s)))"

definition Lapic_GetId :: "lapic_kind \<Rightarrow> apic \<Rightarrow> u32 res" where
  "Lapic_GetId k = (case k of XApic \<Rightarrow> XApic_GetId | X2Apic \<Rightarrow> X2Apic_GetId)"

definition SetAsyncKernelTop :: "u64 \<Rightarrow> cpu \<Rightarrow> cpu" where
  "SetAsyncKernelTop stack p =
     p\<lparr>taskSegment := (taskSegment p)\<lparr>t_rsp := (t_rsp (taskSegment p))(0 := stack)\<rparr>, syscallStack := stack\<rparr>"

text \<open>
  The constructor runs on the memory of the new object, whose other fields keep what \<^verbatim>\<open>old\<close>
  says. Its address and those of its local data and task segment are arguments.
\<close>

definition Cpu_new ::
    "'h heap_alloc \<Rightarrow> u64 \<Rightarrow> u64 \<Rightarrow> u64 \<Rightarrow> cpu \<Rightarrow> gdt \<Rightarrow> 'h \<Rightarrow> apic \<Rightarrow> (cpu \<times> gdt \<times> 'h \<times> apic) res" where
  "Cpu_new alloc self localData tssAddr old g heap s =
     bindE (GetLapicCritical s) (\<lambda>(k, s).
     let p = old\<lparr>cpu_lapic := k, thisCpu := self, userData := 0,
           lapicTimer := LapicTimer_new (lapicTimer old)\<rparr>
     in bindE (alloc heap cpu_StackSize) (\<lambda>(r, heap). case r of
          None \<Rightarrow> Inl (Panic ''Cpu::Cpu() - failed to allocate stack'')
        | Some stack \<Rightarrow>
            let p = p\<lparr>stackTop := stack + cpu_StackSize\<rparr>
            in bindE (a_with_critical (\<lambda>s.
                 bindE (LocalSegment_Write localData (a_hw s)) (\<lambda>h.
                 let s = s\<lparr>a_hw := h\<rparr>;
                     p = p\<lparr>taskSegment := (taskSegment p)\<lparr>t_ist := (\<lambda>i. if i < 7 then stackTop p else t_ist (taskSegment p) i)\<rparr>\<rparr>
                 in bindE (Gdt_PushTssDescriptor (TssDescriptor_new tssAddr) g) (\<lambda>(seg, g).
                    let s = s\<lparr>a_hw := (a_hw s)\<lparr>task_reg := seg\<rparr>\<rparr>
                    in bindE (Lapic_GetId k s) (\<lambda>i. Inr ((p\<lparr>apicId := i\<rparr>, g), s))))) s)
               (\<lambda>((p, g), s). Inr (p, g, heap, s))))"

definition Cpu_del :: "unit res" where
  "Cpu_del = Inl (Panic ''Cpu::~Cpu() - CPU cannot be destroyed!'')"

definition WakeupVector :: u8 where "WakeupVector = 0x23"

text \<open>\<^verbatim>\<open>call\<close> runs a function with its argument on the state of this CPU.\<close>

definition HandleWakeup :: "(u64 \<Rightarrow> u64 \<Rightarrow> cpu \<times> apic \<Rightarrow> (cpu \<times> apic) res) \<Rightarrow> cpu \<times> apic \<Rightarrow> (cpu \<times> apic) res" where
  "HandleWakeup call st =
     (let (p, s) = st in
      bindE (a_assert s) (\<lambda>_.
      bindE (LapicModule_GetLapic s) (\<lambda>k.
      bindE (Lapic_SendEoi (Lapic_WriteReg k) s) (\<lambda>s.
        let func = wakeupFunction p; arg = wakeupArg p; p = p\<lparr>wakeupFunction := 0\<rparr>
        in if func = 0 then Inr (p, s) else call func arg (p, s)))))"

definition RunAsync :: "u64 \<Rightarrow> u64 \<Rightarrow> cpu \<times> apic \<Rightarrow> (cpu \<times> apic) res" where
  "RunAsync func arg st =
     (let (p, s) = st in
      bindE (a_assert s) (\<lambda>_.
      let p = p\<lparr>wakeupFunction := func, wakeupArg := arg\<rparr>
      in bindE (Lapic_SendIpi (cpu_lapic p) (apicId p) WakeupVector 0 1 0 s) (\<lambda>s. Inr (p, s))))"

definition RunAsync_noarg :: "u64 \<Rightarrow> cpu \<times> apic \<Rightarrow> (cpu \<times> apic) res" where
  "RunAsync_noarg func = RunAsync func 0"

text \<open>The call for the CPU number \<^verbatim>\<open>j\<close> of a list.\<close>

definition RunAsync_on :: "nat \<Rightarrow> u64 \<Rightarrow> cpu list \<times> apic \<Rightarrow> (cpu list \<times> apic) res" where
  "RunAsync_on j func st =
     (let (cpus, s) = st in bindE (RunAsync_noarg func (cpus ! j, s)) (\<lambda>(p, s). Inr (cpus[j := p], s)))"

definition SetUserInfo :: "u64 \<Rightarrow> cpu \<Rightarrow> cpu" where
  "SetUserInfo info p = p\<lparr>userData := info\<rparr>"

definition GetUserInfo :: "cpu \<Rightarrow> u64" where
  "GetUserInfo p = userData p"

text \<open>The stack pointer, the function and its argument that the CPU goes on with.\<close>

definition RunSync :: "u64 \<Rightarrow> u64 \<Rightarrow> cpu \<Rightarrow> apic \<Rightarrow> (u64 \<times> u64 \<times> u64) res" where
  "RunSync func arg p s = bindE (a_assert s) (\<lambda>_. Inr (stackTop p, func, arg))"

section \<open>The domain\<close>

record domain =
  cpuData :: u64
  capacity :: nat
  dom_cpus :: "cpu list"

definition Domain_new :: "'h heap_alloc \<Rightarrow> u64 \<Rightarrow> nat \<Rightarrow> 'h \<Rightarrow> (domain \<times> 'h) res" where
  "Domain_new alloc sizeofCpu cap heap =
     bindE (alloc heap (sizeofCpu * of_nat cap)) (\<lambda>(r, heap). case r of
         None \<Rightarrow> Inl (Panic ''Domain::Domain() - failed to allocate CPUs'')
       | Some p \<Rightarrow> Inr (\<lparr>cpuData = p, capacity = cap, dom_cpus = []\<rparr>, heap))"

definition Domain_del :: "('h \<Rightarrow> u64 \<Rightarrow> 'h res) \<Rightarrow> domain \<Rightarrow> 'h \<Rightarrow> 'h res" where
  "Domain_del free d heap = free heap (cpuData d)"

text \<open>\<^verbatim>\<open>new_cpu\<close> is the constructor at the given address; the result is the index.\<close>

definition InitNewCpu ::
    "(u64 \<Rightarrow> gdt \<Rightarrow> 'h \<Rightarrow> apic \<Rightarrow> (cpu \<times> gdt \<times> 'h \<times> apic) res) \<Rightarrow> u64 \<Rightarrow> domain \<Rightarrow> gdt \<Rightarrow> 'h \<Rightarrow> apic
     \<Rightarrow> (nat \<times> domain \<times> gdt \<times> 'h \<times> apic) res" where
  "InitNewCpu new_cpu sizeofCpu d g heap s =
     bindE (AssertNoncritical (hw_crit (a_hw s))) (\<lambda>_.
     bindE (assertE (length (dom_cpus d) < capacity d) ''count < capacity'') (\<lambda>_.
     bindE (new_cpu (cpuData d + sizeofCpu * of_nat (length (dom_cpus d))) g heap s) (\<lambda>(p, g, heap, s).
       Inr (length (dom_cpus d), d\<lparr>dom_cpus := dom_cpus d @ [p]\<rparr>, g, heap, s))))"

definition GetSibling :: "domain res" where
  "GetSibling = Inl (Panic ''Domain::GetSibling() - not supported by x64'')"

definition GetThreadCount :: "domain \<Rightarrow> nat" where
  "GetThreadCount d = length (dom_cpus d)"

definition DomainList_GetCount :: nat where
  "DomainList_GetCount = 1"

section \<open>Starting the other CPUs\<close>

definition a_critical :: "bool \<Rightarrow> apic \<Rightarrow> apic" where
  "a_critical flag s = s\<lparr>a_hw := (a_hw s)\<lparr>hw_crit := SetCritical flag (hw_crit (a_hw s))\<rparr>\<rparr>"

text \<open>Waiting outside the critical section; \<^verbatim>\<open>sleep\<close> is the clock's, in microseconds or ticks.\<close>

definition wait_noncritical :: "(u64 \<Rightarrow> apic \<Rightarrow> apic res) \<Rightarrow> u64 \<Rightarrow> apic \<Rightarrow> apic res" where
  "wait_noncritical sleep n s = bindE (sleep n (a_critical False s)) (\<lambda>s. Inr (a_critical True s))"

text \<open>Twenty polls of \<^verbatim>\<open>initFlag\<close>; \<^verbatim>\<open>started n\<close> is what the poll number \<^verbatim>\<open>n\<close> reads.\<close>

fun poll_started :: "(u64 \<Rightarrow> apic \<Rightarrow> apic res) \<Rightarrow> (nat \<Rightarrow> bool) \<Rightarrow> nat \<Rightarrow> nat \<Rightarrow> apic \<Rightarrow> (bool \<times> apic) res" where
  "poll_started microSleep started i 0 s = Inr (False, s)"
| "poll_started microSleep started i (Suc n) s =
     bindE (wait_noncritical microSleep 10000 s) (\<lambda>s.
       if started i then Inr (True, s) else poll_started microSleep started (Suc i) n s)"

fun send_startup :: "(u64 \<Rightarrow> apic \<Rightarrow> apic res) \<Rightarrow> (nat \<Rightarrow> bool) \<Rightarrow> lapic_kind \<Rightarrow> u32 \<Rightarrow> nat \<Rightarrow> nat \<Rightarrow> apic \<Rightarrow> (bool \<times> apic) res" where
  "send_startup microSleep started k cpu i 0 s = Inr (False, s)"
| "send_startup microSleep started k cpu i (Suc n) s =
     bindE (Lapic_ClearErrors (Lapic_WriteReg k) s) (\<lambda>s.
     bindE (Lapic_SendIpi k cpu 5 6 1 0 s) (\<lambda>s.
     bindE (poll_started microSleep started i 20 s) (\<lambda>(ok, s).
       if ok then Inr (True, s) else send_startup microSleep started k cpu (i + 20) n s)))"

text \<open>The result says whether the CPU came up, or was the running one.\<close>

definition BootstrapCpu ::
    "(u64 \<Rightarrow> apic \<Rightarrow> apic res) \<Rightarrow> (u64 \<Rightarrow> apic \<Rightarrow> apic res) \<Rightarrow> (nat \<Rightarrow> bool) \<Rightarrow> u32 \<Rightarrow> apic \<Rightarrow> (bool \<times> apic) res" where
  "BootstrapCpu sleep microSleep started cpu = a_with_critical (\<lambda>s.
     bindE (LapicModule_GetLapic s) (\<lambda>k.
     bindE (Lapic_GetId k s) (\<lambda>me.
       if cpu = me then Inr (True, s)
       else
         bindE (Lapic_ClearErrors (Lapic_WriteReg k) s) (\<lambda>s.
         bindE (Lapic_SendIpi k cpu 0 5 1 1 s) (\<lambda>s.
         bindE (wait_noncritical sleep 1 s) (\<lambda>s.
         bindE (Lapic_SendIpi k cpu 0 5 0 1 s) (send_startup microSleep started k cpu 0 2)))))))"

section \<open>The startup code in low memory\<close>

definition write_bytes :: "u64 \<Rightarrow> u8 list \<Rightarrow> bytes \<Rightarrow> bytes" where
  "write_bytes a bs mem = (\<lambda>p. if unat (p - a) < length bs then bs ! unat (p - a) else mem p)"

definition CodeBase :: u64 where "CodeBase = 0x5000"
definition PageTableBase :: u64 where "PageTableBase = 0x3000"

record startup =
  callbackFunc :: u64
  dataBackup :: u64
  backup :: "u8 list"

text \<open>\<^verbatim>\<open>backup\<close> is what the allocated block \<^verbatim>\<open>dataBackup\<close> holds.\<close>

definition StartupCode_new ::
    "'h heap_alloc \<Rightarrow> u64 \<Rightarrow> PhysAddr \<Rightarrow> u16 \<times> u64 \<Rightarrow> u8 list \<Rightarrow> 'h \<Rightarrow> bytes \<Rightarrow> (startup \<times> 'h \<times> bytes) res" where
  "StartupCode_new alloc cb pdpt gdtPtr code heap mem =
     bindE (alloc heap 0x3000) (\<lambda>(r, heap). case r of
         None \<Rightarrow> Inl (Panic ''StartupCode::StartupCode() - failed to allocate backup'')
       | Some b \<Rightarrow>
           let st = \<lparr>callbackFunc = cb, dataBackup = b, backup = map (\<lambda>i. mem (PageTableBase + of_nat i)) [0..<0x3000]\<rparr>;
               mem = write_bytes PageTableBase (le_bytes 8 (pdpt OR 3)) mem;
               mem = write_bytes (PageTableBase + 0x1000) (le_bytes 2 (ucast (fst gdtPtr)) @ le_bytes 8 (snd gdtPtr)) mem
           in bindE (assertE (length code < 0x1000) ''codeLen < 0x1000'') (\<lambda>_.
                Inr (st, heap, write_bytes CodeBase code mem)))"

definition ResetStartupStack :: "PhysAddr \<Rightarrow> startup \<Rightarrow> bytes \<Rightarrow> bytes" where
  "ResetStartupStack root st mem =
     (let mem = write_bytes (CodeBase - 16) (le_bytes 8 root) mem
      in write_bytes (CodeBase - 16 + 8) (le_bytes 8 (callbackFunc st)) mem)"

definition StartupCode_del :: "('h \<Rightarrow> u64 \<Rightarrow> 'h res) \<Rightarrow> startup \<Rightarrow> 'h \<Rightarrow> bytes \<Rightarrow> ('h \<times> bytes) res" where
  "StartupCode_del free st heap mem =
     bindE (free heap (dataBackup st)) (\<lambda>heap. Inr (heap, write_bytes PageTableBase (backup st) mem))"

section \<open>The list of domains\<close>

text \<open>
  What the boot CPU works on, and what it is given: the heap and the sizes of its objects,
  the memory that a new Cpu object is made of and the offsets of its parts, the clock, the
  poll of \<^verbatim>\<open>initFlag\<close> at which each started CPU has answered, and the code to copy.
\<close>

record 'h smp =
  sm_apic :: apic
  sm_gdt :: gdt
  sm_heap :: 'h
  sm_mem :: bytes
  sm_dom :: domain
  sm_irt :: irt

record 'h smp_env =
  e_alloc :: "'h heap_alloc"
  e_free :: "'h \<Rightarrow> u64 \<Rightarrow> 'h res"
  e_sizeofCpu :: u64
  e_sizeofDomain :: u64
  e_oldCpu :: "u64 \<Rightarrow> cpu"
  e_localData :: u64
  e_taskSegment :: u64
  e_sleep :: "u64 \<Rightarrow> apic \<Rightarrow> apic res"
  e_microSleep :: "u64 \<Rightarrow> apic \<Rightarrow> apic res"
  e_started :: "u32 \<Rightarrow> nat \<Rightarrow> bool"
  e_code :: "u8 list"
  e_gdtBuffer :: u64
  e_pdpt :: PhysAddr
  e_pml4 :: PhysAddr

text \<open>VirtualAllocator::New: the allocation, and then the constructor at the new address.\<close>

definition New :: "'h heap_alloc \<Rightarrow> u64 \<Rightarrow> (u64 \<Rightarrow> 'h \<Rightarrow> ('r \<times> 'h) res) \<Rightarrow> 'h \<Rightarrow> ((u64 \<times> 'r) option \<times> 'h) res" where
  "New alloc sz construct heap =
     bindE (alloc heap sz) (\<lambda>(r, heap). case r of
         None \<Rightarrow> Inr (None, heap)
       | Some buf \<Rightarrow> bindE (construct buf heap) (\<lambda>(x, heap). Inr (Some (buf, x), heap)))"

definition Delete :: "('h \<Rightarrow> u64 \<Rightarrow> 'h res) \<Rightarrow> ('h \<Rightarrow> 'h res) \<Rightarrow> u64 \<Rightarrow> 'h \<Rightarrow> 'h res" where
  "Delete free destruct p heap = bindE (destruct heap) (\<lambda>heap. free heap p)"

text \<open>The templates of Domain are the same code over Domain::Alloc and Domain::Free.\<close>

definition Domain_New :: "'h heap_alloc \<Rightarrow> u64 \<Rightarrow> (u64 \<Rightarrow> 'h \<Rightarrow> ('r \<times> 'h) res) \<Rightarrow> 'h \<Rightarrow> ((u64 \<times> 'r) option \<times> 'h) res" where
  "Domain_New alloc sz construct heap =
     bindE (alloc heap sz) (\<lambda>(r, heap). case r of
         None \<Rightarrow> Inr (None, heap)
       | Some buf \<Rightarrow> bindE (construct buf heap) (\<lambda>(x, heap). Inr (Some (buf, x), heap)))"

definition Domain_Delete :: "('h \<Rightarrow> u64 \<Rightarrow> 'h res) \<Rightarrow> ('h \<Rightarrow> 'h res) \<Rightarrow> u64 \<Rightarrow> 'h \<Rightarrow> 'h res" where
  "Domain_Delete free destruct p heap = bindE (destruct heap) (\<lambda>heap. free heap p)"

definition cpu_at :: "'h smp_env \<Rightarrow> u64 \<Rightarrow> gdt \<Rightarrow> 'h \<Rightarrow> apic \<Rightarrow> (cpu \<times> gdt \<times> 'h \<times> apic) res" where
  "cpu_at e a = Cpu_new (e_alloc e) a (a + e_localData e) (a + e_taskSegment e) (e_oldCpu e a)"

definition smp_InitNewCpu :: "'h smp_env \<Rightarrow> 'h smp \<Rightarrow> (nat \<times> 'h smp) res" where
  "smp_InitNewCpu e s =
     bindE (InitNewCpu (cpu_at e) (e_sizeofCpu e) (sm_dom s) (sm_gdt s) (sm_heap s) (sm_apic s)) (\<lambda>(i, d, g, h, a).
       Inr (i, s\<lparr>sm_dom := d, sm_gdt := g, sm_heap := h, sm_apic := a\<rparr>))"

text \<open>Each local APIC entry of the table is started, whether or not it is usable.\<close>

definition entry_apicId :: "bytes \<Rightarrow> u64 \<Rightarrow> u32 option" where
  "entry_apicId pb p =
     (if pb p = TypeLapic then Some (ucast (pb (p + 3)))
      else if pb p = TypeX2Apic then Some (rd32 pb (p + 4)) else None)"

definition start_entry :: "'h smp_env \<Rightarrow> startup \<Rightarrow> bytes \<Rightarrow> apic_iter \<Rightarrow> 'h smp \<Rightarrow> 'h smp res" where
  "start_entry e st pb it s =
     (case entry_apicId pb (it_address it) of
        None \<Rightarrow> Inr s
      | Some i \<Rightarrow>
          let s = s\<lparr>sm_mem := ResetStartupStack (e_pml4 e) st (sm_mem s)\<rparr>
          in bindE (BootstrapCpu (e_sleep e) (e_microSleep e) (e_started e i) i (sm_apic s)) (\<lambda>(_, a).
               Inr (s\<lparr>sm_apic := a\<rparr>)))"

text \<open>\<^verbatim>\<open>cb\<close> is the address of CpuEntrance. The table is read through its own mapping.\<close>

definition StartCpus :: "'h smp_env \<Rightarrow> u64 \<Rightarrow> bytes \<Rightarrow> apic_table \<Rightarrow> 'h smp \<Rightarrow> 'h smp res option" where
  "StartCpus e cb pb t s =
     (case StartupCode_new (e_alloc e) cb (e_pdpt e) (Gdt_GetPointer (e_gdtBuffer e)) (e_code e) (sm_heap s) (sm_mem s) of
        Inl flt \<Rightarrow> Some (Inl flt)
      | Inr (st, h, m) \<Rightarrow>
          map_option (\<lambda>x. bindE x (\<lambda>(s, r). case r of
              Some flt \<Rightarrow> Inl flt
            | None \<Rightarrow> bindE (StartupCode_del (e_free e) st (sm_heap s) (sm_mem s)) (\<lambda>(h, m).
                Inr (s\<lparr>sm_heap := h, sm_mem := m\<rparr>))))
            (iterate pb t (\<lambda>it s. case start_entry e st pb it s of Inl flt \<Rightarrow> (s, Some flt) | Inr s \<Rightarrow> (s, None))
              (s\<lparr>sm_heap := h, sm_mem := m\<rparr>)))"

definition DomainList_Initialize ::
    "'h smp_env \<Rightarrow> u64 \<Rightarrow> u64 \<Rightarrow> bytes \<Rightarrow> apic_table option \<Rightarrow> 'h smp \<Rightarrow> 'h smp res option" where
  "DomainList_Initialize e wakeup cb pb t s =
     (let s = s\<lparr>sm_irt := Irt_Set WakeupVector wakeup (sm_irt s)\<rparr> in case t of
        None \<Rightarrow> Some (Inl NullDeref)
      | Some t \<Rightarrow> (case CountLapics pb t True of
            None \<Rightarrow> None
          | Some (Inl flt) \<Rightarrow> Some (Inl flt)
          | Some (Inr lapicCount) \<Rightarrow>
              (case bindE (New (e_alloc e) (e_sizeofDomain e)
                      (\<lambda>_. Domain_new (e_alloc e) (e_sizeofCpu e) (nat lapicCount)) (sm_heap s)) (\<lambda>(r, h). case r of
                    None \<Rightarrow> Inl (AssertFail ''mainDomain != NULL'')
                  | Some (_, d) \<Rightarrow> smp_InitNewCpu e (s\<lparr>sm_dom := d, sm_heap := h\<rparr>)) of
                 Inl flt \<Rightarrow> Some (Inl flt)
               | Inr (_, s) \<Rightarrow> StartCpus e cb pb t s)))"

text \<open>What a started CPU does up to its stack; the result is the stack it switches to.\<close>

definition CpuEntrance :: "'h smp_env \<Rightarrow> u64 \<Rightarrow> u64 \<Rightarrow> PhysAddr \<Rightarrow> 'a gmap \<times> 'h smp \<Rightarrow> (u64 \<times> 'a gmap \<times> 'h smp) res" where
  "CpuEntrance e idtPtr idtEntries lapicBase st =
     (let (g, s) = st; a = sm_apic s in
      bindE (Idt_Set idtPtr idtEntries (a_hw a)) (\<lambda>h.
      bindE (GlobalMap_Set (hw_crit h) g) (\<lambda>g.
      bindE (Gdt_Set (e_gdtBuffer e) h) (\<lambda>h. let a = a\<lparr>a_hw := h\<rparr> in
      bindE (LapicModule_GetLapic a) (\<lambda>k.
      bindE (Lapic_Enable k lapicBase a) (\<lambda>a.
      bindE (Lapic_SetDefaults (Lapic_WriteReg k) a) (\<lambda>a.
      bindE (smp_InitNewCpu e (s\<lparr>sm_apic := a_critical False a\<rparr>)) (\<lambda>(idx, s).
        Inr (stackTop (dom_cpus (sm_dom s) ! idx), g, s\<lparr>sm_apic := a_critical True (sm_apic s)\<rparr>)))))))))"

lemma write_other: "unat (p - a) \<ge> length bs \<Longrightarrow> write_bytes a bs mem p = mem p"
  by (simp add: write_bytes_def)

lemma StartupCode_restores:
  assumes n: "StartupCode_new alloc cb pdpt gp code heap mem = Inr (st, heap', mem')"
    and f: "free heap'' (dataBackup st) = Inr h" and same: "\<And>p. 0x3000 \<le> unat (p - PageTableBase) \<Longrightarrow> mem'' p = mem p"
  shows "StartupCode_del free st heap'' mem'' = Inr (h, mem)"
proof -
  have b: "backup st = map (\<lambda>i. mem (PageTableBase + of_nat i)) [0..<0x3000]"
    using n by (auto simp: StartupCode_new_def Let_def split: option.splits)
  have "write_bytes PageTableBase (backup st) mem'' p = mem p" for p
    using same [of p] unfolding b by (cases "unat (p - PageTableBase) < 0x3000") (simp_all add: write_bytes_def)
  with f show ?thesis by (simp add: StartupCode_del_def fun_eq_iff)
qed

end
