(* ===== verification/Syscalls.thy ===== *)
theory Syscalls
  imports Smp Console
begin

unbundle bit_operations_syntax

text \<open>
  System calls (\<^verbatim>\<open>src/arch/x64/syscall\<close>, \<^verbatim>\<open>src/arch/api/syscall-ret.hpp\<close>), the saved state
  of a thread (\<^verbatim>\<open>src/arch/x64/state/state.cpp\<close>) and the rest of the panic module
  (\<^verbatim>\<open>src/arch/x64/panic/panic.cpp\<close>).
\<close>

section \<open>Arguments and results\<close>

record syscall_args =
  arguments :: "u64 list"
  arg_idx :: nat

definition SyscallArgs_new :: "u64 \<Rightarrow> u64 \<Rightarrow> u64 \<Rightarrow> u64 \<Rightarrow> u64 \<Rightarrow> syscall_args" where
  "SyscallArgs_new arg1 arg2 arg3 arg4 arg5 = \<lparr>arguments = [arg1, arg2, arg3, arg4, arg5], arg_idx = 0\<rparr>"

definition PopUInt64 :: "syscall_args \<Rightarrow> (u64 \<times> syscall_args) res" where
  "PopUInt64 a = bindE (assertE (arg_idx a < 5) ''idx < 5'') (\<lambda>_.
     Inr (arguments a ! arg_idx a, a\<lparr>arg_idx := arg_idx a + 1\<rparr>))"

definition PopBool :: "syscall_args \<Rightarrow> (bool \<times> syscall_args) res" where
  "PopBool a = bindE (PopUInt64 a) (\<lambda>(v, a). Inr (v \<noteq> 0, a))"

definition PopInt :: "syscall_args \<Rightarrow> (int \<times> syscall_args) res" where
  "PopInt a = bindE (PopUInt64 a) (\<lambda>(v, a). Inr (sint (ucast v :: u32), a))"

definition PopUInt32 :: "syscall_args \<Rightarrow> (u32 \<times> syscall_args) res" where
  "PopUInt32 a = bindE (PopUInt64 a) (\<lambda>(v, a). Inr (ucast v, a))"

definition PopPhysAddr :: "syscall_args \<Rightarrow> (PhysAddr \<times> syscall_args) res" where
  "PopPhysAddr = PopUInt64"

definition PopVirtAddr :: "syscall_args \<Rightarrow> (VirtAddr \<times> syscall_args) res" where
  "PopVirtAddr = PopUInt64"

definition PopPhysSize :: "syscall_args \<Rightarrow> (PhysSize \<times> syscall_args) res" where
  "PopPhysSize = PopUInt64"

definition PopVirtSize :: "syscall_args \<Rightarrow> (u64 \<times> syscall_args) res" where
  "PopVirtSize = PopUInt64"

text \<open>The member of the union that was stored last.\<close>

datatype ret_value =
    Unstored
  | RetBool bool
  | RetInt int
  | Ret32 u32
  | Ret64 u64
  | RetPhys PhysAddr
  | RetVirt VirtAddr
  | RetPSize PhysSize
  | RetVSize u64

record syscall_ret =
  ret_value :: ret_value
  errorValue :: int

definition SyscallRet_new :: syscall_ret where
  "SyscallRet_new = \<lparr>ret_value = Unstored, errorValue = 0\<rparr>"

definition SyscallRet_Error :: "int \<Rightarrow> syscall_ret res" where
  "SyscallRet_Error code = bindE (assertE (code \<noteq> 0) ''code != 0'') (\<lambda>_. Inr (SyscallRet_new\<lparr>errorValue := code\<rparr>))"

definition SyscallRet_Empty :: syscall_ret where
  "SyscallRet_Empty = SyscallRet_new\<lparr>ret_value := RetBool True\<rparr>"

definition SyscallRet_Boolean :: "bool \<Rightarrow> syscall_ret" where
  "SyscallRet_Boolean b = SyscallRet_new\<lparr>ret_value := RetBool b\<rparr>"

definition SyscallRet_Integer :: "int \<Rightarrow> syscall_ret" where
  "SyscallRet_Integer i = SyscallRet_new\<lparr>ret_value := RetInt i\<rparr>"

definition SyscallRet_Integer32 :: "u32 \<Rightarrow> syscall_ret" where
  "SyscallRet_Integer32 i = SyscallRet_new\<lparr>ret_value := Ret32 i\<rparr>"

definition SyscallRet_Integer64 :: "u64 \<Rightarrow> syscall_ret" where
  "SyscallRet_Integer64 i = SyscallRet_new\<lparr>ret_value := Ret64 i\<rparr>"

definition SyscallRet_Phys :: "PhysAddr \<Rightarrow> syscall_ret" where
  "SyscallRet_Phys p = SyscallRet_new\<lparr>ret_value := RetPhys p\<rparr>"

definition SyscallRet_Virt :: "VirtAddr \<Rightarrow> syscall_ret" where
  "SyscallRet_Virt v = SyscallRet_new\<lparr>ret_value := RetVirt v\<rparr>"

definition SyscallRet_PhysSize :: "PhysSize \<Rightarrow> syscall_ret" where
  "SyscallRet_PhysSize p = SyscallRet_new\<lparr>ret_value := RetPSize p\<rparr>"

definition SyscallRet_VirtSize :: "u64 \<Rightarrow> syscall_ret" where
  "SyscallRet_VirtSize s = SyscallRet_new\<lparr>ret_value := RetVSize s\<rparr>"

section \<open>The module\<close>

definition MsrSTAR :: u32 where "MsrSTAR = 0xC0000081"
definition MsrLSTAR :: u32 where "MsrLSTAR = 0xC0000082"
definition MsrSFMask :: u32 where "MsrSFMask = 0xC0000084"

record syscalls =
  sys_handler :: u64
  initCount :: int

definition SetHandler :: "u64 \<Rightarrow> syscalls \<Rightarrow> syscalls res" where
  "SetHandler h m = bindE (assertE (sys_handler m = 0) ''!handler'') (\<lambda>_. Inr (m\<lparr>sys_handler := h\<rparr>))"

definition GetHandler :: "syscalls \<Rightarrow> u64" where
  "GetHandler = sys_handler"

definition star_value :: u64 where
  "star_value = push_bit 0x20 8 OR push_bit 0x30 0x13"

definition SetCpuRegisters :: "u64 \<Rightarrow> idt \<times> syscalls \<times> hw \<Rightarrow> (idt \<times> syscalls \<times> hw) res" where
  "SetCpuRegisters rawHandler st =
     (let (t, m, h) = st; t = Idt_SetIst 0x12 1 (Idt_SetIst 0x2 1 t); m = m\<lparr>initCount := initCount m - 1\<rparr>
      in bindE (with_critical (\<lambda>h.
           bindE (WriteMsr MsrSTAR star_value h) (\<lambda>h.
           bindE (WriteMsr MsrSFMask 0x200 h) (WriteMsr MsrLSTAR rawHandler))) h) (\<lambda>h. Inr (t, m, h)))"

text \<open>
  The CPUs other than the current one get a wake-up each, with \<^verbatim>\<open>fn\<close> the address of
  SetCpuRegisters. The result is the state in which the CPU starts to wait for the count, inside its
  critical section; what ends the wait is done by the other CPUs.
\<close>

definition announce_registers :: "u64 \<Rightarrow> nat \<Rightarrow> syscalls \<times> cpu list \<times> apic \<Rightarrow> (syscalls \<times> cpu list \<times> apic) res" where
  "announce_registers fn current st =
     foldE (\<lambda>j (m, cpus, s). if j = current then Inr (m, cpus, s)
         else bindE (RunAsync_on j fn (cpus, s)) (\<lambda>(cpus, s). Inr (m\<lparr>initCount := initCount m + 1\<rparr>, cpus, s)))
       [0..<length (fst (snd st))] st"

definition SyscallModule_Initialize ::
    "u64 \<Rightarrow> u64 \<Rightarrow> nat \<Rightarrow> idt \<times> syscalls \<times> cpu list \<times> apic \<Rightarrow> (idt \<times> syscalls \<times> cpu list \<times> apic) res" where
  "SyscallModule_Initialize fn rawHandler current st =
     (let (t, m, cpus, s) = st
      in bindE (announce_registers fn current
             (m, cpus, s\<lparr>a_hw := (a_hw s)\<lparr>hw_crit := snd (ScopedCritical_new (hw_crit (a_hw s)))\<rparr>\<rparr>)) (\<lambda>(m, cpus, s).
         let m = m\<lparr>initCount := initCount m + 1\<rparr>
         in bindE (SetCpuRegisters rawHandler (t, m, a_hw s)) (\<lambda>(t, m, h). Inr (t, m, cpus, s\<lparr>a_hw := h\<rparr>))))"

text \<open>When the wait starts, the count is that of the CPUs that still have to set their registers.\<close>

lemma announce_count:
  "foldE (\<lambda>j (m, cpus, s). if j = current then Inr (m, cpus, s)
       else bindE (RunAsync_on j fn (cpus, s)) (\<lambda>(cpus, s). Inr (m\<lparr>initCount := initCount m + 1\<rparr>, cpus, s))) js (m, cpus, s)
     = Inr (m', st') \<Longrightarrow> initCount m' = initCount m + int (length (filter (\<lambda>j. j \<noteq> current) js))"
  by (induction js arbitrary: m cpus s) (fastforce split: if_splits)+

lemma SyscallModule_Initialize_count:
  assumes "SyscallModule_Initialize fn rawHandler current (t, m, cpus, s) = Inr (t', m', cpus', s')"
    and "current < length cpus"
  shows "initCount m' = initCount m + int (length cpus - 1)"
proof -
  have "length (filter (\<lambda>j. j \<noteq> current) [0..<length cpus]) = card ({0..<length cpus} - {current})"
    by (subst distinct_card [symmetric]) (auto intro!: arg_cong [where f = card])
  then have l: "length (filter (\<lambda>j. j \<noteq> current) [0..<length cpus]) = length cpus - 1" using assms(2) by simp
  show ?thesis
    using assms(1) by (auto simp: SyscallModule_Initialize_def announce_registers_def SetCpuRegisters_def Let_def l
        dest!: announce_count)
qed

definition AnarchSyscallMainEntry ::
    "(u64 \<Rightarrow> u16 \<Rightarrow> syscall_args \<Rightarrow> 's \<Rightarrow> (syscall_ret \<times> 's) res) \<Rightarrow> crit \<Rightarrow> syscalls \<Rightarrow> u64 \<Rightarrow> u64 \<Rightarrow> u64 \<Rightarrow> u64 \<Rightarrow> u64 \<Rightarrow> u64
     \<Rightarrow> 's \<Rightarrow> (syscall_ret \<times> 's) res" where
  "AnarchSyscallMainEntry call cr m a b c d e f s =
     bindE (AssertCritical cr) (\<lambda>_.
     bindE (assertE (GetHandler m \<noteq> 0) ''handler != NULL'') (\<lambda>_.
       call (GetHandler m) (ucast a) (SyscallArgs_new b c d e f) s))"

section \<open>The state of a thread\<close>

record kstate =
  st_rdi :: u64
  iretInfo :: isr_stack
  stackStart :: u64

definition State_StackSize :: u64 where "State_StackSize = 0x4000"

text \<open>\<^verbatim>\<open>junk\<close> is what the memory of the object held; a user state leaves its RSP alone.\<close>

definition State_new :: "'h heap_alloc \<Rightarrow> isr_stack \<Rightarrow> u64 \<Rightarrow> u64 \<Rightarrow> bool \<Rightarrow> 'h \<Rightarrow> (kstate \<times> 'h) res" where
  "State_new alloc junk rip rdi kern heap =
     (let i = junk\<lparr>st_rip := rip, st_rflags := 0x200\<rparr>
      in bindE (alloc heap State_StackSize) (\<lambda>(r, heap). case r of
           None \<Rightarrow> Inl (Panic ''State::State() - failed to allocate stack'')
         | Some stack \<Rightarrow>
             let i = (if kern then i\<lparr>st_rsp := stack + State_StackSize, st_cs := 8, st_ss := 0\<rparr>
                      else i\<lparr>st_cs := 0x23, st_ss := 0x1b\<rparr>)
             in Inr (\<lparr>st_rdi = rdi, iretInfo = i, stackStart = stack\<rparr>, heap)))"

definition State_del :: "('h \<Rightarrow> u64 \<Rightarrow> 'h res) \<Rightarrow> kstate \<Rightarrow> 'h \<Rightarrow> 'h res" where
  "State_del free st heap = free heap (stackStart st)"

definition GetStackTop :: "kstate \<Rightarrow> u64" where
  "GetStackTop st = stackStart st + State_StackSize"

text \<open>
  The new state with its address; a reference to the object of a failed allocation is one to NULL.
\<close>

definition State_NewKernel_arg ::
    "'h heap_alloc \<Rightarrow> u64 \<Rightarrow> isr_stack \<Rightarrow> u64 \<Rightarrow> u64 \<Rightarrow> 'h \<Rightarrow> (u64 \<times> kstate \<times> 'h) res" where
  "State_NewKernel_arg alloc sizeofState junk fn arg heap =
     bindE (Domain_New alloc sizeofState (\<lambda>_. State_new alloc junk fn arg True) heap) (\<lambda>(r, heap). case r of
         None \<Rightarrow> Inl NullDeref
       | Some (p, st) \<Rightarrow> Inr (p, st, heap))"

definition State_NewKernel ::
    "'h heap_alloc \<Rightarrow> u64 \<Rightarrow> isr_stack \<Rightarrow> u64 \<Rightarrow> 'h \<Rightarrow> (u64 \<times> kstate \<times> 'h) res" where
  "State_NewKernel alloc sizeofState junk fn heap =
     bindE (Domain_New alloc sizeofState (\<lambda>_. State_new alloc junk fn 0 True) heap) (\<lambda>(r, heap). case r of
         None \<Rightarrow> Inl NullDeref
       | Some (p, st) \<Rightarrow> Inr (p, st, heap))"

definition State_NewUser_arg ::
    "'h heap_alloc \<Rightarrow> u64 \<Rightarrow> isr_stack \<Rightarrow> u64 \<Rightarrow> u64 \<Rightarrow> 'h \<Rightarrow> (u64 \<times> kstate \<times> 'h) res" where
  "State_NewUser_arg alloc sizeofState junk fn arg heap =
     bindE (Domain_New alloc sizeofState (\<lambda>_. State_new alloc junk fn arg False) heap) (\<lambda>(r, heap). case r of
         None \<Rightarrow> Inl NullDeref
       | Some (p, st) \<Rightarrow> Inr (p, st, heap))"

definition State_NewUser ::
    "'h heap_alloc \<Rightarrow> u64 \<Rightarrow> isr_stack \<Rightarrow> u64 \<Rightarrow> 'h \<Rightarrow> (u64 \<times> kstate \<times> 'h) res" where
  "State_NewUser alloc sizeofState junk fn heap =
     bindE (Domain_New alloc sizeofState (\<lambda>_. State_new alloc junk fn 0 False) heap) (\<lambda>(r, heap). case r of
         None \<Rightarrow> Inl NullDeref
       | Some (p, st) \<Rightarrow> Inr (p, st, heap))"

definition State_Delete :: "('h \<Rightarrow> u64 \<Rightarrow> 'h res) \<Rightarrow> u64 \<Rightarrow> kstate \<Rightarrow> 'h \<Rightarrow> 'h res" where
  "State_Delete free p st = Domain_Delete free (State_del free st) p"

text \<open>
  The processor's state after \<^verbatim>\<open>iretq\<close>: the five words popped from the stack, and RDI.
\<close>

definition State_Resume :: "kstate \<Rightarrow> cpu \<Rightarrow> hw \<Rightarrow> (isr_stack \<times> u64 \<times> cpu \<times> hw) res" where
  "State_Resume st p h =
     bindE (AssertCritical (hw_crit h)) (\<lambda>_.
     let p = SetAsyncKernelTop (GetStackTop st) p
     in bindE (if st_cs (iretInfo st) AND 3 \<noteq> 0 then LocalSegment_Swap h else Inr h) (\<lambda>h.
          Inr (iretInfo st, st_rdi st, p, h)))"

text \<open>
  The saved frame resumes at \<^verbatim>\<open>retAddr\<close> with the current flags and stack pointer; the
  result has the CPU's stack and the function to call.
\<close>

definition SuspendAndCall :: "u64 \<Rightarrow> u64 \<Rightarrow> u64 \<Rightarrow> u64 \<Rightarrow> kstate \<Rightarrow> cpu \<Rightarrow> hw \<Rightarrow> (kstate \<times> u64 \<times> u64 \<times> u64) res" where
  "SuspendAndCall func arg retAddr rsp st p h =
     bindE (AssertCritical (hw_crit h)) (\<lambda>_.
       Inr (st\<lparr>iretInfo := \<lparr>st_rip = retAddr, st_cs = 8, st_rflags = rflags (hw_crit h), st_rsp = rsp, st_ss = 0\<rparr>\<rparr>,
            stackTop p, func, arg))"

text \<open>Without an argument, RDI still has the address of the frame.\<close>

definition SuspendAndCall_noarg :: "u64 \<Rightarrow> u64 \<Rightarrow> u64 \<Rightarrow> u64 \<Rightarrow> kstate \<Rightarrow> cpu \<Rightarrow> hw \<Rightarrow> (kstate \<times> u64 \<times> u64 \<times> u64) res" where
  "SuspendAndCall_noarg func frame retAddr rsp st p h =
     bindE (AssertCritical (hw_crit h)) (\<lambda>_.
       Inr (st\<lparr>iretInfo := \<lparr>st_rip = retAddr, st_cs = 8, st_rflags = rflags (hw_crit h), st_rsp = rsp, st_ss = 0\<rparr>\<rparr>,
            stackTop p, func, frame))"

text \<open>
  A kernel state starts its function on its own stack, in kernel code with interrupts on, with the
  argument in RDI; GS stays, and the CPU takes its system calls on the same stack from then on.
\<close>

lemma NewKernel_starts:
  assumes "State_NewKernel_arg alloc sizeofState junk fn arg heap = Inr (q, st, heap')" and "AssertCritical (hw_crit h) = Inr ()"
  shows "State_Resume st p h = Inr (\<lparr>st_rip = fn, st_cs = 8, st_rflags = 0x200, st_rsp = GetStackTop st, st_ss = 0\<rparr>, arg,
    SetAsyncKernelTop (GetStackTop st) p, h)"
proof -
  obtain stack where "st = \<lparr>st_rdi = arg,
      iretInfo = \<lparr>st_rip = fn, st_cs = 8, st_rflags = 0x200, st_rsp = stack + State_StackSize, st_ss = 0\<rparr>, stackStart = stack\<rparr>"
    using assms(1) by (auto simp: State_NewKernel_arg_def Domain_New_def State_new_def Let_def split: option.splits)
  then show ?thesis using assms(2) by (simp add: State_Resume_def GetStackTop_def Let_def)
qed

section \<open>Distributing a panic\<close>

definition PanicVector :: u8 where "PanicVector = 0xef"

definition PanicModule_Initialize :: "u64 \<Rightarrow> irt \<Rightarrow> irt" where
  "PanicModule_Initialize haltCpu = Irt_Set PanicVector haltCpu"

definition DistributeError :: "bool \<Rightarrow> cpu list \<Rightarrow> nat \<Rightarrow> apic \<Rightarrow> apic res" where
  "DistributeError initialized cpus current s =
     (if \<not> initialized then Inr s
      else bindE (LapicModule_GetLapic s) (\<lambda>k.
        foldE (\<lambda>j s. if j = current then Inr s
          else Lapic_SendIpi k (apicId (cpus ! j)) PanicVector 0 1 0 s) [0..<length cpus] s))"

text \<open>
  \<^verbatim>\<open>Panic\<close> up to its last \<^verbatim>\<open>hlt\<close>; when a panic is already under way the CPU halts at once,
  and the result has no device state.
\<close>

definition PanicModule_Panic ::
    "bool \<Rightarrow> cpu list \<Rightarrow> nat \<Rightarrow> u8 list \<Rightarrow> nat \<Rightarrow> (nat \<Rightarrow> u16) \<Rightarrow> apic \<Rightarrow> (nat \<times> ((nat \<Rightarrow> u16) \<times> apic) option) res" where
  "PanicModule_Panic initialized cpus current msg panicCount screen s =
     (let s = s\<lparr>a_hw := (a_hw s)\<lparr>hw_crit := (hw_crit (a_hw s))\<lparr>rflags := unset_bit 9 (rflags (hw_crit (a_hw s)))\<rparr>\<rparr>\<rparr>
      in if panicCount \<noteq> 0 then Inr (panicCount + 1, None)
         else
           let screen = WriteError msg screen
           in bindE (DistributeError initialized cpus current s) (\<lambda>s.
                Inr (panicCount + 1, Some (WriteError msg screen, s))))"

definition HaltCpu :: "apic \<Rightarrow> apic res" where
  "HaltCpu s = bindE (LapicModule_GetLapic s) (\<lambda>k. Lapic_SendEoi (Lapic_WriteReg k) s)"

section \<open>Properties\<close>

text \<open>The descriptor a selector names, and what it asks of the caller.\<close>

definition selects :: "gdt \<Rightarrow> u64 \<Rightarrow> bool \<Rightarrow> u64 \<Rightarrow> bool" where
  "selects g sel exec privilege \<longleftrightarrow>
     (let d = descriptor g (ucast sel)
      in bit d 47 \<and> (bit d 43 \<longleftrightarrow> exec) \<and> drop_bit 45 d AND 3 = privilege \<and> sel AND 3 \<le> privilege)"

text \<open>
  C27. The segment selectors of the kernel fit together: in the table that Gdt::Initialize
  builds, the code selector of a new kernel state names present ring 0 code; both selectors
  of a new user state name present ring 3 code and data; SYSCALL, by the value written to
  STAR, loads ring 0 code and data, and SYSRET loads exactly the selectors of a user state.
\<close>

theorem syscall_selectors:
  assumes "Gdt_Initialize galloc gheap h = Inr (buffer, g, gheap', h')"
    and "State_new alloc junk rip rdi True heap = Inr (ks, heap1)"
    and "State_new alloc junk rip rdi False heap = Inr (us, heap2)"
  shows "selects g (st_cs (iretInfo ks)) True 0
    \<and> selects g (st_cs (iretInfo us)) True 3 \<and> selects g (st_ss (iretInfo us)) False 3
    \<and> (let syscall_cs = drop_bit 32 star_value AND 0xfffc; sysret = drop_bit 48 star_value in
        selects g syscall_cs True 0 \<and> selects g (syscall_cs + 8) False 0
        \<and> (sysret + 16) OR 3 = st_cs (iretInfo us) \<and> (sysret + 8) OR 3 = st_ss (iretInfo us))"
proof -
  have k: "st_cs (iretInfo ks) = 8" and u: "st_cs (iretInfo us) = 0x23" "st_ss (iretInfo us) = 0x1b"
    using assms(2,3) by (auto simp: State_new_def Let_def split: option.splits)
  have d: "descriptor g 8 = 0x0020980000000000" "descriptor g 0x10 = 0x0020920000000000"
    "descriptor g 0x18 = 0x0020F20000000000" "descriptor g 0x20 = 0x0020F80000000000"
    using assms(1) Gdt_Initialize_layout [of galloc gheap h] by (auto split: sum.splits option.splits)
  have low: "descriptor g 0x23 = descriptor g 0x20" "descriptor g 0x1b = descriptor g 0x18"
    by (simp_all add: descriptor_def)
  show ?thesis
    by (simp add: k u selects_def low d star_value_def Let_def bit_numeral_rec)
qed

theorem syscall_selectors_witness:
  "\<exists>b g heap h'. Gdt_Initialize (\<lambda>h n. Inr (Some 0x10000, h)) () ex_hw = Inr (b, g, heap, h') \<and> selects g 0x23 True 3"
proof -
  let ?alloc = "\<lambda>(h :: unit) (n :: u64). Inr (Some 0x10000, h) :: (u64 option \<times> unit) res"
  let ?junk = "\<lparr>st_rip = 0, st_cs = 0, st_rflags = 0, st_rsp = 0, st_ss = 0\<rparr>"
  obtain g where g: "Gdt_Initialize ?alloc () ex_hw = Inr (0x10000, g, (), ex_hw\<lparr>gdtr := (0xffff, 0x10000)\<rparr>)"
    using Gdt_Initialize_layout [of ?alloc "()" ex_hw] by auto
  obtain ks hk where k: "State_new ?alloc ?junk 0 0 True () = Inr (ks, hk)" by (simp add: State_new_def Let_def)
  obtain us hu where u: "State_new ?alloc ?junk 0 0 False () = Inr (us, hu)" "st_cs (iretInfo us) = 0x23"
    by (simp add: State_new_def Let_def)
  from syscall_selectors [OF g k u(1)] g u(2) show ?thesis by auto
qed

end
