(* ===== verification/Clocks.thy ===== *)
theory Clocks
  imports Smp
begin

unbundle bit_operations_syntax

text \<open>
  Clocks and timers (\<^verbatim>\<open>src/arch/api/clock.cpp\<close>, \<^verbatim>\<open>src/arch/x64/clock\<close>,
  \<^verbatim>\<open>src/arch/x64/timer\<close>). The rational numbers are those of the ansa library, which is not
  part of the repository: their operations are the fields of a record.
\<close>

record 'q rational =
  rat_new :: "u64 \<Rightarrow> u64 \<Rightarrow> 'q"
  rat_Flip :: "'q \<Rightarrow> 'q"
  rat_ScaleInteger :: "'q \<Rightarrow> u64 \<Rightarrow> u64"

section \<open>Waiting for a clock\<close>

definition Clock_GetMicros :: "'q rational \<Rightarrow> 'q \<Rightarrow> u64 \<Rightarrow> u64" where
  "Clock_GetMicros rat microsPerTick ticks = rat_ScaleInteger rat microsPerTick ticks"

text \<open>
  \<^verbatim>\<open>clk n\<close> is what reading number \<^verbatim>\<open>n\<close> of the clock answers; the result is the number of the
  reading that ended the wait, None when there is none.
\<close>

partial_function (option) wait_loop :: "(nat \<Rightarrow> u64) \<Rightarrow> u64 \<Rightarrow> nat \<Rightarrow> nat option" where
  "wait_loop clk ticks n = (if clk n < ticks then wait_loop clk ticks (Suc n) else Some n)"

definition Clock_WaitUntil :: "crit \<Rightarrow> (nat \<Rightarrow> u64) \<Rightarrow> u64 \<Rightarrow> nat \<Rightarrow> nat res option" where
  "Clock_WaitUntil c clk ticks n =
     (case AssertNoncritical c of Inl e \<Rightarrow> Some (Inl e) | Inr _ \<Rightarrow> map_option Inr (wait_loop clk ticks n))"

definition Clock_Sleep :: "crit \<Rightarrow> (nat \<Rightarrow> u64) \<Rightarrow> u64 \<Rightarrow> nat \<Rightarrow> nat res option" where
  "Clock_Sleep c clk ticks n = Clock_WaitUntil c clk (clk n + ticks) (Suc n)"

definition Clock_MicroSleep :: "'q rational \<Rightarrow> 'q \<Rightarrow> crit \<Rightarrow> (nat \<Rightarrow> u64) \<Rightarrow> u64 \<Rightarrow> nat \<Rightarrow> nat res option" where
  "Clock_MicroSleep rat microsPerTick c clk micros n =
     (let now = clk n; tickCount = rat_ScaleInteger rat (rat_Flip rat microsPerTick) micros
      in Clock_WaitUntil c clk (now + tickCount) (Suc n))"

lemma wait_loop_first:
  "\<not> clk (n + k) < ticks \<Longrightarrow> (\<And>j. j < k \<Longrightarrow> clk (n + j) < ticks) \<Longrightarrow> wait_loop clk ticks n = Some (n + k)"
proof (induction k arbitrary: n)
  case 0
  then show ?case by (subst wait_loop.simps) simp
next
  case (Suc k)
  have "wait_loop clk ticks (Suc n) = Some (Suc n + k)"
    by (rule Suc.IH) (use Suc.prems(1) Suc.prems(2) [of "Suc j" for j] in auto)
  then show ?case using Suc.prems(2) [of 0] by (subst wait_loop.simps) simp
qed

text \<open>A sleep whose end does not wrap around lasts at least the given ticks.\<close>

lemma Clock_Sleep_lasts:
  assumes "noncritical c" and "mono (\<lambda>n. unat (clk n))" and "unat (clk n) + unat ticks < 2 ^ 64"
    and "unat (clk n) + unat ticks \<le> unat (clk m)"
  shows "\<exists>k. Clock_Sleep c clk ticks n = Some (Inr k) \<and> n < k \<and> unat (clk n) + unat ticks \<le> unat (clk k)"
proof -
  let ?t = "clk n + ticks"
  have t: "unat ?t = unat (clk n) + unat ticks" using assms(3) by (subst unat_add_lem [THEN iffD1]) simp_all
  define P where "P j \<longleftrightarrow> \<not> clk (Suc n + j) < ?t" for j
  have "unat (clk m) \<le> unat (clk (Suc n + m))" using monoD [OF assms(2), of m "Suc n + m"] by simp
  then have "P m" using assms(4) t by (simp add: P_def word_less_nat_alt)
  then have l: "P (LEAST j. P j)" "\<And>j. j < (LEAST j. P j) \<Longrightarrow> \<not> P j" by (auto intro: LeastI dest: not_less_Least)
  have "wait_loop clk ?t (Suc n) = Some (Suc n + (LEAST j. P j))"
    by (rule wait_loop_first) (use l in \<open>auto simp: P_def\<close>)
  then have "Clock_Sleep c clk ticks n = Some (Inr (Suc n + (LEAST j. P j)))"
    using assms(1) by (simp add: Clock_Sleep_def Clock_WaitUntil_def)
  moreover have "unat (clk n) + unat ticks \<le> unat (clk (Suc n + (LEAST j. P j)))"
    using l(1) t by (simp add: P_def word_less_nat_alt)
  ultimately show ?thesis by (intro exI [of _ "Suc n + (LEAST j. P j)"]) simp
qed

section \<open>The programmable interval timer\<close>

record pit =
  divisor :: u16
  counter :: u64

record pit_sys =
  ps_pit :: pit
  currentPit :: bool
  ps_hw :: hw
  ps_irt :: irt
  ps_io :: ioapic

definition PitVector :: u8 where "PitVector = 0x20"
definition LapicTimerVector :: u8 where "LapicTimerVector = 0x21"

definition Pit_new :: "u16 \<Rightarrow> pit" where
  "Pit_new d = \<lparr>divisor = d, counter = 0\<rparr>"

text \<open>\<^verbatim>\<open>currentPit\<close> is whether the object is the current timer.\<close>

definition Pit_Start :: "bytes \<Rightarrow> apic_table \<Rightarrow> u64 \<Rightarrow> pit_sys \<Rightarrow> pit_sys res option" where
  "Pit_Start pb t handler s =
     (case bindE (AssertNoncritical (hw_crit (ps_hw s))) (\<lambda>_.
           bindE (assertE (\<not> currentPit s) ''currentPit == NULL'') (\<lambda>_.
           let s = s\<lparr>ps_pit := (ps_pit s)\<lparr>counter := 0\<rparr>\<rparr>; h = hw_critical True (ps_hw s)
           in bindE (OutB 0x43 0x34 h) (\<lambda>h.
              bindE (OutB 0x40 (ucast (divisor (ps_pit s))) h) (\<lambda>h.
              bindE (OutB 0x40 (ucast (drop_bit 8 (divisor (ps_pit s)))) h) (\<lambda>h.
                Inr (s\<lparr>ps_hw := hw_critical False h, currentPit := True,
                      ps_irt := Irt_Set PitVector handler (ps_irt s)\<rparr>)))))) of
        Inl e \<Rightarrow> Some (Inl e)
      | Inr s \<Rightarrow> map_option (\<lambda>x. bindE x (\<lambda>d. Inr (s\<lparr>ps_io := d\<rparr>))) (IOApic_MapIrq pb t 0 PitVector (ps_io s)))"

definition Pit_Stop :: "bytes \<Rightarrow> apic_table \<Rightarrow> pit_sys \<Rightarrow> pit_sys res option" where
  "Pit_Stop pb t s =
     (case bindE (AssertNoncritical (hw_crit (ps_hw s))) (\<lambda>_.
           bindE (assertE (currentPit s) ''currentPit == this'') (\<lambda>_.
           let s = s\<lparr>currentPit := False\<rparr>
           in bindE (OutB 0x43 0x34 (ps_hw s)) (\<lambda>h. bindE (OutB 0x40 0xff h) (\<lambda>h. bindE (OutB 0x40 0xff h) (\<lambda>h.
                Inr (s\<lparr>ps_hw := h\<rparr>)))))) of
        Inl e \<Rightarrow> Some (Inl e)
      | Inr s \<Rightarrow> map_option (\<lambda>x. bindE x (\<lambda>d. Inr (s\<lparr>ps_io := d\<rparr>))) (IOApic_MaskIrq pb t PitVector (ps_io s)))"

definition Pit_GetTicks :: "pit \<Rightarrow> u64" where
  "Pit_GetTicks p = counter p"

definition Pit_GetMicrosPerTick :: "'q rational \<Rightarrow> pit \<Rightarrow> 'q res" where
  "Pit_GetMicrosPerTick rat p =
     (if divisor p = 0 then Inl DivideError else Inr (rat_new rat 1000000 (1193182 div ucast (divisor p))))"

definition Pit_InterruptHandler :: "pit option \<Rightarrow> apic \<Rightarrow> (pit option \<times> apic) res" where
  "Pit_InterruptHandler cur s =
     bindE (a_assert s) (\<lambda>_.
     let cur = map_option (\<lambda>p. p\<lparr>counter := counter p + 1\<rparr>) cur
     in bindE (LapicModule_GetLapic s) (\<lambda>k. bindE (Lapic_SendEoi (Lapic_WriteReg k) s) (\<lambda>s. Inr (cur, s))))"

text \<open>
  Stop asserts that it is outside a critical section and then writes to ports, which asserts
  the opposite: once the critical sections are initialised it always fails.
\<close>

lemma Pit_Stop_fails:
  assumes "crit_initialized (hw_crit (ps_hw s))"
  shows "\<exists>m. Pit_Stop pb t s = Some (Inl (AssertFail m))"
  using assms
  by (cases "noncritical (hw_crit (ps_hw s))"; cases "currentPit s")
    (auto simp: Pit_Stop_def OutB_def Let_def AssertCritical_def AssertNoncritical_def noncritical_def
      IgnoreCriticality_def assertE_def)

section \<open>The high precision event timer\<close>

definition ExtractTicksPerMin :: "(nat \<Rightarrow> u64) \<Rightarrow> u64 res" where
  "ExtractTicksPerMin regs =
     (let period = drop_bit 0x20 (regs 0) in if period = 0 then Inl DivideError else Inr (60000000000000000 div period))"

record 'q hpet =
  hp_regs :: "nat \<Rightarrow> u64"
  microsPerTick :: 'q

text \<open>\<^verbatim>\<open>regs\<close> are the quadwords of the mapped page.\<close>

definition Hpet_new :: "'q rational \<Rightarrow> (nat \<Rightarrow> u64) \<Rightarrow> 'q hpet res" where
  "Hpet_new rat regs = bindE (ExtractTicksPerMin regs) (\<lambda>n. Inr \<lparr>hp_regs = regs, microsPerTick = rat_new rat 60000000 n\<rparr>)"

definition Hpet_Start :: "crit \<Rightarrow> 'q hpet \<Rightarrow> 'q hpet res" where
  "Hpet_Start c p = bindE (AssertNoncritical c) (\<lambda>_. Inr (p\<lparr>hp_regs := (hp_regs p)(2 := hp_regs p 2 OR 1)\<rparr>))"

definition Hpet_Stop :: "crit \<Rightarrow> 'q hpet \<Rightarrow> 'q hpet res" where
  "Hpet_Stop c p = bindE (AssertNoncritical c) (\<lambda>_. Inr (p\<lparr>hp_regs := (hp_regs p)(2 := hp_regs p 2 AND NOT 1)\<rparr>))"

definition Hpet_GetTicks :: "'q hpet \<Rightarrow> u64" where
  "Hpet_GetTicks p = hp_regs p 0x1e"

definition Hpet_GetMicrosPerTick :: "'q hpet \<Rightarrow> 'q" where
  "Hpet_GetMicrosPerTick p = microsPerTick p"

section \<open>The clock module\<close>

datatype 'q clock = HpetClock "'q hpet" | PitClock pit

text \<open>
  A failed allocation leaves the null pointer, which Start is called on. The registers of a
  HPET are those of the page at its address.
\<close>

definition ClockModule_Initialize ::
    "'q rational \<Rightarrow> bool \<Rightarrow> (u64 \<Rightarrow> nat \<Rightarrow> u64) \<Rightarrow> bytes \<Rightarrow> apic_table \<Rightarrow> u64 \<Rightarrow> hpet_table option \<Rightarrow> pit_sys
     \<Rightarrow> ('q clock \<times> pit_sys) res option" where
  "ClockModule_Initialize rat newOk page pb t handler hpetInfo s =
     (if \<not> newOk then Some (Inl NullDeref)
      else case hpetInfo of
        Some info \<Rightarrow>
          Some (bindE (Hpet_new rat (page (hpet_address info))) (\<lambda>p.
                bindE (Hpet_Start (hw_crit (ps_hw s)) p) (\<lambda>p. Inr (HpetClock p, s))))
      | None \<Rightarrow>
          map_option (\<lambda>x. bindE x (\<lambda>s. Inr (PitClock (ps_pit s), s)))
            (Pit_Start pb t handler (s\<lparr>ps_pit := Pit_new 1193\<rparr>)))"

definition GetClock :: "'q clock option \<Rightarrow> 'q clock res" where
  "GetClock clock = (case clock of None \<Rightarrow> Inl (AssertFail ''clock != NULL'') | Some k \<Rightarrow> Inr k)"

section \<open>The timer of a CPU\<close>

definition GetTicksPerMicro :: "lapic_timer \<Rightarrow> u64 \<times> u64" where
  "GetTicksPerMicro t = ticksPerMicro t"

definition LapicTimer_SetTimeout :: "u64 \<Rightarrow> u64 \<Rightarrow> u64 \<Rightarrow> cpu \<times> apic \<Rightarrow> (cpu \<times> apic) res" where
  "LapicTimer_SetTimeout ticks fn arg st =
     (let (p, s) = st in
      bindE (a_assert s) (\<lambda>_.
      bindE (assertE (ticks < 0x100000000) ''ticks < 0x100000000'') (\<lambda>_.
      bindE (Lapic_SetTimeout (Lapic_WriteReg (cpu_lapic p)) LapicTimerVector (ucast ticks) s) (\<lambda>s.
        Inr (p\<lparr>lapicTimer := (lapicTimer p)\<lparr>isExpecting := True, callbackFunction := fn, callbackArg := arg\<rparr>\<rparr>, s)))))"

definition LapicTimer_SetTimeout_noarg :: "u64 \<Rightarrow> u64 \<Rightarrow> cpu \<times> apic \<Rightarrow> (cpu \<times> apic) res" where
  "LapicTimer_SetTimeout_noarg ticks func = LapicTimer_SetTimeout ticks func 0"

definition LapicTimer_ClearTimeout :: "cpu \<times> apic \<Rightarrow> (cpu \<times> apic) res" where
  "LapicTimer_ClearTimeout st =
     (let (p, s) = st in
      bindE (a_assert s) (\<lambda>_.
      bindE (Lapic_ClearTimeout (Lapic_WriteReg (cpu_lapic p)) s) (\<lambda>s.
        Inr (p\<lparr>lapicTimer := (lapicTimer p)\<lparr>isExpecting := False\<rparr>\<rparr>, s))))"

text \<open>The state in which the CPU halts for good.\<close>

definition WaitTimeout :: "apic \<Rightarrow> apic res" where
  "WaitTimeout s = bindE (a_assert s) (\<lambda>_. Inr (a_critical False s))"

definition GeneralTimerCallback :: "(u64 \<Rightarrow> u64 \<Rightarrow> cpu \<times> apic \<Rightarrow> (cpu \<times> apic) res) \<Rightarrow> cpu \<times> apic \<Rightarrow> (cpu \<times> apic) res" where
  "GeneralTimerCallback call st =
     (let (p, s) = st; k = cpu_lapic p; timer = lapicTimer p;
          fire = (\<lambda>s. call (callbackFunction timer) (callbackArg timer) (p\<lparr>lapicTimer := timer\<lparr>isExpecting := False\<rparr>\<rparr>, s))
      in bindE (a_assert s) (\<lambda>_.
         if \<not> isExpecting timer then bindE (Lapic_SendEoi (Lapic_WriteReg k) s) (\<lambda>s. Inr (p, s))
         else bindE (Lapic_IsTimerRunning (Lapic_ReadReg k) s) (\<lambda>running.
           if running then
             bindE (Lapic_SendEoi (Lapic_WriteReg k) s) (\<lambda>s.
             bindE (Lapic_IsInService (Lapic_ReadReg k) LapicTimerVector s) (\<lambda>inService.
             bindE (if inService then Inr True else Lapic_IsRequested (Lapic_ReadReg k) LapicTimerVector s) (\<lambda>again.
               if again then Inr (p, s) else fire s)))
           else bindE (Lapic_SendEoi (Lapic_WriteReg k) s) fire)))"

section \<open>The timer module\<close>

text \<open>\<^verbatim>\<open>microSleep\<close> is that of the clock, outside the critical section.\<close>

definition CalibrateMethod :: "(u64 \<Rightarrow> apic \<Rightarrow> apic res) \<Rightarrow> cpu \<times> apic \<Rightarrow> (cpu \<times> apic) res" where
  "CalibrateMethod microSleep st =
     (let (p, s) = st in
      bindE (a_assert s) (\<lambda>_.
      bindE (LapicModule_GetLapic s) (\<lambda>k.
      bindE (Lapic_WriteReg k RegLvtTimer 0xff s) (\<lambda>s.
      bindE (Lapic_WriteReg k RegTimerInitCount 0xffffffff s) (\<lambda>s.
      bindE (wait_noncritical microSleep 500000 s) (\<lambda>s.
      bindE (Lapic_ReadReg k RegTimerCurrCount s) (\<lambda>value.
      bindE (Lapic_ClearTimeout (Lapic_WriteReg k) s) (\<lambda>s.
      bindE (assertE (value > 0) ''value > 0'') (\<lambda>_.
        let ticksPerSec = (0xffffffff - value) * 2
        in Inr (p\<lparr>lapicTimer := (lapicTimer p)\<lparr>ticksPerMicro := (ticksPerSec, 1000000), calibrated := True\<rparr>\<rparr>, s))))))))))"

text \<open>
  Every other CPU is told to calibrate, with \<^verbatim>\<open>fn\<close> the address of CalibrateMethod, then this
  one does. \<^verbatim>\<open>wait i\<close> is what happens until the timer number \<^verbatim>\<open>i\<close> is calibrated, which needs
  the progress of that CPU.
\<close>

definition TimerModule_Initialize ::
    "(u64 \<Rightarrow> apic \<Rightarrow> apic res) \<Rightarrow> (nat \<Rightarrow> cpu list \<times> apic \<Rightarrow> (cpu list \<times> apic) res) \<Rightarrow> u64 \<Rightarrow> nat \<Rightarrow> u64
     \<Rightarrow> irt \<times> cpu list \<times> apic \<Rightarrow> (irt \<times> cpu list \<times> apic) res" where
  "TimerModule_Initialize microSleep wait fn current handler st =
     (let (routines, cpus, s) = st
      in bindE (a_with_critical (\<lambda>s.
           bindE (foldE (\<lambda>i st. if i = current then Inr st else RunAsync_on i fn st) [0..<length cpus] (cpus, s)) (\<lambda>(cpus, s).
           bindE (CalibrateMethod microSleep (cpus ! current, s)) (\<lambda>(p, s).
             foldE (\<lambda>i (cpus, s). bindE (wait i (cpus, a_critical False s)) (\<lambda>(cpus, s). Inr (cpus, a_critical True s)))
               [0..<length cpus] (cpus[current := p], s)))) s) (\<lambda>(cpus, s).
         Inr (Irt_Set LapicTimerVector handler routines, cpus, s)))"

end
