(* ===== verification/SmpProps.thy ===== *)
theory SmpProps
  imports Smp
begin

unbundle bit_operations_syntax

text \<open>
  What the CPUs that are started find in low memory, and what is left of it: the properties
  of DomainList::StartCpus and StartupCode (theory Smp).
\<close>

section \<open>Bytes in memory\<close>

lemma unat_add_le: "unat (x + y) \<le> unat x + unat y" for x y :: u64
  by (simp add: unat_word_ariths)

lemma unat_of_nat_64: "i < 2 ^ 64 \<Longrightarrow> unat (of_nat i :: u64) = i"
  by (simp add: unat_of_nat)

lemma unat_add_of_nat: "unat a + i < 2 ^ 64 \<Longrightarrow> unat (a + of_nat i) = unat a + i" for a :: u64
  by (simp add: unat_word_ariths unat_of_nat)

definition holds :: "bytes \<Rightarrow> u64 \<Rightarrow> u8 list \<Rightarrow> bool" where
  "holds mem a bs \<longleftrightarrow> (\<forall>i < length bs. mem (a + of_nat i) = bs ! i)"

lemma holds_write: "length bs < 2 ^ 32 \<Longrightarrow> holds (write_bytes a bs mem) a bs"
  by (auto simp: holds_def write_bytes_def unat_of_nat_64)

lemma holds_cong: "(\<And>i. i < length bs \<Longrightarrow> mem' (a + of_nat i) = mem (a + of_nat i)) \<Longrightarrow> holds mem' a bs = holds mem a bs"
  by (auto simp: holds_def)

lemma holds_write_before:
  assumes "unat b + length cs \<le> unat a" and "unat a + length bs \<le> 2 ^ 32"
  shows "holds (write_bytes b cs mem) a bs = holds mem a bs"
proof -
  have "length cs \<le> unat (a + of_nat i - b)" if "i < length bs" for i
  proof -
    have u: "unat (a + of_nat i) = unat a + i"
      using that assms(2) by (intro unat_add_of_nat) simp
    then have "b \<le> a + of_nat i" using assms(1) by (simp add: word_le_nat_alt)
    then show ?thesis using u assms(1) by (simp add: unat_sub)
  qed
  then show ?thesis by (intro holds_cong) (simp add: write_bytes_def leD)
qed

lemma holds_write_after:
  assumes "unat a + length bs \<le> unat b" and "unat b + length cs \<le> 2 ^ 32"
  shows "holds (write_bytes b cs mem) a bs = holds mem a bs"
proof -
  have "length cs \<le> unat (a + of_nat i - b)" if "i < length bs" for i
  proof -
    have u: "unat (a + of_nat i) = unat a + i"
      using that assms by (intro unat_add_of_nat) simp
    then have "unat (a + of_nat i - b) = 2 ^ 64 + unat a + i - unat b"
      using that assms by (subst unat_sub_if_size) (simp add: word_size word_le_nat_alt)
    then show ?thesis using assms by simp
  qed
  then show ?thesis by (intro holds_cong) (simp add: write_bytes_def leD)
qed

section \<open>The loop over the table\<close>

lemma do_iterate_inv:
  fixes body :: "apic_iter \<Rightarrow> 's \<Rightarrow> 's \<times> 'r option"
  assumes "do_iterate pb body it s = Some y"
  shows "(\<forall>it s. I s \<longrightarrow> I (fst (body it s))) \<longrightarrow> I s \<longrightarrow> (\<forall>s' r. y = Inr (s', r) \<longrightarrow> I s')"
proof (rule do_iterate.raw_induct [where P = "\<lambda>pb body it s y.
    (\<forall>it s. I s \<longrightarrow> I (fst (body it s))) \<longrightarrow> I s \<longrightarrow> (\<forall>s' r. y = Inr (s', r) \<longrightarrow> I s')", OF _ assms])
  fix di and pb :: bytes and body :: "apic_iter \<Rightarrow> 's \<Rightarrow> 's \<times> 'r option" and it s y
  assume IH: "\<And>pb body it s y. di pb body it s = Some y \<Longrightarrow>
      (\<forall>it s. I s \<longrightarrow> I (fst (body it s))) \<longrightarrow> I s \<longrightarrow> (\<forall>s' r. y = Inr (s', r) \<longrightarrow> I s')"
    and e: "(case body it s of
        (s, None) \<Rightarrow> (case it_Next pb it of Inl e \<Rightarrow> Some (Inl e) | Inr None \<Rightarrow> Some (Inr (s, None))
          | Inr (Some it') \<Rightarrow> di pb body it' s)
      | (s, Some r) \<Rightarrow> Some (Inr (s, Some r))) = Some y"
  show "(\<forall>it s. I s \<longrightarrow> I (fst (body it s))) \<longrightarrow> I s \<longrightarrow> (\<forall>s' r. y = Inr (s', r) \<longrightarrow> I s')"
  proof (intro impI)
    assume b: "\<forall>it s. I s \<longrightarrow> I (fst (body it s))" and "I s"
    obtain s1 r1 where s1: "body it s = (s1, r1)" by (cases "body it s")
    with b \<open>I s\<close> have "I s1" by (metis fst_conv)
    show "\<forall>s' r. y = Inr (s', r) \<longrightarrow> I s'"
    proof (cases r1)
      case (Some r)
      with e s1 \<open>I s1\<close> show ?thesis by auto
    next
      case None
      with e s1 have "(case it_Next pb it of Inl e \<Rightarrow> Some (Inl e) | Inr None \<Rightarrow> Some (Inr (s1, None))
          | Inr (Some it') \<Rightarrow> di pb body it' s1) = Some y" by simp
      with IH [of pb body _ s1 y] b \<open>I s1\<close> show ?thesis by (auto split: sum.splits option.splits)
    qed
  qed
qed

lemma iterate_inv:
  assumes "iterate pb t body s = Some (Inr (s', r))" and "\<And>it s. I s \<Longrightarrow> I (fst (body it s))" and "I s"
  shows "I s'"
  using assms do_iterate_inv [of pb body "GetIterator t" s "Inr (s', r)" I]
  by (auto simp: iterate_def split: if_splits)

section \<open>The trampoline\<close>

text \<open>
  What the code at 0x5000 uses: the first entry of its PML4, the GDT pointer, itself, and
  on its stack the kernel's PML4 and the function to call.
\<close>

definition trampoline :: "'h smp_env \<Rightarrow> u64 \<Rightarrow> bytes \<Rightarrow> bool" where
  "trampoline e cb mem \<longleftrightarrow>
     holds mem 0x3000 (le_bytes 8 (e_pdpt e OR 3)) \<and> holds mem 0x4000 (le_bytes 2 0xffff @ le_bytes 8 (e_gdtBuffer e))
     \<and> holds mem 0x4ff0 (le_bytes 8 (e_pml4 e)) \<and> holds mem 0x4ff8 (le_bytes 8 cb) \<and> holds mem 0x5000 (e_code e)"

lemma ResetStartupStack_other:
  "16 \<le> unat (p - 0x4ff0) \<Longrightarrow> ResetStartupStack root st mem p = mem p"
proof -
  assume p: "16 \<le> unat (p - 0x4ff0)"
  have "unat (p - 0x4ff8) \<ge> 8"
  proof (rule ccontr)
    assume "\<not> 8 \<le> unat (p - 0x4ff8)"
    moreover have "unat (p - 0x4ff0) \<le> unat (p - 0x4ff8) + unat (8 :: u64)"
      using unat_add_le [of "p - 0x4ff8" 8] by simp
    ultimately show False using p by simp
  qed
  with p show ?thesis by (simp add: ResetStartupStack_def write_bytes_def CodeBase_def Let_def)
qed

lemma StartupCode_new_parts:
  assumes "StartupCode_new alloc cb pdpt (Gdt_GetPointer buf) code heap mem = Inr (st, h, m)"
  shows "callbackFunc st = cb" "length code < 0x1000" "holds m 0x3000 (le_bytes 8 (pdpt OR 3))"
    "holds m 0x4000 (le_bytes 2 0xffff @ le_bytes 8 buf)" "holds m 0x5000 code"
    "\<And>p. 0x3000 \<le> unat (p - PageTableBase) \<Longrightarrow> m p = mem p"
proof -
  let ?g = "le_bytes 2 0xffff @ le_bytes 8 buf"
  have a: "callbackFunc st = cb \<and> length code < 0x1000
    \<and> m = write_bytes 0x5000 code (write_bytes 0x4000 ?g (write_bytes 0x3000 (le_bytes 8 (pdpt OR 3)) mem))"
    using assms
    by (auto simp: StartupCode_new_def Gdt_GetPointer_def PageTableBase_def CodeBase_def Let_def assertE_def
        split: option.splits if_splits)
  then show "callbackFunc st = cb" "length code < 0x1000" by simp_all
  show "holds m 0x3000 (le_bytes 8 (pdpt OR 3))" "holds m 0x4000 ?g" "holds m 0x5000 code"
    using a by (simp_all add: holds_write_after holds_write)
  show "m p = mem p" if p: "0x3000 \<le> unat (p - PageTableBase)" for p
  proof -
    have "n \<le> unat (p - (0x3000 + k))" if "unat k + n \<le> 0x3000" for k n
    proof (rule ccontr)
      assume l: "\<not> n \<le> unat (p - (0x3000 + k))"
      have "unat (p - 0x3000) \<le> unat (p - (0x3000 + k)) + unat k"
        using unat_add_le [of "p - (0x3000 + k)" k] by simp
      with l that p show False by (simp add: PageTableBase_def)
    qed
    from this [of 0 8] this [of "0x1000" 10] this [of "0x2000" "length code"] a show ?thesis
      by (simp add: write_bytes_def)
  qed
qed

lemma start_entry_memory:
  assumes n: "StartupCode_new alloc cb (e_pdpt e) (Gdt_GetPointer (e_gdtBuffer e)) (e_code e) heap mem = Inr (st, h, m)"
    and s1: "\<And>p. 16 \<le> unat (p - 0x4ff0) \<Longrightarrow> sm_mem s1 p = m p" and s2: "start_entry e st pb it s1 = Inr s2"
  shows "(\<forall>p. 16 \<le> unat (p - 0x4ff0) \<longrightarrow> sm_mem s2 p = m p) \<and> (entry_apicId pb (it_address it) \<noteq> None \<longrightarrow> trampoline e cb (sm_mem s2))"
proof (cases "entry_apicId pb (it_address it)")
  case None
  with s1 s2 show ?thesis by (simp add: start_entry_def)
next
  case (Some i)
  let ?m = "ResetStartupStack (e_pml4 e) st (sm_mem s1)"
  have m2: "sm_mem s2 = ?m" using s2 Some by (auto simp: start_entry_def Let_def split: sum.splits prod.splits)
  have o: "?m p = m p" if "16 \<le> unat (p - 0x4ff0)" for p using that s1 by (simp add: ResetStartupStack_other)
  note parts = StartupCode_new_parts [OF n]
  have far: "holds ?m a bs = holds m a bs"
    if "unat a + length bs \<le> 0x4ff0 \<or> 0x5000 \<le> unat a" "unat a + length bs \<le> 2 ^ 32" for a bs
  proof (rule holds_cong)
    fix i assume i: "i < length bs"
    have u: "unat (a + of_nat i) = unat a + i"
      using that i by (intro unat_add_of_nat) simp
    have "16 \<le> unat (a + of_nat i - 0x4ff0)"
      using that i u by (subst unat_sub_if_size) (auto simp: word_size word_le_nat_alt)
    then show "?m (a + of_nat i) = m (a + of_nat i)" by (rule o)
  qed
  have "holds ?m 0x4ff0 (le_bytes 8 (e_pml4 e))" "holds ?m 0x4ff8 (le_bytes 8 cb)"
    using parts(1) by (simp_all add: ResetStartupStack_def CodeBase_def Let_def holds_write_after holds_write)
  with parts m2 o far show ?thesis by (simp add: trampoline_def)
qed


text \<open>A machine whose heap always answers one address, and a table without entries.\<close>

definition ex_env :: "unit smp_env" where
  "ex_env = \<lparr>e_alloc = (\<lambda>h n. Inr (Some 0x100000, h)), e_free = (\<lambda>h p. Inr h), e_sizeofCpu = 0x200, e_sizeofDomain = 0x40,
     e_oldCpu = (\<lambda>_. \<lparr>wakeupFunction = 0, wakeupArg = 0, cpu_lapic = XApic,
       lapicTimer = \<lparr>ticksPerMicro = (1, 0), calibrated = False, isExpecting = False, callbackFunction = 0, callbackArg = 0\<rparr>,
       thisCpu = 0, syscallStack = 0, userData = 0, taskSegment = \<lparr>t_rsp = (\<lambda>_. 0), t_ist = (\<lambda>_. 0)\<rparr>, apicId = 0, stackTop = 0\<rparr>),
     e_localData = 0x20, e_taskSegment = 0x40, e_sleep = (\<lambda>_ a. Inr a), e_microSleep = (\<lambda>_ a. Inr a), e_started = (\<lambda>_ _. True),
     e_code = [0xfa, 0xf4], e_gdtBuffer = 0x8000, e_pdpt = 0x2000, e_pml4 = 0x1000\<rparr>"

definition ex_smp :: "unit smp" where
  "ex_smp = \<lparr>sm_apic = ex_apic, sm_gdt = \<lparr>g_buffer = (\<lambda>_. 0), amountUsed = 0x28\<rparr>, sm_heap = (), sm_mem = (\<lambda>_. 0x5a),
     sm_dom = \<lparr>cpuData = 0x200000, capacity = 2, dom_cpus = []\<rparr>, sm_irt = (\<lambda>_. 0)\<rparr>"


end
