(* ===== verification/BootAlloc.thy ===== *)
theory BootAlloc
  imports StepAllocator
begin

text \<open>
  The step allocator as the source of all pages of the boot, those of 2 MB too: what it hands
  out is aligned and in reach, and no request, not even one that fails, gives up a frame that was taken.
\<close>

section \<open>Requests that fail\<close>

lemma step_loop_None:
  "regions_ok an R \<Longrightarrow> step_request sz align \<Longrightarrow> step_at an R lb align reg a \<Longrightarrow> base \<le> a \<Longrightarrow>
    base \<le> an_GetEnd an reg \<Longrightarrow> step_loop an R sz align reg a = (None, l) \<Longrightarrow>
    base \<le> l \<and> (l mod align = 0 \<or> FindRegion an R l \<noteq> None)"
proof (induction an R sz align reg a rule: step_loop.induct)
  case (1 an R sz align reg a)
  have reg: "reg \<in> set (all_regions R)" using "1.prems"(3) by (simp add: step_at_def)
  note ok = regions_okD [OF "1.prems"(1) reg]
  have an: "analloc_ok an" using "1.prems"(1) by (simp add: regions_ok_def)
  have over: "an_GetEnd an reg < a + sz"
    using "1.prems"(6) by (subst (asm) step_loop.simps) (auto split: if_splits)
  show ?case
  proof (cases "NextRegion an R reg")
    case None
    then have l: "l = a"
      using "1.prems"(6) over by (subst (asm) step_loop.simps) simp
    have "a = an_GetEnd an reg - 1 \<Longrightarrow> an_Contains an reg a"
      using "1.prems"(3) ok(1) less_minus_one [OF ok(1)]
      by (auto simp: step_at_def analloc_okD(3) [OF an] word_less_nat_alt)
    then show ?thesis
      using "1.prems"(3,4) reg unfolding l step_at_def FindRegion_None by blast
  next
    case (Some reg')
    then have r': "reg' \<in> set (all_regions R)" "an_GetStart an reg < an_GetStart an reg'"
      using NextRegion_Some by metis+
    note ok' = regions_okD [OF "1.prems"(1) r'(1)]
    have b: "base \<le> an_GetStart an reg'" "lb \<le> an_GetStart an reg'"
      using ok(3) [OF r'] "1.prems"(3,5) by (auto simp: step_at_def)
    have at: "step_at an R lb align reg' (step_fit an reg' align (an_GetStart an reg'))"
      using ok'(1) b(2) by (intro step_fit_at [OF "1.prems"(1) r'(1) "1.prems"(2)]) auto
    then have "base \<le> step_fit an reg' align (an_GetStart an reg')" "base \<le> an_GetEnd an reg'"
      using b(1) ok'(1) by (auto simp: step_at_def)
    moreover have "step_loop an R sz align reg' (step_fit an reg' align (an_GetStart an reg')) = (None, l)"
      using "1.prems"(6) over Some by (subst (asm) step_loop.simps) simp
    ultimately show ?thesis
      by (rule "1.IH" [OF over Some "1.prems"(1,2) at])
  qed
qed

section \<open>The source of the boot\<close>

text \<open>The last address is the end of a page, or a request has failed and it lies in a region.\<close>

definition boot_inv :: "'r analloc \<Rightarrow> 'r region_list \<Rightarrow> PhysAddr \<Rightarrow> bool" where
  "boot_inv an R a \<longleftrightarrow> regions_ok an R \<and> (a mod 0x1000 = 0 \<or> FindRegion an R a \<noteq> None)"

definition boot_taken :: "PhysAddr \<Rightarrow> PhysAddr set" where
  "boot_taken a = {f. is_frame f \<and> f < a}"

lemma boot_alloc:
  assumes I: "boot_inv an R a" and sz: "sz = 0x1000 \<or> sz = 0x200000"
    and r: "StepAllocator_Alloc an R a sz sz = Inr (x, a')"
  shows "boot_inv an R a' \<and> boot_taken a \<subseteq> boot_taken a' \<and>
    (\<forall>f. x = Some f \<longrightarrow> unat f mod unat sz = 0 \<and> unat f + unat sz \<le> 2 ^ 52)"
proof -
  have R: "regions_ok an R" using I by (simp add: boot_inv_def)
  then have an: "analloc_ok an" by (simp add: regions_ok_def)
  have rq: "step_request sz sz" using sz by (auto simp: step_request_def)
  show ?thesis
  proof (cases x)
    case (Some f)
    from StepAllocator_Alloc_ok [OF R rq r [unfolded Some]] obtain reg where
      f: "a \<le> f" "f mod sz = 0" "a' = f + sz" "reg \<in> set (all_regions R)" "unat f + unat sz \<le> unat (an_GetEnd an reg)" by auto
    then have u: "unat f + unat sz \<le> 2 ^ 52" using regions_okD(2) [OF R f(4)] by simp
    then have ua: "unat a' = unat f + unat sz" unfolding f(3) by (subst unat_add_lem [THEN iffD1]) simp_all
    have m: "unat f mod unat sz = 0" using f(2) by (metis unat_0 unat_mod)
    then have "unat a' mod unat sz = 0" using ua by simp
    then have "unat a' mod 0x1000 = 0" using sz by (auto simp: mod_eq_0_iff_dvd intro: dvd_trans [rotated])
    then have "a' mod 0x1000 = 0" by (simp add: word_unat_eq_iff unat_mod)
    moreover have "a \<le> a'" using f(1) ua by (simp add: word_le_nat_alt)
    ultimately show ?thesis using R m u Some by (auto simp: boot_inv_def boot_taken_def)
  next
    case None
    show ?thesis
    proof (cases "FindRegion an R a = None \<and> FindRegion an R (a - 1) = None")
      case True
      then show ?thesis using r None I by (auto simp: StepAllocator_Alloc_def)
    next
      case False
      then obtain reg where reg: "FindRegion an R a = Some reg \<or> FindRegion an R a = None \<and> FindRegion an R (a - 1) = Some reg"
        and l: "step_loop an R sz sz reg (step_fit an reg sz a) = (None, a')"
        using r None sz by (auto simp: StepAllocator_Alloc_def split: option.splits if_splits)
      define base where "base = (if FindRegion an R a = None then a - 1 else a)"
      have rr: "reg \<in> set (all_regions R)" "an_Contains an reg base"
        using reg FindRegion_Some unfolding base_def by (metis option.distinct(1))+
      note ok = regions_okD [OF R rr(1)]
      have c: "an_GetStart an reg \<le> base" "base < an_GetEnd an reg"
        using rr(2) by (auto simp: analloc_okD(3) [OF an])
      have ba: "base \<le> a" "a \<le> an_GetEnd an reg"
      proof -
        have "a \<noteq> 0" if "base = a - 1"
        proof
          assume "a = 0"
          then have "unat base = 2 ^ 64 - 1" using that by simp
          then show False using c(2) ok(2) by (simp add: word_less_nat_alt)
        qed
        then have "unat base = unat a \<or> unat base = unat a - 1 \<and> 0 < unat a"
          unfolding base_def by (auto simp: unat_minus_one unat_gt_0)
        then show "base \<le> a" "a \<le> an_GetEnd an reg" using c(2) by (auto simp: word_le_nat_alt word_less_nat_alt)
      qed
      have at: "step_at an R a sz reg (step_fit an reg sz a)"
        using c ba by (intro step_fit_at [OF R rr(1) rq]) auto
      have "base \<le> step_fit an reg sz a"
        using step_fit_cases [OF R rr(1) ba(2) rq] less_minus_one [OF c(2)] ba(1) by auto
      from step_loop_None [OF R rq at this _ l] c(2) have L: "base \<le> a'" "a' mod sz = 0 \<or> FindRegion an R a' \<noteq> None"
        by auto
      have "a' mod sz = 0 \<Longrightarrow> a' mod 0x1000 = 0"
        using sz by (auto simp: word_unat_eq_iff unat_mod mod_eq_0_iff_dvd intro: dvd_trans [rotated])
      then have "boot_inv an R a'" using L(2) R unfolding boot_inv_def by blast
      moreover have "f < a'" if f: "is_frame f" "f < a" for f
      proof (cases "base = a")
        case True
        then show ?thesis using f(2) L(1) by simp
      next
        case False
        then have b: "base = a - 1" "a mod 0x1000 = 0" using I by (auto simp: base_def boot_inv_def split: if_splits)
        have "unat a mod 0x1000 = 0" using b(2) by (simp add: word_unat_eq_iff unat_mod)
        then obtain q where q: "unat a = 0x1000 * q" by (auto simp: mod_eq_0_iff_dvd elim: dvdE)
        obtain r where r: "unat f = 0x1000 * r"
          using frame_bounds(1) [OF f(1)] by (auto simp: mod_eq_0_iff_dvd elim: dvdE)
        have "r < q" using f(2) q r by (simp add: word_less_nat_alt)
        then have "unat f + 0x1000 \<le> unat a" using q r by simp
        moreover have "unat base = unat a - 1" using f(2) unfolding b(1) by (intro unat_minus_one) auto
        ultimately show ?thesis using L(1) unfolding word_less_nat_alt word_le_nat_alt by linarith
      qed
      ultimately show ?thesis using None by (auto simp: boot_taken_def)
    qed
  qed
qed

text \<open>
  What the boot relies on besides the pages: blocks of either page size, which keep what was taken,
  and that nothing can be given back.
\<close>

locale boot_source = page_source Alloc invar taken
  for Alloc :: "'a \<Rightarrow> PhysSize \<Rightarrow> PhysSize \<Rightarrow> (PhysAddr option \<times> 'a) res" and invar taken +
  fixes Free :: "'a \<Rightarrow> PhysAddr \<Rightarrow> 'a res"
  assumes block: "invar a \<Longrightarrow> sz = 0x1000 \<or> sz = 0x200000 \<Longrightarrow> \<exists>x a'. Alloc a sz sz = Inr (x, a') \<and> invar a'
        \<and> taken a \<subseteq> taken a' \<and> (\<forall>f. x = Some f \<longrightarrow> unat f mod unat sz = 0 \<and> unat f + unat sz \<le> 2 ^ 52)"
    and no_free: "\<exists>msg. Free a f = Inl (Panic msg)"

interpretation boot: boot_source "StepAllocator_Alloc an R" "boot_inv an R" boot_taken
    "\<lambda>_ _. Inl (Panic ''StepAllocator::Free() - unsupported'')" for an :: "'r analloc" and R
proof
  fix a :: PhysAddr
  have total: "\<exists>x a'. StepAllocator_Alloc an R a sz sz = Inr (x, a')" if "sz = 0x1000 \<or> sz = 0x200000" for sz
    using that by (auto simp: StepAllocator_Alloc_def split: option.splits prod.splits)
  then show "\<exists>r a'. StepAllocator_Alloc an R a 0x1000 0x1000 = Inr (r, a')" by simp
  fix sz :: u64 assume "boot_inv an R a" "sz = 0x1000 \<or> sz = 0x200000"
  then show "\<exists>x a'. StepAllocator_Alloc an R a sz sz = Inr (x, a') \<and> boot_inv an R a'
        \<and> boot_taken a \<subseteq> boot_taken a' \<and> (\<forall>f. x = Some f \<longrightarrow> unat f mod unat sz = 0 \<and> unat f + unat sz \<le> 2 ^ 52)"
    using total boot_alloc by metis
next
  fix a a' :: PhysAddr and r assume "boot_inv an R a" "StepAllocator_Alloc an R a 0x1000 0x1000 = Inr (r, a')"
  then show "boot_inv an R a'" using boot_alloc by blast
next
  fix a f a' :: PhysAddr assume I: "boot_inv an R a" and A: "StepAllocator_Alloc an R a 0x1000 0x1000 = Inr (Some f, a')"
  have "regions_ok an R" using I by (simp add: boot_inv_def)
  from step.page_fresh [OF this A] boot_alloc [OF I _ A]
  show "is_frame f \<and> f \<notin> boot_taken a \<and> insert f (boot_taken a) \<subseteq> boot_taken a'"
    by (auto simp: boot_taken_def)
qed simp

end
