(* ===== verification/Boot.thy ===== *)
theory Boot
  imports UserMap Malloc BuddyAllocator StepAllocator Interrupts
begin

unbundle bit_operations_syntax

text \<open>
  How the kernel's address space comes into being: the boot information
  (\<^verbatim>\<open>src/arch/x64/public/init.cpp\<close>, \<^verbatim>\<open>boot-info.hpp\<close>), the first page tables
  (\<^verbatim>\<open>src/arch/x64/vmm/global/map-setup.cpp\<close>), and the initialisation of GlobalMap,
  GlobalMalloc and CriticalModule. \<^verbatim>\<open>Align\<close> is a function of the ansa library, so an
  argument. Until the new tables are loaded, physical memory is accessed at its own
  addresses.
\<close>

section \<open>Boot information\<close>

record 'r boot_info =
  bi_regions :: "'r region_list"
  bi_kernelEnd :: PhysAddr

text \<open>The argument may be the null pointer; the variable holds None before it is set.\<close>

definition SetBootInfo :: "'r boot_info option \<Rightarrow> 'r boot_info option \<Rightarrow> 'r boot_info option res" where
  "SetBootInfo info bootInfo =
     bindE (assertE (info \<noteq> None) ''info != NULL'') (\<lambda>_.
     bindE (assertE (bootInfo = None) ''!bootInfo'') (\<lambda>_. Inr info))"

definition GetBootInfo :: "'r boot_info option \<Rightarrow> 'r boot_info res" where
  "GetBootInfo bootInfo = (case bootInfo of None \<Rightarrow> Inl NullDeref | Some i \<Rightarrow> Inr i)"

section \<open>The first page tables\<close>

record map_setup =
  ms_kernelEnd :: PhysAddr
  ms_reservedEnd :: PhysAddr
  ms_last :: PhysAddr
  ms_pdpt :: PhysAddr
  ms_pml4 :: PhysAddr
  pdtOffset :: int
  pdptOffset :: int
  currentPDT :: PhysAddr
  firstUnmapped :: VirtAddr
  ms_mem :: pmemory

text \<open>
  The constructor, on the sizes of the three objects that are placed behind the kernel.
  \<^verbatim>\<open>pdpt\<close> and \<^verbatim>\<open>pml4\<close> have no initial value: they keep what \<^verbatim>\<open>junk\<close> says.
\<close>

definition MapSetup_new :: "(u64 \<Rightarrow> u64 \<Rightarrow> u64) \<Rightarrow> u64 \<Rightarrow> u64 \<Rightarrow> u64 \<Rightarrow> 'r boot_info \<Rightarrow> PhysAddr \<Rightarrow> pmemory \<Rightarrow> map_setup" where
  "MapSetup_new ansaAlign sizeofBuddy sizeofTable sizeofFinder info junk m =
     (let kernelEnd = ansaAlign (bi_kernelEnd info) 0x1000;
          reservedEnd = kernelEnd + ansaAlign (sizeofBuddy + sizeofTable + sizeofFinder) 0x1000
      in \<lparr>ms_kernelEnd = kernelEnd, ms_reservedEnd = reservedEnd, ms_last = reservedEnd, ms_pdpt = junk, ms_pml4 = junk,
          pdtOffset = 0, pdptOffset = 0, currentPDT = 0, firstUnmapped = 0, ms_mem = m\<rparr>)"

text \<open>An allocation of a page for a table, and the panic when there is none.\<close>

definition ms_AllocPage :: "'r analloc \<Rightarrow> 'r region_list \<Rightarrow> string \<Rightarrow> map_setup \<Rightarrow> (PhysAddr \<times> map_setup) res" where
  "ms_AllocPage an R msg ms =
     bindE (StepAllocator_Alloc an R (ms_last ms) 0x1000 0x1000) (\<lambda>(r, l). case r of
         None \<Rightarrow> Inl (Panic msg)
       | Some p \<Rightarrow> Inr (p, ms\<lparr>ms_last := l\<rparr>))"

definition ms_store :: "PhysAddr \<Rightarrow> int \<Rightarrow> u64 \<Rightarrow> map_setup \<Rightarrow> map_setup" where
  "ms_store t i v ms = ms\<lparr>ms_mem := (ms_mem ms)(t + 8 * of_int i := v)\<rparr>"

definition ms_zero :: "PhysAddr \<Rightarrow> map_setup \<Rightarrow> map_setup" where
  "ms_zero p ms = ms\<lparr>ms_mem := zero_page (ms_mem ms) p\<rparr>"

definition next_pdt :: "'r analloc \<Rightarrow> 'r region_list \<Rightarrow> map_setup \<Rightarrow> map_setup res" where
  "next_pdt an R ms =
     (if pdtOffset ms = 0x200 then
        bindE (ms_AllocPage an R ''MapSetup::MapNext() - failed to allocate PDT'' (ms\<lparr>pdtOffset := 0\<rparr>)) (\<lambda>(p, ms).
          let ms = ms_zero p (ms\<lparr>currentPDT := p, pdptOffset := pdptOffset ms + 1\<rparr>)
          in Inr (ms_store (ms_pdpt ms) (pdptOffset ms) (p OR 3) ms))
      else Inr ms)"

definition MapNext :: "'r analloc \<Rightarrow> 'r region_list \<Rightarrow> u64 \<Rightarrow> map_setup \<Rightarrow> (u64 \<times> map_setup) res" where
  "MapNext an R linearSize ms =
     bindE (next_pdt an R ms) (\<lambda>ms.
       let ms = ms_store (currentPDT ms) (pdtOffset ms) (firstUnmapped ms OR 0x183) ms;
           ms = ms\<lparr>pdtOffset := pdtOffset ms + 1, firstUnmapped := firstUnmapped ms + 0x200000\<rparr>
       in Inr (if linearSize \<le> 0x200000 then 0 else linearSize - 0x200000, ms))"

lemma MapNext_size:
  "MapNext an R l ms = Inr (l', ms') \<Longrightarrow> l' = (if l \<le> 0x200000 then 0 else l - 0x200000)"
  by (auto simp: MapNext_def Let_def)

lemma next_size_less: "l \<noteq> 0 \<Longrightarrow> unat (if l \<le> 0x200000 then 0 else l - 0x200000) < unat l" for l :: u64
  by (auto simp: unat_sub not_le word_less_nat_alt word_le_nat_alt unat_gt_0)

function map_loop :: "'r analloc \<Rightarrow> 'r region_list \<Rightarrow> u64 \<Rightarrow> map_setup \<Rightarrow> map_setup res" where
  "map_loop an R linearSize ms =
     (if linearSize = 0 then Inr ms
      else bindE (MapNext an R linearSize ms) (\<lambda>(l, ms). map_loop an R l ms))"
  by pat_completeness auto
termination
  by (relation "measure (\<lambda>(an, R, l, ms). unat l)") (auto dest!: MapNext_size simp: next_size_less)

declare map_loop.simps [simp del]

definition GenerateMap :: "'r analloc \<Rightarrow> 'r region_list \<Rightarrow> map_setup \<Rightarrow> map_setup res" where
  "GenerateMap an R ms =
     bindE (ms_AllocPage an R ''MapSetup::Run() - failed to allocate PML4'' ms) (\<lambda>(p4, ms).
     bindE (ms_AllocPage an R ''MapSetup::Run() - failed to allocate PDPT'' (ms\<lparr>ms_pml4 := p4\<rparr>)) (\<lambda>(p3, ms).
       let ms = ms_zero p3 (ms_zero p4 (ms\<lparr>ms_pdpt := p3\<rparr>));
           ms = ms_store p4 0x1ff (p4 OR 3) (ms_store p4 0 (p3 OR 3) ms);
           ms = ms\<lparr>pdtOffset := 0x200, pdptOffset := -1\<rparr>
       in map_loop an R (ms_reservedEnd ms) ms))"

section \<open>The objects of the kernel's map\<close>

definition GeneratePageTable :: "'r analloc \<Rightarrow> 'r region_list \<Rightarrow> map_setup \<Rightarrow> PhysAddr page_table" where
  "GeneratePageTable an R ms = \<lparr>allocator = StepAllocator_ops an R, pml4 = ms_pml4 ms\<rparr>"

definition MapSetup_GetPageTable :: "map_setup \<Rightarrow> VirtAddr" where
  "MapSetup_GetPageTable ms = ms_kernelEnd ms"

definition MapSetup_GetFreeFinder :: "u64 \<Rightarrow> map_setup \<Rightarrow> VirtAddr" where
  "MapSetup_GetFreeFinder sizeofTable ms = ms_kernelEnd ms + sizeofTable"

definition MapSetup_GetBuddyAllocator :: "u64 \<Rightarrow> u64 \<Rightarrow> map_setup \<Rightarrow> VirtAddr" where
  "MapSetup_GetBuddyAllocator sizeofTable sizeofFinder ms = ms_kernelEnd ms + sizeofTable + sizeofFinder"

definition MapSetup_GetPdpt :: "map_setup \<Rightarrow> PhysAddr" where
  "MapSetup_GetPdpt ms = ms_pdpt ms"

text \<open>
  The step allocator maps the memory of the clusters through the new map, whose machine
  carries its state; then the buddy allocator takes over as the allocator of the table.
\<close>

definition GenerateBuddyAllocator ::
    "crit \<Rightarrow> 'c cluster_ops \<Rightarrow> ('r list \<Rightarrow> u64) \<Rightarrow> ('r list \<Rightarrow> VirtAddr \<Rightarrow> 'c) \<Rightarrow> ('r \<Rightarrow> u64) \<Rightarrow> 'c \<Rightarrow> 'r region_list
     \<Rightarrow> PhysAddr gmap \<Rightarrow> ('c buddy gmap) res" where
  "GenerateBuddyAllocator c cl requiredSpace createAllocators getSize emptyCluster R g =
     bindE (BuddyAllocator_new requiredSpace createAllocators (\<lambda>g n. AllocAndMap c g n True) getSize emptyCluster R g)
       (\<lambda>(b, g).
         let b = Buddy_Reserve cl b (GetLastAddress (alst (mach g)))
         in Inr \<lparr>pageTable = \<lparr>allocator = BuddyAllocator_ops c cl, pml4 = pml4 (pageTable g)\<rparr>,
                 freeFinder = freeFinder g, gm_pdpt = gm_pdpt g,
                 mach = \<lparr>pmem = pmem (mach g), cr3 = cr3 (mach g), alst = b, invlpgs = invlpgs (mach g)\<rparr>,
                 tlbInitialized = tlbInitialized g, currentMap = currentMap g\<rparr>)"

text \<open>\<^verbatim>\<open>bootCr3\<close> is the root of the boot loader's tables.\<close>

definition first_map :: "'r analloc \<Rightarrow> 'r region_list \<Rightarrow> u64 \<Rightarrow> map_setup \<Rightarrow> PhysAddr gmap" where
  "first_map an R bootCr3 ms =
     \<lparr>pageTable = GeneratePageTable an R ms, freeFinder = FreeFinder_new, gm_pdpt = 0,
      mach = \<lparr>pmem = ms_mem ms, cr3 = bootCr3, alst = ms_last ms, invlpgs = []\<rparr>,
      tlbInitialized = False, currentMap = None\<rparr>"

definition GlobalMap_Initialize ::
    "crit \<Rightarrow> 'r analloc \<Rightarrow> 'c cluster_ops \<Rightarrow> ('r list \<Rightarrow> u64) \<Rightarrow> ('r list \<Rightarrow> VirtAddr \<Rightarrow> 'c) \<Rightarrow> ('r \<Rightarrow> u64) \<Rightarrow> 'c
     \<Rightarrow> 'r region_list \<Rightarrow> u64 \<Rightarrow> map_setup \<Rightarrow> ('c buddy gmap) res" where
  "GlobalMap_Initialize c an cl requiredSpace createAllocators getSize emptyCluster R bootCr3 setup =
     bindE (GenerateMap an R setup) (\<lambda>setup.
     bindE (GlobalMap_Set (snd (ScopedCritical_new c)) (first_map an R bootCr3 setup)) (\<lambda>g.
     bindE (GenerateBuddyAllocator c cl requiredSpace createAllocators getSize emptyCluster R g) (\<lambda>g.
       Inr (g\<lparr>gm_pdpt := MapSetup_GetPdpt setup\<rparr>))))"

definition GlobalMalloc_Initialize :: "'m malloc" where
  "GlobalMalloc_Initialize = Malloc_new 0x200000 True"

text \<open>
  Between \<^verbatim>\<open>sti\<close> and \<^verbatim>\<open>cli\<close> the pending interrupts of the PIC are acknowledged; then the
  final handlers are configured and interrupts stay on.
\<close>

definition CriticalModule_Initialize :: "u64 \<Rightarrow> u64 \<Rightarrow> u64 \<Rightarrow> u64 \<Rightarrow> idt \<times> crit \<Rightarrow> idt \<times> crit" where
  "CriticalModule_Initialize ha picEoi coded plain st =
     (let (t, c) = st; t = Irt_ConfigurePicEoi ha picEoi t;
          c = c\<lparr>rflags := unset_bit 9 (set_bit 9 (rflags c))\<rparr>; t = Irt_Configure ha coded plain t
      in (t, c\<lparr>rflags := set_bit 9 (rflags c)\<rparr>))"

section \<open>The identity map\<close>

end
