(* ===== verification/BootProofs.thy ===== *)
theory BootProofs
  imports Boot GlobalMapProofs
begin

unbundle bit_operations_syntax

text \<open>
  The tables that MapSetup::GenerateMap builds (theory Boot): the identity map of the
  reserved memory, and the invariants that every operation of the kernel's map needs.
\<close>

section \<open>The shape of the tables\<close>

text \<open>One PDPT under slot 0, \<^verbatim>\<open>k\<close> page directories \<^verbatim>\<open>pd\<close> in it, and \<^verbatim>\<open>n\<close> pages of 2 MB in them.\<close>

definition id_tables :: "pmemory \<Rightarrow> u64 \<Rightarrow> u64 \<Rightarrow> (nat \<Rightarrow> u64) \<Rightarrow> nat \<Rightarrow> nat \<Rightarrow> bool" where
  "id_tables m p4 p3 pd k n \<longleftrightarrow>
     is_frame p4 \<and> is_frame p3 \<and> p4 \<noteq> p3 \<and> (\<forall>j < k. is_frame (pd j) \<and> pd j \<noteq> p4 \<and> pd j \<noteq> p3) \<and> inj_on pd {..<k}
     \<and> (\<forall>i < 512. m (entry_at p4 (of_nat i)) = (if i = 0 then p3 OR 3 else if i = 0x1ff then p4 OR 3 else 0))
     \<and> (\<forall>j < 512. m (entry_at p3 (of_nat j)) = (if j < k then pd j OR 3 else 0))
     \<and> (\<forall>j < k. \<forall>i < 512. m (entry_at (pd j) (of_nat i)) =
          (if 512 * j + i < n then of_nat (512 * j + i) * 0x200000 OR 0x183 else 0))"

lemma of_nat_index: "i < 512 \<Longrightarrow> (of_nat i :: u64) < 512"
  by (simp add: word_less_nat_alt unat_of_nat)

lemma unat_of_nat_index [simp]: "i < 512 \<Longrightarrow> unat (of_nat i :: u64) = i"
  by (simp add: unat_of_nat)

lemma of_nat_index_eq: "i < 512 \<Longrightarrow> j < 512 \<Longrightarrow> (of_nat i = (of_nat j :: u64)) = (i = j)"
  by (metis unat_of_nat_index)

lemma entry_at_eq:
  assumes "is_frame t" "is_frame u" "i < 512" "j < 512"
  shows "entry_at t (of_nat i) = entry_at u (of_nat j) \<longleftrightarrow> t = u \<and> i = j"
  using entry_at_inj [OF assms(1,2) of_nat_index [OF assms(3)] of_nat_index [OF assms(4)]] of_nat_index_eq [OF assms(3,4)]
  by auto

lemma zero_entry: "is_frame t \<Longrightarrow> i < 512 \<Longrightarrow> zero_page m p (entry_at t (of_nat i)) = (if t = p then 0 else m (entry_at t (of_nat i)))"
  by (simp add: zero_page_def page_base_entry_at of_nat_index)

lemma id_tables_open:
  assumes T: "id_tables m p4 p3 pd k n" and k: "n = 512 * k" "k < 512"
    and p: "is_frame p" "p \<noteq> p4" "p \<noteq> p3" "\<And>j. j < k \<Longrightarrow> p \<noteq> pd j"
  shows "id_tables ((zero_page m p)(entry_at p3 (of_nat k) := p OR 3)) p4 p3 (pd(k := p)) (Suc k) n"
proof -
  have f: "is_frame p4" "is_frame p3" "p4 \<noteq> p3" "\<And>j. j < k \<Longrightarrow> is_frame (pd j) \<and> pd j \<noteq> p4 \<and> pd j \<noteq> p3"
    using T by (auto simp: id_tables_def)
  have i: "inj_on (pd(k := p)) {..<Suc k}"
    using T p(4) by (fastforce simp: id_tables_def inj_on_def less_Suc_eq)
  show ?thesis
    using T k p f i unfolding id_tables_def
    by (auto simp: entry_at_eq zero_entry less_Suc_eq)
qed

lemma id_tables_map:
  assumes T: "id_tables m p4 p3 pd k n" and n: "512 * q \<le> n" "n < 512 * k" "k = Suc q"
  shows "id_tables (m(entry_at (pd q) (of_nat (n - 512 * q)) := of_nat n * 0x200000 OR 0x183)) p4 p3 pd k (Suc n)"
proof -
  have f: "is_frame p4" "is_frame p3" "p4 \<noteq> p3" "\<And>j. j < k \<Longrightarrow> is_frame (pd j) \<and> pd j \<noteq> p4 \<and> pd j \<noteq> p3"
    "\<And>j. j < k \<Longrightarrow> (pd j = pd q) = (j = q)"
    using T n(3) by (auto simp: id_tables_def inj_on_def)
  have i: "n - 512 * q < 512" using n by simp
  have e: "(\<forall>j < k. \<forall>i < 512. (m(entry_at (pd q) (of_nat (n - 512 * q)) := of_nat n * 0x200000 OR 0x183)) (entry_at (pd j) (of_nat i)) =
          (if 512 * j + i < Suc n then of_nat (512 * j + i) * 0x200000 OR 0x183 else 0))"
  proof (intro allI impI)
    fix j l :: nat assume j: "j < k" "l < 512"
    have o: "m (entry_at (pd j) (of_nat l)) = (if 512 * j + l < n then of_nat (512 * j + l) * 0x200000 OR 0x183 else 0)"
      using T j by (simp add: id_tables_def)
    have q: "entry_at (pd j) (of_nat l) = entry_at (pd q) (of_nat (n - 512 * q)) \<longleftrightarrow> 512 * j + l = n"
      using f(4) [OF j(1)] f(4) [of q] f(5) [OF j(1)] n j i by (subst entry_at_eq) auto
    show "(m(entry_at (pd q) (of_nat (n - 512 * q)) := of_nat n * 0x200000 OR 0x183)) (entry_at (pd j) (of_nat l)) =
        (if 512 * j + l < Suc n then of_nat (512 * j + l) * 0x200000 OR 0x183 else 0)"
      using o q by (auto simp: less_Suc_eq)
  qed
  let ?m = "m(entry_at (pd q) (of_nat (n - 512 * q)) := of_nat n * 0x200000 OR 0x183)"
  have q: "q < k" using n by simp
  have o: "?m (entry_at t (of_nat l)) = m (entry_at t (of_nat l))" if "l < 512" "t = p4 \<or> t = p3" for t l
    using that f(1,2) f(4) [OF q] i by (auto simp: entry_at_eq)
  have "\<forall>i < 512. ?m (entry_at p4 (of_nat i)) = (if i = 0 then p3 OR 3 else if i = 0x1ff then p4 OR 3 else 0)"
    using T o [of _ p4] by (simp add: id_tables_def del: fun_upd_apply)
  moreover have "\<forall>j < 512. ?m (entry_at p3 (of_nat j)) = (if j < k then pd j OR 3 else 0)"
    using T o [of _ p3] by (simp add: id_tables_def del: fun_upd_apply)
  ultimately show ?thesis using T e unfolding id_tables_def by blast
qed

section \<open>The loop\<close>

definition map_inv :: "'r analloc \<Rightarrow> 'r region_list \<Rightarrow> u64 \<Rightarrow> u64 \<Rightarrow> map_setup \<Rightarrow> nat \<Rightarrow> bool" where
  "map_inv an R p4 p3 ms n \<longleftrightarrow> regions_ok an R \<and> ms_pml4 ms = p4 \<and> ms_pdpt ms = p3 \<and> p4 < ms_last ms \<and> p3 < ms_last ms
     \<and> firstUnmapped ms = of_nat n * 0x200000 \<and> ms_last ms mod 0x1000 = 0
     \<and> (\<exists>pd k. id_tables (ms_mem ms) p4 p3 pd k n \<and> (\<forall>j < k. pd j < ms_last ms)
          \<and> pdptOffset ms = int k - 1 \<and> pdtOffset ms = int n - 512 * (int k - 1)
          \<and> (k = 0 \<or> currentPDT ms = pd (k - 1)) \<and> n \<le> 512 * k \<and> 512 * k \<le> n + 512 \<and> k \<le> 512)"

lemma step_page:
  assumes R: "regions_ok an R" and a: "StepAllocator_Alloc an R a 0x1000 0x1000 = Inr (Some p, l)"
  shows "is_frame p" "a \<le> p" "p < l" "l mod 0x1000 = 0"
proof -
  show p: "is_frame p" "a \<le> p" "p < l" using step.page_fresh [OF R a] by auto
  have "l = p + 0x1000" using StepAllocator_Alloc_ok [OF R step_request_page a] by simp
  then have "unat l = unat p + 0x1000"
    using frame_bounds(2) [OF p(1)] by (simp, subst unat_add_lem [THEN iffD1]) simp_all
  then have "unat l mod 0x1000 = 0" using frame_bounds(1) [OF p(1)] by simp
  then show "l mod 0x1000 = 0" by (simp add: word_unat_eq_iff unat_mod)
qed

lemma next_pdt_inv:
  assumes I: "map_inv an R p4 p3 ms n" and n: "n < 512 * 512" and r: "next_pdt an R ms = Inr ms'"
  shows "map_inv an R p4 p3 ms' n \<and> pdtOffset ms' < 0x200 \<and> ms_reservedEnd ms' = ms_reservedEnd ms \<and> ms_last ms \<le> ms_last ms'"
proof (cases "pdtOffset ms = 0x200")
  case False
  then show ?thesis using I r by (auto simp: next_pdt_def map_inv_def)
next
  case True
  obtain pd k where T: "id_tables (ms_mem ms) p4 p3 pd k n" "\<forall>j < k. pd j < ms_last ms"
      "pdptOffset ms = int k - 1" "pdtOffset ms = int n - 512 * (int k - 1)" "n \<le> 512 * k"
    and b: "regions_ok an R" "ms_pml4 ms = p4" "ms_pdpt ms = p3" "p4 < ms_last ms" "p3 < ms_last ms"
      "firstUnmapped ms = of_nat n * 0x200000"
    using I by (auto simp: map_inv_def)
  have k: "n = 512 * k" "k < 512" using True T(4) n by auto
  obtain p l where a: "StepAllocator_Alloc an R (ms_last ms) 0x1000 0x1000 = Inr (Some p, l)"
    and ms': "ms' = ms_store (ms_pdpt ms) (pdptOffset ms + 1) (p OR 3)
        (ms_zero p (ms\<lparr>pdtOffset := 0, ms_last := l, currentPDT := p, pdptOffset := pdptOffset ms + 1\<rparr>))"
    using r True by (auto simp: next_pdt_def ms_AllocPage_def Let_def ms_store_def ms_zero_def split: option.splits)
  note P = step_page [OF b(1) a]
  have l: "ms_last ms \<le> l" using P by simp
  have ne: "p \<noteq> x" if "x < ms_last ms" for x using P(2) that by auto
  have s: "pdptOffset ms + 1 = int k" using T(3) by simp
  have "id_tables ((zero_page (ms_mem ms) p)(entry_at p3 (of_nat k) := p OR 3)) p4 p3 (pd(k := p)) (Suc k) n"
    using T(2) by (intro id_tables_open [OF T(1) k P(1)] ne b(4,5)) auto
  moreover have "ms_mem ms' = (zero_page (ms_mem ms) p)(entry_at p3 (of_nat k) := p OR 3)"
    unfolding ms' s by (simp add: ms_store_def ms_zero_def b(3) entry_at_def)
  moreover have "\<forall>j < Suc k. (pd(k := p)) j < l"
    using T(2) P(3) l by (auto simp: less_Suc_eq)
  ultimately show ?thesis
    using b k l True P(4) unfolding map_inv_def
    by (auto simp: ms' ms_store_def ms_zero_def s intro!: exI [of _ "pd(k := p)"] exI [of _ "Suc k"])
qed


lemma MapNext_inv:
  assumes I: "map_inv an R p4 p3 ms n" and n: "n < 512 * 512" and r: "MapNext an R sz ms = Inr (sz', ms')"
  shows "map_inv an R p4 p3 ms' (Suc n) \<and> ms_reservedEnd ms' = ms_reservedEnd ms \<and> ms_last ms \<le> ms_last ms'
    \<and> 0 < pdtOffset ms'"
proof -
  obtain m1 where m1: "next_pdt an R ms = Inr m1" using r by (auto simp: MapNext_def)
  note N = next_pdt_inv [OF I n m1]
  obtain pd k where T: "id_tables (ms_mem m1) p4 p3 pd k n" "\<forall>j < k. pd j < ms_last m1"
      "pdptOffset m1 = int k - 1" "pdtOffset m1 = int n - 512 * (int k - 1)" "n \<le> 512 * k" "512 * k \<le> n + 512"
      "k = 0 \<or> currentPDT m1 = pd (k - 1)" "k \<le> 512"
    and b: "regions_ok an R" "ms_pml4 m1 = p4" "ms_pdpt m1 = p3" "p4 < ms_last m1" "p3 < ms_last m1"
      "firstUnmapped m1 = of_nat n * 0x200000" "ms_last m1 mod 0x1000 = 0"
    using N by (auto simp: map_inv_def)
  from N T(4,5) obtain q where k: "k = Suc q" by (cases k) auto
  have q: "512 * q \<le> n" "n < 512 * k" "currentPDT m1 = pd q" "of_int (pdtOffset m1) = (of_nat (n - 512 * q) :: u64)"
    using N T(4,6,7) k by (auto simp: of_nat_diff)
  have ms': "ms' = ms_store (pd q) (pdtOffset m1) (of_nat n * 0x200000 OR 0x183) m1
      \<lparr>pdtOffset := pdtOffset m1 + 1, firstUnmapped := of_nat n * 0x200000 + 0x200000\<rparr>"
    using r m1 b(6) q(3) by (auto simp: MapNext_def Let_def ms_store_def)
  have "ms_mem ms' = (ms_mem m1)(entry_at (pd q) (of_nat (n - 512 * q)) := of_nat n * 0x200000 OR 0x183)"
    unfolding ms' by (simp add: ms_store_def entry_at_def q(4))
  with id_tables_map [OF T(1) q(1,2) k] have id: "id_tables (ms_mem ms') p4 p3 pd k (Suc n)" by simp
  have F: "ms_pml4 ms' = ms_pml4 m1" "ms_pdpt ms' = ms_pdpt m1" "ms_last ms' = ms_last m1" "ms_reservedEnd ms' = ms_reservedEnd m1"
    "pdptOffset ms' = pdptOffset m1" "pdtOffset ms' = pdtOffset m1 + 1" "currentPDT ms' = currentPDT m1"
    "firstUnmapped ms' = of_nat (Suc n) * 0x200000"
    by (simp_all add: ms' ms_store_def algebra_simps)
  have "map_inv an R p4 p3 ms' (Suc n)"
    unfolding map_inv_def F by (intro conjI exI [of _ pd] exI [of _ k]) (use id b T(2-8) q k in simp_all)
  moreover have "0 < pdtOffset ms'" using F(6) T(4,6) by simp
  ultimately show ?thesis using N F by simp
qed

text \<open>The number of pages that the loop still maps.\<close>

definition pages_2m :: "u64 \<Rightarrow> nat" where
  "pages_2m l = (unat l + 0x1fffff) div 0x200000"

lemma pages_2m_next: "l \<noteq> 0 \<Longrightarrow> pages_2m l = Suc (pages_2m (if l \<le> 0x200000 then 0 else l - 0x200000))"
proof -
  assume "l \<noteq> 0"
  then have p: "0 < unat l" by (simp add: unat_gt_0)
  show ?thesis
  proof (cases "l \<le> 0x200000")
    case True
    then have "unat l \<le> 0x200000" by (simp add: word_le_nat_alt)
    with p True show ?thesis by (simp add: pages_2m_def div_nat_eqI)
  next
    case False
    then have "0x200000 < unat l" by (simp add: word_le_nat_alt)
    moreover have "unat (l - 0x200000) = unat l - 0x200000" using False by (simp add: unat_sub)
    ultimately show ?thesis using False by (simp add: pages_2m_def)
  qed
qed

lemma map_loop_inv:
  "map_loop an R l ms = Inr ms' \<Longrightarrow> map_inv an R p4 p3 ms n \<Longrightarrow> n + pages_2m l \<le> 512 * 512 \<Longrightarrow>
    map_inv an R p4 p3 ms' (n + pages_2m l) \<and> ms_reservedEnd ms' = ms_reservedEnd ms \<and> ms_last ms \<le> ms_last ms'
    \<and> (l \<noteq> 0 \<or> 0 < pdtOffset ms \<longrightarrow> 0 < pdtOffset ms')"
proof (induction an R l ms arbitrary: n rule: map_loop.induct)
  case (1 an R l ms)
  show ?case
  proof (cases "l = 0")
    case True
    then show ?thesis using "1.prems" by (simp add: map_loop.simps pages_2m_def)
  next
    case False
    then obtain l1 m1 where m1: "MapNext an R l ms = Inr (l1, m1)" and rest: "map_loop an R l1 m1 = Inr ms'"
      using "1.prems"(1) by (subst (asm) map_loop.simps) auto
    have p: "pages_2m l = Suc (pages_2m l1)" using pages_2m_next [OF False] MapNext_size [OF m1] by simp
    then have n: "n < 512 * 512" using "1.prems"(3) by simp
    note M = MapNext_inv [OF "1.prems"(2) n m1]
    from "1.IH" [OF False m1 refl rest, of "Suc n"] M p "1.prems"(3) show ?thesis by auto
  qed
qed

text \<open>The loop itself fails only when no page directory can be allocated.\<close>

lemma StepAllocator_page_total: "\<exists>r l. StepAllocator_Alloc an R a 0x1000 0x1000 = Inr (r, l)"
  by (auto simp: StepAllocator_Alloc_def split: option.splits prod.splits)

lemma ms_AllocPage_fails: "ms_AllocPage an R msg ms = Inl e \<Longrightarrow> e = Panic msg"
  using StepAllocator_page_total [of an R "ms_last ms"]
  by (auto simp: ms_AllocPage_def split: option.splits)

lemma map_loop_fails:
  "map_loop an R l ms = Inl e \<Longrightarrow> e = Panic ''MapSetup::MapNext() - failed to allocate PDT''"
proof (induction an R l ms rule: map_loop.induct)
  case (1 an R l ms)
  show ?case
  proof (cases "MapNext an R l ms")
    case (Inl e')
    then have "e' = Panic ''MapSetup::MapNext() - failed to allocate PDT''"
      by (auto simp: MapNext_def next_pdt_def Let_def bindE_def split: sum.splits if_splits dest: ms_AllocPage_fails)
    with Inl "1.prems" show ?thesis by (subst (asm) map_loop.simps) (simp split: if_splits)
  next
    case (Inr x)
    then obtain l1 m1 where x: "MapNext an R l ms = Inr (l1, m1)" by (cases x) simp
    with "1.prems" have "l \<noteq> 0" "map_loop an R l1 m1 = Inl e"
      by (subst (asm) map_loop.simps, simp split: if_splits)+
    with "1.IH" [OF _ x refl] show ?thesis by simp
  qed
qed

section \<open>What the tables translate\<close>

lemma link_flags_3: "flags_only 3" "present 3"
  by (simp_all add: flags_only_def pframe_def huge_def present_def)

lemma id_tables_tab:
  assumes T: "id_tables m p4 p3 pd k n" and i: "i < 512" and j: "j < 512"
  shows "tab m p4 [of_nat i] = (if i = 0 then Some p3 else if i = 0x1ff then Some p4 else None)"
    and "tab m p4 [0, of_nat j] = (if j < k then Some (pd j) else None)"
proof -
  have f: "is_frame p4" "is_frame p3" "\<And>j. j < k \<Longrightarrow> is_frame (pd j)"
    and e: "\<And>i. i < 512 \<Longrightarrow> m (entry_at p4 (of_nat i)) = (if i = 0 then p3 OR 3 else if i = 0x1ff then p4 OR 3 else 0)"
    and e3: "\<And>j. j < 512 \<Longrightarrow> m (entry_at p3 (of_nat j)) = (if j < k then pd j OR 3 else 0)"
    using T by (auto simp: id_tables_def)
  note L = link_entry [OF _ link_flags_3]
  have z: "\<not> present 0" by (simp add: present_def)
  show a: "tab m p4 [of_nat i] = (if i = 0 then Some p3 else if i = 0x1ff then Some p4 else None)"
    using e [OF i] L [OF f(1)] L [OF f(2)] z by (simp add: Let_def)
  have "m (entry_at p4 0) = p3 OR 3" using e [of 0] by simp
  then show "tab m p4 [0, of_nat j] = (if j < k then Some (pd j) else None)"
    using e3 [OF j] L [OF f(2)] L [OF f(3)] z by (simp add: Let_def)
qed


lemma index_cases: "i < 512 \<Longrightarrow> \<exists>l < 512. i = of_nat l" for i :: u64
  by (intro exI [of _ "unat i"]) (simp add: word_less_nat_alt)

lemma big_entry:
  assumes "n < 2 ^ 18"
  shows "present (of_nat n * 0x200000 OR 0x183)" "huge (of_nat n * 0x200000 OR 0x183)"
  by (simp_all add: present_or huge_or) (simp_all add: present_def huge_def)

text \<open>The only tables below the root, off the fractal slot, are the PDPT and its directories.\<close>

lemma id_tables_paths:
  assumes T: "id_tables m p4 p3 pd k n" and k: "k \<le> 512" "n \<le> 512 * 512" and p: "user_path p" "tab m p4 p = Some t"
  shows "p = [] \<and> t = p4 \<or> p = [0] \<and> t = p3 \<or> (\<exists>j < k. p = [0, of_nat j] \<and> t = pd j)"
proof -
  have len: "length p \<le> 3" and ix: "\<forall>i \<in> set p. i < 512" and hd: "p \<noteq> [] \<Longrightarrow> hd p \<noteq> 0x1ff"
    using p(1) by (simp_all add: user_path_def)
  note tabs = id_tables_tab [OF T]
  show ?thesis
  proof (cases p)
    case Nil
    then show ?thesis using p(2) by simp
  next
    case (Cons a q)
    then obtain i where i: "i < 512" "a = of_nat i" using ix index_cases by auto
    obtain u where u: "tab m p4 [a] = Some u" "tab m u q = Some t"
      using p(2) tab_append [of m p4 "[a]" q] Cons by (auto split: option.splits)
    have "i \<noteq> 0x1ff" using hd Cons i by auto
    then have a: "a = 0" "u = p3" using u(1) tabs(1) [OF i(1) i(1)] i(2) by (auto split: if_splits)
    show ?thesis
    proof (cases q)
      case Nil
      then show ?thesis using a u(2) Cons by simp
    next
      case (Cons b r)
      then obtain j where j: "j < 512" "b = of_nat j" using ix index_cases \<open>p = a # q\<close> by auto
      obtain v where v: "tab m p4 [0, b] = Some v" "tab m v r = Some t"
        using p(2) tab_append [of m p4 "[a, b]" r] Cons \<open>p = a # q\<close> a by (auto split: option.splits)
      then have v': "j < k" "v = pd j" using tabs(2) [OF j(1) j(1)] j(2) by (auto split: if_splits)
      show ?thesis
      proof (cases r)
        case Nil
        then show ?thesis using v v' a j(2) Cons \<open>p = a # q\<close> by auto
      next
        case (Cons c s)
        then obtain l where l: "l < 512" "c = of_nat l" using ix index_cases \<open>p = a # q\<close> \<open>q = b # r\<close> by auto
        have "m (entry_at (pd j) c) = (if 512 * j + l < n then of_nat (512 * j + l) * 0x200000 OR 0x183 else 0)"
          using T v'(1) l by (simp add: id_tables_def)
        moreover have "\<not> present 0" by (simp add: present_def)
        ultimately have "\<not> (present (m (entry_at (pd j) c)) \<and> \<not> huge (m (entry_at (pd j) c)))"
          using big_entry [of "512 * j + l"] k(2) by auto
        then show ?thesis using v(2) Cons v'(2) by (simp add: Let_def split: if_splits)
      qed
    qed
  qed
qed

lemma id_tables_fractal: "id_tables m p4 p3 pd k n \<Longrightarrow> fractal m p4"
proof -
  assume T: "id_tables m p4 p3 pd k n"
  have f: "is_frame p4" using T by (simp add: id_tables_def)
  have "\<forall>i < 512. m (entry_at p4 (of_nat i)) = (if i = 0 then p3 OR 3 else if i = 0x1ff then p4 OR 3 else 0)"
    using T unfolding id_tables_def by blast
  then have "m (entry_at p4 (of_nat 0x1ff)) = p4 OR 3" by (elim allE [of _ "0x1ff"]) simp
  then show ?thesis using link_entry [OF f link_flags_3] f by (simp add: fractal_def is_frame_def Let_def)
qed

lemma id_tables_sep:
  assumes T: "id_tables m p4 p3 pd k n" and k: "k \<le> 512" "n \<le> 512 * 512"
  shows "sep m p4"
proof -
  have f: "is_frame p4" "p4 \<noteq> p3" "\<And>j. j < k \<Longrightarrow> pd j \<noteq> p4 \<and> pd j \<noteq> p3" "\<And>i j. i < k \<Longrightarrow> j < k \<Longrightarrow> pd i = pd j \<Longrightarrow> i = j"
    using T by (auto simp: id_tables_def inj_on_def)
  have "p = q" if "user_path p" "user_path q" "tab m p4 p = Some t" "tab m p4 q = Some t" for p q t
    using id_tables_paths [OF T k that(1,3)] id_tables_paths [OF T k that(2,4)] f by fastforce
  then show ?thesis using f(1) by (auto simp: sep_def)
qed


lemma unat_pt_index: "unat (pt_index k va) = unat va div 2 ^ (12 + 9 * k) mod 512"
proof -
  have "pt_index k va = take_bit 9 (drop_bit (12 + 9 * k) va)"
    by (simp add: pt_index_def take_bit_eq_mask mask_eq_exp_minus_1)
  moreover have "unat (take_bit 9 (drop_bit (12 + 9 * k) va)) = take_bit 9 (drop_bit (12 + 9 * k) (unat va))"
    by (simp only: unsigned_take_bit_eq unat_drop_bit_eq)
  ultimately show ?thesis by (simp add: take_bit_eq_mod [of _ "unat va div _"] drop_bit_eq_div [of _ "unat va"])
qed

lemma pt_index_of_nat: "pt_index k va = of_nat (unat va div 2 ^ (12 + 9 * k) mod 512)"
  by (simp add: word_unat_eq_iff unat_pt_index)

lemma big_leaf:
  assumes "unat va < 2 ^ 39"
  shows "leaf_addr 1 (of_nat (unat va div 0x200000) * 0x200000 OR 0x183) va = va"
proof (rule bit_word_eqI)
  fix n assume n: "n < LENGTH(64)"
  have "of_nat (unat va div 0x200000) = drop_bit 21 va"
  proof -
    have "unat (drop_bit 21 va) = unat va div 0x200000"
      by (simp only: unat_drop_bit_eq) (simp add: drop_bit_eq_div)
    then show ?thesis by (metis of_nat_unat ucast_id)
  qed
  then have e: "of_nat (unat va div 0x200000) * 0x200000 = push_bit 21 (drop_bit 21 va)"
    by (simp add: push_bit_eq_mult)
  have s: "\<not> bit (0x183 :: u64) l" if "9 \<le> l" for l
    using bit_less_exp [of "0x183 :: u64" 9 l] that by auto
  have "bit va n \<Longrightarrow> n < 39" using bit_less_exp [OF assms] by auto
  moreover have "n < 21 \<or> 21 \<le> n" by linarith
  ultimately show "bit (leaf_addr 1 (of_nat (unat va div 0x200000) * 0x200000 OR 0x183) va) n = bit va n"
    using n s by (auto simp: leaf_addr_def pframe_mask e bit_simps)
qed

lemma id_tables_walk:
  assumes T: "id_tables m p4 p3 pd k n" and k: "k \<le> 512" "n \<le> 512 * k" and va: "unat va < 2 ^ 39"
  shows "mmu_translate m p4 va = (if unat va < n * 0x200000 then Some va else None)"
proof -
  define j where "j = unat va div 2 ^ 30"
  define i where "i = unat va div 0x200000 mod 512"
  have j: "j < 512" and i: "i < 512" and q: "512 * j + i = unat va div 0x200000"
  proof -
    show "j < 512" "i < 512" using va by (auto simp: j_def i_def less_mult_imp_div_less)
    have "j = unat va div 0x200000 div 512" by (simp add: j_def div_mult2_eq [symmetric])
    then show "512 * j + i = unat va div 0x200000" by (simp add: i_def)
  qed
  have ix: "pt_index 3 va = 0" "pt_index 2 va = of_nat j" "pt_index 1 va = of_nat i"
    using va j by (simp_all add: pt_index_of_nat j_def i_def div_less)
  have f: "is_frame p4" "canonical va" using T kernel_addr [OF va] by (simp_all add: id_tables_def)
  then have tr: "mmu_translate m p4 va = mmu_walk m p4 va 3" by (simp add: mmu_translate_def is_frame_def)
  have v: "vpath va 2 = [0, of_nat j]" "vpath va 1 = [0]" by (simp_all add: vpath_def upt_rec ix)
  have lt: "unat va < n * 0x200000 \<longleftrightarrow> 512 * j + i < n" unfolding q by (simp add: div_less_iff_less_mult)
  show ?thesis
  proof (cases "j < k")
    case True
    then have t: "tab m p4 (vpath va 2) = Some (pd j)" using id_tables_tab(2) [OF T j j] v by simp
    have e: "m (entry_at (pd j) (pt_index (3 - 2) va)) = (if 512 * j + i < n then of_nat (512 * j + i) * 0x200000 OR 0x183 else 0)"
      using T True i ix(3) by (simp add: id_tables_def)
    show ?thesis
    proof (cases "512 * j + i < n")
      case True
      define E :: u64 where "E = of_nat (512 * j + i) * 0x200000 OR 0x183"
      have E: "present E" "huge E" "m (entry_at (pd j) (pt_index (3 - 2) va)) = E"
        using big_entry [of "512 * j + i"] e True k by (simp_all add: E_def)
      have "mmu_walk m p4 va 3 = Some (leaf_addr (3 - 2) E va)"
        by (rule mmu_walk_leaf [OF t]) (use E in auto)
      moreover have "leaf_addr (3 - 2) E va = va" using big_leaf [OF va] unfolding E_def q by simp
      ultimately show ?thesis using True unfolding tr lt by simp
    next
      case False
      with e have "\<not> present (m (entry_at (pd j) (pt_index (3 - 2) va)))" by (simp add: present_def)
      from mmu_walk_hole [OF t _ this] False show ?thesis unfolding tr lt by simp
    qed
  next
    case False
    have t: "tab m p4 (vpath va 1) = Some p3" using id_tables_tab(1) [OF T, of 0 0] v by simp
    have "m (entry_at p3 (of_nat j)) = 0" using T False j by (simp add: id_tables_def)
    then have "\<not> present (m (entry_at p3 (pt_index (3 - 1) va)))" using ix(2) by (simp add: present_def)
    from mmu_walk_hole [OF t _ this] have "mmu_walk m p4 va 3 = None" by simp
    moreover have "\<not> 512 * j + i < n" using False k(2) by simp
    ultimately show ?thesis unfolding tr lt by simp
  qed
qed

lemma id_tables_upper:
  assumes T: "id_tables m p4 p3 pd k n" and va: "canonical va" "va < UserEnd" "2 ^ 39 \<le> unat va"
  shows "mmu_translate m p4 va = None"
proof -
  have f: "is_frame p4" using T by (simp add: id_tables_def)
  define i where "i = unat va div 2 ^ 39 mod 512"
  have ix: "pt_index 3 va = of_nat i" by (simp add: pt_index_of_nat i_def)
  have i: "i < 512" by (simp add: i_def)
  have "i \<noteq> 0"
  proof
    assume z: "i = 0"
    define d where "d = unat va div 0x8000000000"
    have "unat va < 0x100 * 0x8000000000 \<or> 0x1ffff00 * 0x8000000000 \<le> unat va \<and> unat va < 0x1ffffff * 0x8000000000"
      using va(1,2) by (auto simp: canonical_def UserEnd_def word_le_nat_alt word_less_nat_alt)
    then have "d < 0x100 \<or> 0x1ffff00 \<le> d \<and> d < 0x1ffffff"
      by (auto simp: d_def less_eq_div_iff_mult_less_eq div_less_iff_less_mult)
    moreover have "1 \<le> d" using va(3) by (simp add: d_def less_eq_div_iff_mult_less_eq)
    moreover obtain c where "d = 512 * c" using z by (auto simp: i_def d_def elim!: dvdE simp flip: dvd_eq_mod_eq_0)
    ultimately have "c < 1 \<and> 1 \<le> c \<or> 65536 \<le> c \<and> c < 65536" by linarith
    then show False by linarith
  qed
  moreover have "i \<noteq> 0x1ff" using user_va_iff [OF va(1)] va(2) ix i of_nat_index_eq [of i "0x1ff"] by (auto simp: user_va_def)
  ultimately have "m (entry_at p4 (pt_index 3 va)) = 0" using T i unfolding id_tables_def ix by auto
  then have "\<not> present (m (entry_at p4 (pt_index (3 - 0) va)))" by (simp add: present_def)
  then have "mmu_walk m p4 va 3 = None" by (intro mmu_walk_hole [where d = 0 and t = p4]) simp_all
  with f show ?thesis by (simp add: mmu_translate_def is_frame_def)
qed


section \<open>Properties\<close>

lemma MapSetup_start_inv:
  assumes R: "regions_ok an R" and u: "firstUnmapped ms = 0"
    and a4: "StepAllocator_Alloc an R (ms_last ms) 0x1000 0x1000 = Inr (Some p4, l4)"
    and a3: "StepAllocator_Alloc an R l4 0x1000 0x1000 = Inr (Some p3, l3)"
  defines "s \<equiv> ms_store p4 0x1ff (p4 OR 3) (ms_store p4 0 (p3 OR 3) (ms_zero p3 (ms_zero p4
      (ms\<lparr>ms_pml4 := p4, ms_last := l3, ms_pdpt := p3\<rparr>))))"
  shows "map_inv an R p4 p3 (s\<lparr>pdtOffset := 0x200, pdptOffset := -1\<rparr>) 0"
proof -
  note P4 = step_page [OF R a4] and P3 = step_page [OF R a3]
  have ne: "p4 \<noteq> p3" using P4 P3 by auto
  have e: "ms_mem s = (zero_page (zero_page (ms_mem ms) p4) p3)
      (entry_at p4 (of_nat 0) := p3 OR 3, entry_at p4 (of_nat 0x1ff) := p4 OR 3)"
    by (simp add: s_def ms_store_def ms_zero_def entry_at_def)
  have "ms_mem s (entry_at p4 (of_nat i)) = (if i = 0 then p3 OR 3 else if i = 0x1ff then p4 OR 3 else 0)" if "i < 512" for i
    unfolding e fun_upd_apply using that P4(1) P3(1) by (simp only: entry_at_eq zero_entry) auto
  moreover have "ms_mem s (entry_at p3 (of_nat i)) = 0" if "i < 512" for i
    unfolding e fun_upd_apply using that P4(1) P3(1) ne by (simp only: entry_at_eq zero_entry) auto
  ultimately have T: "id_tables (ms_mem s) p4 p3 (\<lambda>_. 0) 0 0"
    using P4(1) P3(1) ne by (simp add: id_tables_def)
  have f: "ms_pml4 s = p4" "ms_pdpt s = p3" "ms_last s = l3" "firstUnmapped s = 0"
    by (simp_all add: s_def ms_store_def ms_zero_def u)
  show ?thesis
    unfolding map_inv_def
    by (intro conjI exI [of _ "\<lambda>_. 0"] exI [of _ 0]) (use R f T P4(3) P3 in auto)
qed

lemma GenerateMap_inv:
  assumes R: "regions_ok an R" and u: "firstUnmapped ms = 0" and e: "unat (ms_reservedEnd ms) \<le> 2 ^ 39"
  shows "case GenerateMap an R ms of
      Inl flt \<Rightarrow> \<exists>msg. flt = Panic msg
    | Inr ms' \<Rightarrow> map_inv an R (ms_pml4 ms') (ms_pdpt ms') ms' (pages_2m (ms_reservedEnd ms)) \<and> ms_last ms \<le> ms_last ms'
        \<and> (ms_reservedEnd ms \<noteq> 0 \<longrightarrow> 0 < pdtOffset ms')"
proof (cases "GenerateMap an R ms")
  case (Inl flt)
  have "\<exists>msg. flt = Panic msg"
    using Inl by (auto simp: GenerateMap_def Let_def bindE_def split: sum.splits dest!: ms_AllocPage_fails map_loop_fails)
  with Inl show ?thesis by simp
next
  case (Inr ms')
  obtain p4 l4 p3 l3 where a4: "StepAllocator_Alloc an R (ms_last ms) 0x1000 0x1000 = Inr (Some p4, l4)"
    and a3: "StepAllocator_Alloc an R l4 0x1000 0x1000 = Inr (Some p3, l3)"
    and l: "map_loop an R (ms_reservedEnd ms)
      (ms_store p4 0x1ff (p4 OR 3) (ms_store p4 0 (p3 OR 3) (ms_zero p3 (ms_zero p4
        (ms\<lparr>ms_pml4 := p4, ms_last := l3, ms_pdpt := p3\<rparr>))))\<lparr>pdtOffset := 0x200, pdptOffset := -1\<rparr>) = Inr ms'"
    using Inr by (auto simp: GenerateMap_def ms_AllocPage_def Let_def ms_store_def ms_zero_def split: option.splits)
  have "0 + pages_2m (ms_reservedEnd ms) \<le> 512 * 512" using e by (simp add: pages_2m_def)
  from map_loop_inv [OF l MapSetup_start_inv [OF R u a4 a3] this]
  have M: "map_inv an R p4 p3 ms' (pages_2m (ms_reservedEnd ms)) \<and> l3 \<le> ms_last ms'
      \<and> (ms_reservedEnd ms \<noteq> 0 \<longrightarrow> 0 < pdtOffset ms')"
    by (simp add: ms_store_def ms_zero_def)
  moreover have "ms_pml4 ms' = p4" "ms_pdpt ms' = p3" using M by (auto simp: map_inv_def)
  moreover have "ms_last ms \<le> l3"
    using step_page [OF R a4] step_page [OF R a3] by (meson less_imp_le order_trans)
  ultimately show ?thesis using Inr by auto
qed

text \<open>The tables that a call of GenerateMap leaves.\<close>

lemma GenerateMap_tables:
  assumes R: "regions_ok an R" and u: "firstUnmapped ms = 0" and e: "unat (ms_reservedEnd ms) \<le> 2 ^ 39"
    and g: "GenerateMap an R ms = Inr ms'"
  defines "n \<equiv> pages_2m (ms_reservedEnd ms)"
  obtains pd k where "id_tables (ms_mem ms') (ms_pml4 ms') (ms_pdpt ms') pd k n" "k \<le> 512" "n \<le> 512 * k" "n \<le> 512 * 512"
    "0 < k \<Longrightarrow> ms_reservedEnd ms \<noteq> 0 \<Longrightarrow> 512 * (k - 1) < n" "ms_last ms \<le> ms_last ms'" "ms_last ms' mod 0x1000 = 0"
    "\<And>p t. user_path p \<Longrightarrow> tab (ms_mem ms') (ms_pml4 ms') p = Some t \<Longrightarrow> t < ms_last ms'"
proof -
  have M: "map_inv an R (ms_pml4 ms') (ms_pdpt ms') ms' n" "ms_last ms \<le> ms_last ms'"
    "ms_reservedEnd ms \<noteq> 0 \<Longrightarrow> 0 < pdtOffset ms'"
    using GenerateMap_inv [OF R u e] g by (simp_all add: n_def)
  then obtain pd k where T: "id_tables (ms_mem ms') (ms_pml4 ms') (ms_pdpt ms') pd k n" "\<forall>j < k. pd j < ms_last ms'"
      "n \<le> 512 * k" "k \<le> 512" "pdtOffset ms' = int n - 512 * (int k - 1)"
    and b: "ms_pml4 ms' < ms_last ms'" "ms_pdpt ms' < ms_last ms'" "ms_last ms' mod 0x1000 = 0"
    by (auto simp: map_inv_def)
  have n: "n \<le> 512 * 512" using e by (simp add: n_def pages_2m_def)
  have "t < ms_last ms'" if "user_path p" "tab (ms_mem ms') (ms_pml4 ms') p = Some t" for p t
    using id_tables_paths [OF T(1,4) n that] T(2) b by auto
  moreover have "512 * (k - 1) < n" if "0 < k" "ms_reservedEnd ms \<noteq> 0"
    using M(3) [OF that(2)] T(5) that(1) by (simp add: of_nat_diff)
  ultimately show ?thesis using that [of pd k] T n M(2) b(3) by blast
qed

text \<open>Loading them.\<close>

abbreviation first_machine :: "map_setup \<Rightarrow> PhysAddr machine" where
  "first_machine ms \<equiv> \<lparr>pmem = ms_mem ms, cr3 = ms_pml4 ms, alst = ms_last ms, invlpgs = []\<rparr>"

lemma first_map_Set:
  "GlobalMap_Set (snd (ScopedCritical_new c)) (first_map an R bootCr3 ms) =
     Inr ((first_map an R bootCr3 ms)\<lparr>mach := first_machine ms\<rparr>)"
proof -
  have cr: "AssertCritical (snd (ScopedCritical_new c)) = Inr ()"
    using ScopedCritical_new_ok [of c] by (cases "ScopedCritical_new c") (simp add: AssertCritical_def)
  show ?thesis by (simp add: GlobalMap_Set_def cr first_map_def GeneratePageTable_def GetPml4_def)
qed

lemma first_map_gm_ok:
  assumes "noncritical c" "pt_inv ainv taken (first_machine ms)"
  shows "gm_ok ainv taken c ((first_map an R bootCr3 ms)\<lparr>mach := first_machine ms\<rparr>)"
  using assms by (simp add: gm_ok_def first_map_def IsSet_def GeneratePageTable_def GetPml4_def finder_ok_def
      FreeFinder_new_def unmapped_def)

text \<open>
  C5. The first page tables are right: for memory regions as the boot loader has to report
  them and at most 512 GB to map, GenerateMap panics or builds tables with which the kernel's map
  starts in the state that all its operations need (the invariant gm_ok: the table is the
  one in CR3, fractal, a tree of distinct frames below the address from which the allocator goes on,
  and the free finder holds no mapped address), which lies above the reserved memory; every reserved address translates to
  itself, the last 2 MB page is completed, and nothing else in the address space is mapped.
\<close>

theorem GenerateMap_starts:
  assumes "regions_ok an (bi_regions info)" and "noncritical c"
    and "ms = MapSetup_new ansaAlign sizeofBuddy sizeofTable sizeofFinder info junk m" and "unat (ms_reservedEnd ms) \<le> 2 ^ 39"
  shows "case GenerateMap an (bi_regions info) ms of
      Inl flt \<Rightarrow> \<exists>msg. flt = Panic msg
    | Inr ms' \<Rightarrow> \<exists>g. GlobalMap_Set (snd (ScopedCritical_new c)) (first_map an (bi_regions info) bootCr3 ms') = Inr g
        \<and> gm_ok (\<lambda>_. regions_ok an (bi_regions info)) (\<lambda>a. {f. f < a}) c g \<and> ms_reservedEnd ms \<le> alst (mach g)
        \<and> (\<forall>va. canonical va \<and> va < UserEnd \<longrightarrow> mmu_translate (pmem (mach g)) (cr3 (mach g)) va =
            (if unat va < (unat (ms_reservedEnd ms) + 0x1fffff) div 0x200000 * 0x200000 then Some va else None))"
proof (cases "GenerateMap an (bi_regions info) ms")
  case (Inl flt)
  have u: "firstUnmapped ms = 0" by (simp add: assms(3) MapSetup_new_def Let_def)
  with Inl GenerateMap_inv [OF assms(1) u assms(4)] show ?thesis by simp
next
  case (Inr ms')
  have u: "firstUnmapped ms = 0" "ms_last ms = ms_reservedEnd ms" by (simp_all add: assms(3) MapSetup_new_def Let_def)
  let ?n = "pages_2m (ms_reservedEnd ms)"
  obtain pd k where T: "id_tables (ms_mem ms') (ms_pml4 ms') (ms_pdpt ms') pd k ?n" "k \<le> 512" "?n \<le> 512 * k" "?n \<le> 512 * 512"
    and l: "ms_last ms \<le> ms_last ms'"
      "\<And>p t. user_path p \<Longrightarrow> tab (ms_mem ms') (ms_pml4 ms') p = Some t \<Longrightarrow> t < ms_last ms'"
    using GenerateMap_tables [OF assms(1) u(1) assms(4) Inr] by metis
  have "pt_inv (\<lambda>_. regions_ok an (bi_regions info)) (\<lambda>a. {f. f < a}) (first_machine ms')"
    using id_tables_fractal [OF T(1)] id_tables_sep [OF T(1,2,4)] l(2) assms(1) by (simp add: pt_inv_def)
  note ok = first_map_gm_ok [OF assms(2) this]
  have "mmu_translate (ms_mem ms') (ms_pml4 ms') va = (if unat va < ?n * 0x200000 then Some va else None)"
    if "canonical va" "va < UserEnd" for va
  proof (cases "unat va < 2 ^ 39")
    case True
    then show ?thesis by (rule id_tables_walk [OF T(1-3)])
  next
    case False
    then have "\<not> unat va < ?n * 0x200000" using T(4) by simp
    with id_tables_upper [OF T(1) that] False show ?thesis by simp
  qed
  then show ?thesis
    using Inr l(1) u(2) ok [of an "bi_regions info" bootCr3] first_map_Set [of c an "bi_regions info" bootCr3 ms']
    by (auto simp: pages_2m_def)
qed


text \<open>A kernel that ends at 0x24D000 with three objects behind it, in the example regions.\<close>

definition ex_align :: "u64 \<Rightarrow> u64 \<Rightarrow> u64" where
  "ex_align x a = (x + (a - 1)) div a * a"

definition ex_info :: "(u64 \<times> u64) boot_info" where
  "ex_info = \<lparr>bi_regions = ex_regions, bi_kernelEnd = 0x24CABC\<rparr>"

definition ex_setup :: map_setup where
  "ex_setup = MapSetup_new ex_align 0x1200 0x10 0x18 ex_info 0 (\<lambda>_. 7)"

lemma ex_GenerateMap: "\<exists>ms'. GenerateMap ex_analloc ex_regions ex_setup = Inr ms'"
proof -
  have s: "ex_setup = \<lparr>ms_kernelEnd = 0x24D000, ms_reservedEnd = 0x24F000, ms_last = 0x24F000, ms_pdpt = 0, ms_pml4 = 0,
      pdtOffset = 0, pdptOffset = 0, currentPDT = 0, firstUnmapped = 0, ms_mem = (\<lambda>_. 7)\<rparr>"
    by (simp add: ex_setup_def MapSetup_new_def ex_align_def ex_info_def Let_def)
  show ?thesis
    unfolding s
    by (simp add: GenerateMap_def ms_AllocPage_def ex_alloc_simps ms_store_def ms_zero_def Let_def MapNext_def next_pdt_def
        map_loop.simps [of _ _ "0x24F000"] map_loop.simps [of _ _ "0x4F000"] map_loop.simps [of _ _ 0])
qed

theorem GenerateMap_starts_witness:
  "\<exists>ms' g. GenerateMap ex_analloc (bi_regions ex_info) ex_setup = Inr ms'
    \<and> gm_ok (\<lambda>_. regions_ok ex_analloc (bi_regions ex_info)) (\<lambda>a. {f. f < a}) \<lparr>crit_initialized = False, rflags = 2\<rparr> g
    \<and> mmu_translate (pmem (mach g)) (cr3 (mach g)) 0x3FFFFF = Some 0x3FFFFF
    \<and> mmu_translate (pmem (mach g)) (cr3 (mach g)) 0x400000 = None"
proof -
  let ?c = "\<lparr>crit_initialized = False, rflags = 2\<rparr>"
  obtain ms' where ms': "GenerateMap ex_analloc (bi_regions ex_info) ex_setup = Inr ms'"
    using ex_GenerateMap by (auto simp: ex_info_def)
  have e: "unat (ms_reservedEnd ex_setup) = 0x24F000"
    by (simp add: ex_setup_def MapSetup_new_def ex_align_def ex_info_def Let_def)
  have r: "regions_ok ex_analloc (bi_regions ex_info)" by (simp add: ex_info_def ex_regions_ok)
  have c: "noncritical ?c" by (simp add: noncritical_def IgnoreCriticality_def)
  from GenerateMap_starts [OF r c ex_setup_def, of 0] e ms' obtain g where
    g: "gm_ok (\<lambda>_. regions_ok ex_analloc (bi_regions ex_info)) (\<lambda>a. {f. f < a}) ?c g"
      "\<forall>va. canonical va \<and> va < UserEnd \<longrightarrow> mmu_translate (pmem (mach g)) (cr3 (mach g)) va =
        (if unat va < (0x24F000 + 0x1fffff) div 0x200000 * 0x200000 then Some va else None)"
    by auto
  have "mmu_translate (pmem (mach g)) (cr3 (mach g)) 0x3FFFFF = Some 0x3FFFFF"
    "mmu_translate (pmem (mach g)) (cr3 (mach g)) 0x400000 = None"
    using g(2) [rule_format, of "0x3FFFFF"] g(2) [rule_format, of "0x400000"] by (simp_all add: canonical_def UserEnd_def)
  with ms' g(1) show ?thesis by blast
qed

end
