(* ===== verification/TableOwners.thy ===== *)
theory TableOwners
  imports GlobalMapProofs
begin

text \<open>
  Who owns the page tables: \<^verbatim>\<open>Set\<close> and \<^verbatim>\<open>SetList\<close> only add tables that came from the
  allocator, keep every link plain enough for \<^verbatim>\<open>Unset\<close> to free what it points to, and leave
  the tables that the PML4 points to in place.
\<close>

section \<open>Page tables and their owners\<close>

lemma plain_or:
  assumes "e AND 0x7FFFFFFFFFFFF000 = pframe e" "pm AND 0x7FFFFFFFFFFFF000 = 0" "flags_only pm"
  shows "(e OR pm) AND 0x7FFFFFFFFFFFF000 = pframe (e OR pm)"
proof -
  have "(e OR pm) AND 0x7FFFFFFFFFFFF000 = (e AND 0x7FFFFFFFFFFFF000) OR (pm AND 0x7FFFFFFFFFFFF000)"
    by (simp add: bit.conj_disj_distrib2)
  then show ?thesis using assms by (simp add: pframe_or flags_only_def)
qed

lemma frame_plain: "is_frame f \<Longrightarrow> f AND 0x7FFFFFFFFFFFF000 = pframe f"
proof -
  assume f: "is_frame f"
  have "f AND 0x7FFFFFFFFFFFF000 = f"
    unfolding mask_consts
    by (rule bit_word_eqI) (auto simp: bit_simps dest: is_frame_bit [OF f])
  then show ?thesis using f by (simp add: is_frame_def)
qed

text \<open>The tables that the PML4 points to stay where they are.\<close>

definition keeps_top :: "'a machine \<Rightarrow> 'a machine \<Rightarrow> bool" where
  "keeps_top s s' \<longleftrightarrow> (\<forall>j v. user_path [j] \<longrightarrow> tab (pmem s) (cr3 s) [j] = Some v \<longrightarrow> tab (pmem s') (cr3 s') [j] = Some v)"

lemma keeps_top_refl [simp]: "keeps_top s s"
  by (simp add: keeps_top_def)

lemma keeps_top_trans: "keeps_top s s1 \<Longrightarrow> keeps_top s1 s2 \<Longrightarrow> keeps_top s s2"
  unfolding keeps_top_def by blast

text \<open>
  Who answers for the tables that are added on the way to the addresses \<open>X\<close>: the allocator,
  which owns the pages \<open>P\<close> it hands out, or the addresses themselves, when they are in \<open>K\<close>.
\<close>

definition owners ::
    "('a \<Rightarrow> bool) \<Rightarrow> ('a \<Rightarrow> PhysSize \<Rightarrow> PhysSize \<Rightarrow> (PhysAddr option \<times> 'a) res) \<Rightarrow> ('a \<Rightarrow> PhysAddr set)
     \<Rightarrow> VirtAddr set \<Rightarrow> VirtAddr set \<Rightarrow> bool" where
  "owners ainv A P K X \<longleftrightarrow> (\<forall>a f a'. ainv a \<longrightarrow> A a 0x1000 0x1000 = Inr (Some f, a') \<longrightarrow>
     P a \<subseteq> P a' \<and> (f \<in> P a' \<or> X \<subseteq> K))"

lemma owners_mono: "owners ainv A P K X \<Longrightarrow> Y \<subseteq> X \<Longrightarrow> owners ainv A P K Y"
  unfolding owners_def by (meson subset_trans)

lemma owners_inside: "X \<subseteq> K \<Longrightarrow> owners ainv A (\<lambda>_. {}) K X"
  by (simp add: owners_def)

context page_pool
begin

lemma owners_pages: "owners invar Alloc pages K X"
  using page_owned unfolding owners_def by blast

end

definition tables_kept :: "('a \<Rightarrow> PhysAddr set) \<Rightarrow> VirtAddr set \<Rightarrow> 'a machine \<Rightarrow> 'a machine \<Rightarrow> bool" where
  "tables_kept P K s s' \<longleftrightarrow> (plain_tables s \<longrightarrow> plain_tables s') \<and> (owned_tables P K s \<longrightarrow> owned_tables P K s')
     \<and> keeps_top s s'"

lemma tables_kept_refl [simp]: "tables_kept P K s s"
  by (simp add: tables_kept_def)

lemma tables_kept_trans: "tables_kept P K s s1 \<Longrightarrow> tables_kept P K s1 s2 \<Longrightarrow> tables_kept P K s s2"
  unfolding tables_kept_def using keeps_top_trans by blast

context page_source
begin

lemma table_step_tables:
  assumes st: "table_step Alloc pm addr s s'" and pm: "pm AND 0x7FFFFFFFFFFFF000 = 0" "flags_only pm"
    and a: "invar (alst s)" and own: "owners invar Alloc P K {addr}"
  shows "invar (alst s') \<and> tables_kept P K s s'"
proof -
  obtain p i u where p: "user_path (p @ [i])" "tab (pmem s) (cr3 s) p = Some u" "p @ [i] = vpath addr (Suc (length p))"
    and S: "(present (pmem s (entry_at u i)) \<and> \<not> huge (pmem s (entry_at u i))
        \<and> s' = s\<lparr>pmem := (pmem s)(entry_at u i := pmem s (entry_at u i) OR pm)\<rparr>)
      \<or> (\<exists>f al. Alloc (alst s) 0x1000 0x1000 = Inr (Some f, al) \<and> fresh_link (pmem s) (cr3 s) p u i f pm
        \<and> s' = s\<lparr>alst := al, pmem := link_table (pmem s) (entry_at u i) f pm\<rparr>)"
    using st unfolding table_step_def by blast
  let ?l = "entry_at u i"
  from S show ?thesis
  proof (elim disjE exE conjE)
    assume e: "present (pmem s ?l)" "\<not> huge (pmem s ?l)"
      and s': "s' = s\<lparr>pmem := (pmem s)(?l := pmem s ?l OR pm)\<rparr>"
    have tab: "tab (pmem s') (cr3 s') q = tab (pmem s) (cr3 s) q" for q
      using tab_same_links [OF same_links_or [of "pmem s", OF e(1) pm(2)]] s' by simp
    have "plain_tables s'" if pl: "plain_tables s"
    proof -
      have "pmem s ?l AND 0x7FFFFFFFFFFFF000 = pframe (pmem s ?l)"
        using pl p e unfolding plain_tables_def by blast
      then have "(pmem s ?l OR pm) AND 0x7FFFFFFFFFFFF000 = pframe (pmem s ?l OR pm)"
        using plain_or pm by blast
      then show ?thesis using pl unfolding plain_tables_def tab by (simp add: s')
    qed
    moreover have "keeps_top s s'" unfolding keeps_top_def tab by blast
    moreover have "owned_tables P K s \<longrightarrow> owned_tables P K s'"
      unfolding owned_tables_def tab by (simp add: s')
    moreover have "invar (alst s')" using a by (simp add: s')
    ultimately show ?thesis unfolding tables_kept_def by blast
  next
    fix f al assume al: "Alloc (alst s) 0x1000 0x1000 = Inr (Some f, al)"
      and F: "fresh_link (pmem s) (cr3 s) p u i f pm"
      and s': "s' = s\<lparr>alst := al, pmem := link_table (pmem s) ?l f pm\<rparr>"
    note L = fresh_linkD [OF F]
    have tab: "q = p @ [i] \<and> t = f \<or> tab (pmem s) (cr3 s) q = Some t"
      if "user_path q" "tab (pmem s') (cr3 s') q = Some t" for q t
      using tab_linked [OF F that(1)] that(2) s' by (simp split: if_splits)
    have "plain_tables s'" if pl: "plain_tables s"
      unfolding plain_tables_def
    proof (intro allI impI)
      fix q j t assume q: "user_path (q @ [j])" and t: "tab (pmem s') (cr3 s') q = Some t"
        and e: "present (pmem s' (entry_at t j))" "\<not> huge (pmem s' (entry_at t j))"
      have q': "user_path q" "j < 512" using user_path_snocD [OF q] by auto
      have "t \<noteq> f" using linked_entry_fresh [OF F q'(2)] e(1) s' by auto
      then have t': "tab (pmem s) (cr3 s) q = Some t" using tab [OF q'(1) t] by simp
      show "pmem s' (entry_at t j) AND 0x7FFFFFFFFFFFF000 = pframe (pmem s' (entry_at t j))"
      proof (cases "entry_at t j = ?l")
        case True
        then have "pmem s' (entry_at t j) = f OR pm" using fresh_link_zero(3) [OF F] s' by simp
        then show ?thesis using plain_or [OF frame_plain [OF L(8)] pm] by simp
      next
        case False
        then have "pmem s' (entry_at t j) = pmem s (entry_at t j)"
          using entry_linked_other [OF F t' \<open>t \<noteq> f\<close> q'(2)] s' by simp
        then show ?thesis using pl q t' e unfolding plain_tables_def by simp
      qed
    qed
    moreover have "owned_tables P K s'" if ow: "owned_tables P K s"
      unfolding owned_tables_def
    proof (intro allI impI)
      fix q t assume q: "user_path q" "q \<noteq> []" and t: "tab (pmem s') (cr3 s') q = Some t"
      have O: "P (alst s) \<subseteq> P (alst s')" "f \<in> P (alst s') \<or> addr \<in> K"
        using own a al s' unfolding owners_def by auto
      have "vpath addr (length (p @ [i])) = p @ [i]" using p(3) by simp
      then show "t \<in> P (alst s') \<or> (\<exists>w\<in>K. vpath w (length q) = q)"
        using tab [OF q(1) t] ow q O unfolding owned_tables_def by blast
    qed
    moreover have "keeps_top s s'"
      unfolding keeps_top_def
    proof (intro allI impI)
      fix j v assume j: "user_path [j]" "tab (pmem s) (cr3 s) [j] = Some v"
      have ne: "[j] \<noteq> p @ [i]" using L(4,7) j(2) by (auto simp: Let_def split: if_splits)
      then have tk: "take (Suc (length p)) [j] \<noteq> p @ [i]" by auto
      show "tab (pmem s') (cr3 s') [j] = Some v"
        using tab_linked [OF F j(1)] j(2) s' unfolding if_not_P [OF ne] if_not_P [OF tk] by (simp del: tab.simps)
    qed
    ultimately show ?thesis using page_invar [OF a al] s' by (simp add: tables_kept_def)
  qed
qed

lemma table_steps_tables:
  assumes "(table_step Alloc pm addr)\<^sup>*\<^sup>* s s'" "pm AND 0x7FFFFFFFFFFFF000 = 0" "flags_only pm" "invar (alst s)"
    and "owners invar Alloc P K {addr}"
  shows "invar (alst s') \<and> tables_kept P K s s'"
  using assms(1) by induction (use assms(2-5) table_step_tables tables_kept_trans in \<open>simp, blast\<close>)+

lemma store_top:
  assumes inv: "pt_inv ainv tk s" and va: "user_va addr" and d: "1 \<le> d" "d \<le> 3"
    and u: "tab (pmem s) (cr3 s) (vpath addr d) = Some u" and e: "leaf_entry e d" and j: "user_path [j]"
  shows "tab ((pmem s)(entry_at u (pt_index (3 - d) addr) := e)) (cr3 s) [j] = tab (pmem s) (cr3 s) [j]"
proof -
  have "length (take (Suc d) [j]) \<noteq> length (vpath addr d @ [pt_index (3 - d) addr])" using d by simp
  then have "take (Suc d) [j] \<noteq> vpath addr d @ [pt_index (3 - d) addr]" by metis
  then have "take (Suc (length (vpath addr d))) [j] \<noteq> vpath addr d @ [pt_index (3 - d) addr]"
    unfolding length_vpath .
  then show ?thesis
    using tab_upd_leaf [OF pt_invD(2) [OF inv] user_path_vpath [OF va d(2)] u pt_index_less, of e "[j]" "3 - d" addr] e j
    by (simp only: length_vpath if_False)
qed

text \<open>\<^verbatim>\<open>SetList\<close> keeps both conditions.\<close>

lemma SetList_loop_tables:
  assumes t: "al_Alloc (allocator t) = Alloc" and c: "noncritical c" and d: "1 \<le> d"
  shows "run_ok d virt n \<Longrightarrow> pml4 t = cr3 s \<Longrightarrow> pt_inv invar taken s \<Longrightarrow>
    (\<forall>i < n. leaf_entry (e + of_nat i * level_size d) d) \<Longrightarrow>
    SetList_loop c t n virt e (level_size d) 3 d ow s = Inr (ow', s') \<Longrightarrow>
    owners invar Alloc P K (Collect (in_run d virt n)) \<Longrightarrow> tables_kept P K s s'"
proof (induction n arbitrary: virt e s ow)
  case (Suc n)
  note st = run_start [OF Suc.prems(1)] and nx = run_next [OF Suc.prems(1)]
  have "leaf_entry (e + of_nat 0 * level_size d) d" using Suc.prems(4) by blast
  then have leaf: "leaf_entry e d" by simp
  have rest: "\<forall>i < n. leaf_entry (e + level_size d + of_nat i * level_size d) d"
  proof (intro allI impI)
    fix i assume "i < n"
    then have "leaf_entry (e + of_nat (Suc i) * level_size d) d" using Suc.prems(4) by blast
    then show "leaf_entry (e + level_size d + of_nat i * level_size d) d" by (simp add: algebra_simps)
  qed
  have own: "owners invar Alloc P K {virt}" "owners invar Alloc P K (Collect (in_run d (virt + level_size d) n))"
  proof -
    have "Collect (in_run d (virt + level_size d) n) \<subseteq> Collect (in_run d virt (Suc n))"
      using in_run_Suc(1) [OF Suc.prems(1)] in_run_canonical [OF nx(2)] by blast
    then show "owners invar Alloc P K (Collect (in_run d (virt + level_size d) n))"
      by (rule owners_mono [OF Suc.prems(6)])
    show "owners invar Alloc P K {virt}" by (rule owners_mono [OF Suc.prems(6)]) (simp add: in_run_def)
  qed
  have set: "IsSet t s" using Suc.prems(2) by (simp add: IsSet_def GetPml4_def)
  show ?case
  proof (cases rule: Set_ok [OF t set c flags_3 st(2,4,3) Suc.prems(3) leaf])
    case 1
    then show ?thesis using Suc.prems(5) by simp
  next
    case (2 s1)
    then show ?thesis using Suc.prems(5) by simp
  next
    case (3 s2 over)
    then have s2: "pml4 t = cr3 s2" "pt_inv invar taken s2" using Suc.prems(2) by (simp_all add: page_set_def)
    have L: "SetList_loop c t n (virt + level_size d) (e + level_size d) (level_size d) 3 d
        (if ow = Some True then ow else Some over) s2 = Inr (ow', s')"
      using 3(1) Suc.prems(5) by simp
    obtain s1 u where s1: "(table_step Alloc 3 virt)\<^sup>*\<^sup>* s s1" "pt_inv invar taken s1"
      "tab (pmem s1) (cr3 s1) (vpath virt d) = Some u"
      "s2 = s1\<lparr>pmem := (pmem s1)(entry_at u (pt_index (3 - d) virt) := e)\<rparr>"
      using 3(5) by blast
    have "tables_kept P K s s1"
      using table_steps_tables [OF s1(1) _ flags_3(1) _ own(1)] pt_invD(3) [OF Suc.prems(3)] by simp
    moreover have "tables_kept P K s1 s2"
    proof -
      have "keeps_top s1 s2"
        using store_top [OF s1(2) st(2) d st(4) s1(3) leaf] s1(4) by (simp add: keeps_top_def del: tab.simps)
      then show ?thesis
        using store_tables [OF s1(2) st(2,4) s1(3) leaf s1(4)] unfolding tables_kept_def by blast
    qed
    ultimately show ?thesis using Suc.IH [OF nx(2) s2 rest L own(2)] tables_kept_trans by blast
  qed
qed simp

end

end
