(* ===== verification/KernelMap.thy ===== *)
theory KernelMap
  imports TableOwners
begin

text \<open>
  The kernel's address space as its users see it, and GlobalMap as an implementation of it:
  an abstract address space gives every address the page it belongs to, mapped or only
  reserved; each operation of GlobalMap updates it on one run of pages. The invariant adds to
  \<open>gm_ok\<close> what the removal of pages needs: every page table either belongs to the physical
  allocator or is kept in use by addresses that are never given away (the set \<open>K\<close>: the
  identity map of the boot and what the boot mapped besides it).
\<close>

section \<open>The abstract address space\<close>

text \<open>A page has its depth, and if it is mapped the physical address of the byte and attributes.\<close>

datatype kpage = Mapped nat PhysAddr attributes | Reserved nat

type_synonym kspace = "VirtAddr \<Rightarrow> kpage option"

definition page_of :: "nat \<Rightarrow> u64 \<Rightarrow> VirtAddr \<Rightarrow> kpage" where
  "page_of d e va =
     (if present e \<and> 1 \<le> d then Mapped d (leaf_addr (3 - d) e va) (read_attributes e) else Reserved d)"

definition view :: "'a machine \<Rightarrow> kspace" where
  "view s va = (if canonical va \<and> va < UserEnd
     then map_option (\<lambda>(d, e). page_of d e va) (leaf s va) else None)"

definition on_run :: "nat \<Rightarrow> VirtAddr \<Rightarrow> nat \<Rightarrow> kspace \<Rightarrow> kspace \<Rightarrow> kspace" where
  "on_run d addr n B A = (\<lambda>va. if in_run d addr n va then B va else A va)"

definition map_run :: "nat \<Rightarrow> VirtAddr \<Rightarrow> nat \<Rightarrow> PhysAddr \<Rightarrow> attributes \<Rightarrow> kspace \<Rightarrow> kspace" where
  "map_run d addr n p a = on_run d addr n (\<lambda>va. Some (Mapped d (p + (va - addr)) (a\<lparr>cachable := True\<rparr>)))"

definition reserve_run :: "nat \<Rightarrow> VirtAddr \<Rightarrow> nat \<Rightarrow> kspace \<Rightarrow> kspace" where
  "reserve_run d addr n = on_run d addr n (\<lambda>_. Some (Reserved d))"

definition clear_run :: "nat \<Rightarrow> VirtAddr \<Rightarrow> nat \<Rightarrow> kspace \<Rightarrow> kspace" where
  "clear_run d addr n = on_run d addr n (\<lambda>_. None)"

text \<open>The translation of the processor is a function of the abstract space.\<close>

lemma view_translate:
  assumes "pt_inv ainv taken s" "canonical va" "va < UserEnd"
  shows "mmu_translate (pmem s) (cr3 s) va =
    (case view s va of Some (Mapped d p a) \<Rightarrow> Some p | _ \<Rightarrow> None)"
  using assms pt_invD(4) [OF assms(1)] mmu_walk_leaf_of [of "pmem s" "cr3 s" va]
  by (auto simp: view_def page_of_def mmu_translate_def leaf_def split: option.splits)

lemma view_cong: "(\<And>va. canonical va \<Longrightarrow> va < UserEnd \<Longrightarrow> leaf s' va = leaf s va) \<Longrightarrow> view s' = view s"
  by (rule ext) (simp add: view_def)

lemma view_Mapped_leaf:
  "view s w = Some (Mapped d p a) \<Longrightarrow> \<exists>e. leaf s w = Some (d, e) \<and> present e \<and> 1 \<le> d"
  by (auto simp: view_def page_of_def split: if_splits)

lemma leaf_view: "canonical va \<Longrightarrow> va < UserEnd \<Longrightarrow> leaf s va = None \<longleftrightarrow> view s va = None"
  by (simp add: view_def)

section \<open>Runs of leaves as updates\<close>

text \<open>Nothing larger than a page of depth \<open>d\<close> lies in the run.\<close>

definition fits :: "nat \<Rightarrow> VirtAddr \<Rightarrow> nat \<Rightarrow> 'a machine \<Rightarrow> bool" where
  "fits d addr n s \<longleftrightarrow> (\<forall>w k x. in_run d addr n w \<longrightarrow> leaf s w = Some (k, x) \<longrightarrow> d \<le> k)"

lemma view_leaf_run:
  assumes L: "leaf_run d addr n e s s'" and r: "run_ok d addr n" and f: "fits d addr n s"
    and B: "\<And>va. in_run d addr n va \<Longrightarrow> Some (page_of d (run_entry d addr e va) va) = B va"
  shows "view s' = on_run d addr n B (view s)"
proof
  fix va
  show "view s' va = on_run d addr n B (view s) va"
  proof (cases "in_run d addr n va")
    case True
    then have "canonical va" "va < UserEnd" using in_run_canonical [OF r] by auto
    then show ?thesis using leaf_runD(1) [OF L _ _ True] B [OF True] True by (simp add: view_def on_run_def)
  next
    case False
    have "\<not> run_lost d addr n s va"
      using f unfolding run_lost_def fits_def by (meson not_less)
    then show ?thesis
      using leaf_runD(2) [OF L _ _ False] False by (auto simp: view_def on_run_def)
  qed
qed

text \<open>The page of a run that holds an address.\<close>

lemma run_page:
  assumes r: "in_run d addr n va" and d: "d \<le> 3"
  defines "i \<equiv> (unat va - unat addr) div 2 ^ page_bits d"
  shows "i < n" "unat (of_nat i * level_size d) = i * 2 ^ page_bits d"
    "unat addr + i * 2 ^ page_bits d \<le> unat va" "unat va < unat addr + i * 2 ^ page_bits d + 2 ^ page_bits d"
proof -
  let ?P = "2 ^ page_bits d :: nat"
  have v: "unat addr \<le> unat va" "unat va < unat addr + n * ?P" using r by (simp_all add: in_run_def)
  then show "i < n" unfolding i_def by (intro less_mult_imp_div_less) simp
  have "i * ?P \<le> unat va - unat addr" unfolding i_def by simp
  moreover have "unat va - unat addr < i * ?P + ?P"
    unfolding i_def by (metis dividend_less_div_times zero_less_numeral zero_less_power add.commute)
  ultimately show "unat addr + i * ?P \<le> unat va" "unat va < unat addr + i * ?P + ?P" using v by simp_all
  then have lt: "i * ?P < 2 ^ 64" using unat_less_2p [of va] by simp
  have "i \<le> i * ?P" by simp
  then have "i < 2 ^ 64" using lt by (rule le_less_trans)
  then have "unat (of_nat i :: u64) = i" by (subst unat_of_nat) simp
  then show "unat (of_nat i * level_size d) = i * ?P"
    using lt unat_level_size [OF d] by (subst unat_mult_lem [THEN iffD1]) simp_all
qed

lemma attributes_or:
  assumes "is_frame p"
  shows "read_attributes (p OR CalcMask sz k a) = a\<lparr>cachable := True\<rparr>"
proof -
  have "\<not> bit p 63" "\<not> bit p 1" using is_frame_bit [OF assms, of 63] is_frame_bit [OF assms, of 1] by auto
  then show ?thesis by (simp add: read_attributes_def bit_or_iff CalcMask_bits)
qed

lemma run_entry_map:
  assumes r: "in_run d addr n va" "run_ok d addr n" and p: "frames_ok d p n" and f: "pframe f = 0" and d: "d \<le> 3"
  obtains q where "run_entry d addr (p OR f) va = q OR f" "is_frame q"
    "leaf_addr (3 - d) (q OR f) va = p + (va - addr)"
proof -
  let ?P = "2 ^ page_bits d :: nat"
  define i where "i = (unat va - unat addr) div ?P"
  define q where "q = p + of_nat i * level_size d"
  define v where "v = addr + of_nat i * level_size d"
  note I = run_page [OF r(1) d, folded i_def]
  have le: "i * ?P + ?P \<le> n * ?P" using I(1) by (metis Suc_leI add.commute mult_Suc mult_le_mono1)
  have pb: "unat p + n * ?P \<le> 2 ^ 52" "unat p mod ?P = 0" using p by (simp_all add: frames_ok_def)
  have uq: "unat q = unat p + i * ?P"
    unfolding q_def using pb(1) le I(2) by (subst unat_add_lem [THEN iffD1]) simp_all
  have uv: "unat v = unat addr + i * ?P"
    unfolding v_def using I(2,3) unat_less_2p [of va] by (subst unat_add_lem [THEN iffD1]) simp_all
  have fq: "frames_ok d q (Suc 0)" using uq pb le by (simp add: frames_ok_def mod_add_eq)
  have fp: "is_frame p"
    using p I(1) by (intro frames_frame [of d p "n - 1"]) simp
  have "run_entry d addr (p OR f) va = q OR f"
    using frame_or_flags [OF fp f] frame_or_flags [OF frames_frame [OF fq] f]
    by (simp add: run_entry_def i_def q_def)
  moreover have "leaf_addr (3 - d) (q OR f) va = q + (va - v)"
    using I uv r(2) by (intro run_leaf [OF fq f d]) (simp_all add: run_ok_def mod_add_eq)
  moreover have "q + (va - v) = p + (va - addr)" by (simp add: q_def v_def)
  ultimately show ?thesis using that frames_frame [OF fq] by simp
qed

lemma view_map_run:
  assumes L: "leaf_run d addr n (p OR CalcMask sz k a) s s'" and r: "run_ok d addr n" "fits d addr n s"
    and p: "frames_ok d p n" and d: "1 \<le> d"
  shows "view s' = map_run d addr n p a (view s)"
  unfolding map_run_def
proof (rule view_leaf_run [OF L r])
  fix va assume v: "in_run d addr n va"
  have d3: "d \<le> 3" using r(1) by (simp add: run_ok_def)
  obtain q where q: "run_entry d addr (p OR CalcMask sz k a) va = q OR CalcMask sz k a" "is_frame q"
    "leaf_addr (3 - d) (q OR CalcMask sz k a) va = p + (va - addr)"
    using run_entry_map [OF v r(1) p CalcMask_flags(1) d3] .
  then show "Some (page_of d (run_entry d addr (p OR CalcMask sz k a) va) va) =
      Some (Mapped d (p + (va - addr)) (a\<lparr>cachable := True\<rparr>))"
    using d attributes_or [OF q(2)] CalcMask_flags(2) by (simp add: page_of_def present_or)
qed

lemma view_reserve_run:
  assumes L: "leaf_run d addr n e s s'" and r: "run_ok d addr n" "fits d addr n s" and e: "\<not> present e"
  shows "view s' = reserve_run d addr n (view s)"
  unfolding reserve_run_def
proof (rule view_leaf_run [OF L r])
  fix va assume v: "in_run d addr n va"
  have "even (level_size d)" using r(1) level_size_even by (simp add: run_ok_def)
  then have "\<not> present (run_entry d addr e va)" using e by (simp add: present_odd run_entry_def)
  then show "Some (page_of d (run_entry d addr e va) va) = Some (Reserved d)" by (simp add: page_of_def)
qed

section \<open>Unmapping a run\<close>

lemma in_run_leaf_user: "run_ok d addr n \<Longrightarrow> in_run d addr n va \<Longrightarrow> user_va va"
  using in_run_canonical user_va_iff by blast

lemma Unset_find_leaf:
  assumes "fractal (pmem s) (cr3 s)"
  shows "n \<le> 3 \<Longrightarrow> tab (pmem s) (cr3 s) (vpath va (3 - n)) = Some t \<Longrightarrow>
    leaf_of (pmem s) t va n = Some (d, e) \<Longrightarrow> Unset_find s va n = Inr d"
proof (induction n arbitrary: t)
  case 0
  then show ?case by (simp add: Let_def split: if_splits)
next
  case (Suc n)
  have k: "2 - n = 3 - Suc n" "Suc (2 - n) = 3 - n" "2 - n \<le> 3" "3 - (2 - n) = Suc n" using Suc.prems(1) by auto
  let ?e = "pmem s (entry_at t (pt_index (Suc n) va))"
  have T: "tab (pmem s) (cr3 s) (vpath va (2 - n)) = Some t" using Suc.prems(2) unfolding k(1) .
  have r: "read_entry s va (2 - n) = Inr ?e" using read_entry_ok [OF assms T k(3)] unfolding k(4) .
  have F: "Unset_find s va (Suc n) = (if huge ?e then Inr (2 - n)
      else if \<not> present ?e then Inl (Panic ''PageTable::Unset() - no mapping found'')
      else Unset_find s va n)"
    using r by (simp add: huge_def present_def)
  show ?case
  proof (cases "huge ?e")
    case True
    then show ?thesis using F Suc.prems(3) by (simp add: Let_def)
  next
    case False
    then have p: "present ?e" "leaf_of (pmem s) (pframe ?e) va n = Some (d, e)"
      using Suc.prems(3) by (simp_all add: Let_def split: if_splits)
    have "tab (pmem s) (cr3 s) (vpath va (3 - n)) = Some (pframe ?e)"
      using T p(1) False unfolding k(2) [symmetric] vpath_Suc k(4) by (simp add: tab_snoc)
    from Suc.IH [OF _ this p(2)] Suc.prems(1) show ?thesis using F p(1) False by simp
  qed
qed

context page_pool
begin

lemma Unset_page:
  assumes t: "al_Free (allocator t) = Free" "pml4 t = cr3 s" and c: "noncritical c"
    and r: "run_ok d addr (Suc n)" and inv: "pt_inv invar taken s" "plain_tables s" "owned_tables pages K s"
    and l: "leaf s addr = Some (d, e)"
    and K: "\<And>w. w \<in> K \<Longrightarrow> user_va w \<and> leaf s w \<noteq> None \<and> \<not> same_page d addr w"
  obtains s' where "Unset c t s addr = Inr (True, s')" "pt_inv invar taken s'" "cr3 s' = cr3 s"
    "plain_tables s'" "owned_tables pages K s'" "fewer_tables s s'"
    "\<And>va. user_va va \<Longrightarrow> leaf s' va = (if same_page d addr va then None else leaf s va)"
proof -
  note st = run_start [OF r]
  have set: "IsSet t s" using t(2) by (simp add: IsSet_def GetPml4_def)
  have al: "addr AND 0xfff = 0"
  proof -
    have "2 ^ 12 dvd unat addr" using r page_bits_12 [of d] unfolding run_ok_def by (metis dvd_trans mod_0_imp_dvd)
    then have "\<not> bit addr k" if "k < 12" for k using bit_aligned [of addr 12 k] that by auto
    then show ?thesis unfolding mask_consts by (intro bit_word_eqI) (auto simp: bit_simps)
  qed
  have plain: "plain_path s addr 3" by (rule plain_tables_path [OF inv(2) st(2) order_refl])
  have pg: "pages_path pages s addr 3"
    using K l by (intro owned_tables_path [OF inv(3) st(2) order_refl]) simp
  have find: "Unset_find s addr 3 = Inr d"
    using Unset_find_leaf [OF pt_invD(1) [OF inv(1)], of 3 addr "cr3 s" d e] l by (simp add: leaf_def)
  from Unset_ok [OF t(1) set c st(2) al inv(1) plain pg, of K] find obtain k x s' where
    k: "Unset c t s addr = Inr (True, s')" "reaches s addr k x" "huge x \<or> k = 3"
    and s': "pt_inv invar taken s'" "cr3 s' = cr3 s" "plain_tables s \<longrightarrow> plain_tables s'"
      "owned_tables pages K s \<longrightarrow> owned_tables pages K s'" "fewer_tables s s'"
      "\<forall>va. user_va va \<longrightarrow> leaf s' va = (if same_page k addr va then None else leaf s va)"
    by auto
  have "k = d" using reaches_leaf [OF k(2,3)] l by (simp add: entry_leaf_def split: if_splits)
  then show ?thesis using that k(1) s' inv(2,3) by blast
qed

text \<open>The loop over a run of pages of the same size.\<close>

lemma unset_pages_ok:
  assumes t: "al_Free (allocator t) = Free" and c: "noncritical c"
  shows "run_ok d addr n \<Longrightarrow> pml4 t = cr3 s \<Longrightarrow> pt_inv invar taken s \<Longrightarrow> plain_tables s \<Longrightarrow>
    owned_tables pages K s \<Longrightarrow> (\<And>w. w \<in> K \<Longrightarrow> user_va w \<and> leaf s w \<noteq> None \<and> canonical w \<and> \<not> in_run d addr n w) \<Longrightarrow>
    (\<And>va. in_run d addr n va \<Longrightarrow> \<exists>e. leaf s va = Some (d, e)) \<Longrightarrow>
    \<exists>s'. unset_pages c t n addr (level_size d) s = Inr s' \<and> pt_inv invar taken s' \<and> cr3 s' = cr3 s
      \<and> plain_tables s' \<and> owned_tables pages K s' \<and> fewer_tables s s'
      \<and> (\<forall>va. canonical va \<longrightarrow> va < UserEnd \<longrightarrow> leaf s' va = (if in_run d addr n va then None else leaf s va))"
proof (induction n arbitrary: addr s)
  case 0
  then show ?case by (auto simp: in_run_def)
next
  case (Suc n)
  note st = run_start [OF Suc.prems(1)] and nx = run_next [OF Suc.prems(1)] and S = in_run_Suc [OF Suc.prems(1)]
  have "in_run d addr (Suc n) addr" by (simp add: in_run_def)
  then obtain e where l: "leaf s addr = Some (d, e)" using Suc.prems(7) by blast
  have K: "user_va w \<and> leaf s w \<noteq> None \<and> \<not> same_page d addr w" if "w \<in> K" for w
    using Suc.prems(6) [OF that] S by blast
  obtain s1 where s1: "Unset c t s addr = Inr (True, s1)" "pt_inv invar taken s1" "cr3 s1 = cr3 s"
    "plain_tables s1" "owned_tables pages K s1" "fewer_tables s s1"
    and l1: "\<And>va. user_va va \<Longrightarrow> leaf s1 va = (if same_page d addr va then None else leaf s va)"
    using Unset_page [OF t Suc.prems(2) c Suc.prems(1,3,4,5) l K] by blast
  have p: "pml4 t = cr3 s1" using Suc.prems(2) s1(3) by simp
  have K': "user_va w \<and> leaf s1 w \<noteq> None \<and> canonical w \<and> \<not> in_run d (addr + level_size d) n w" if "w \<in> K" for w
    using Suc.prems(6) [OF that] S K [OF that] l1 by auto
  have R': "\<exists>e. leaf s1 va = Some (d, e)" if v: "in_run d (addr + level_size d) n va" for va
  proof -
    have cv: "canonical va" "user_va va" using in_run_canonical [OF nx(2) v] user_va_iff by auto
    then show ?thesis using S v l1 Suc.prems(7) by auto
  qed
  from Suc.IH [OF nx(2) p s1(2,4,5) K' R'] obtain s' where
    s': "unset_pages c t n (addr + level_size d) (level_size d) s1 = Inr s'" "pt_inv invar taken s'"
      "cr3 s' = cr3 s1" "plain_tables s'" "owned_tables pages K s'" "fewer_tables s1 s'"
    and l': "\<forall>va. canonical va \<longrightarrow> va < UserEnd \<longrightarrow>
      leaf s' va = (if in_run d (addr + level_size d) n va then None else leaf s1 va)" by blast
  have "leaf s' va = (if in_run d addr (Suc n) va then None else leaf s va)" if "canonical va" "va < UserEnd" for va
    using l' that l1 S(1) [OF that(1)] user_va_iff [OF that(1)] by auto
  then show ?case using s1(1) s' s1(3) fewer_tables_trans [OF s1(6) s'(6)] by (simp del: Unset_def)
qed

end

section \<open>Operations\<close>

text \<open>The operations that change the kernel's map; only two answer an address.\<close>

datatype map_op =
    OpMap PhysAddr mm_size attributes | OpMapAt VirtAddr PhysAddr mm_size attributes
  | OpReserve mm_size | OpReserveAt VirtAddr mm_size
  | OpUnmap VirtAddr mm_size | OpUnmapAndReserve VirtAddr mm_size
  | OpUnreserve VirtAddr mm_size | OpRereserve VirtAddr mm_size u64

definition no_result :: "'a gmap res \<Rightarrow> (VirtAddr option \<times> 'a gmap) res" where
  "no_result r = bindE r (\<lambda>g. Inr (None, g))"

fun run_op :: "crit \<Rightarrow> map_op \<Rightarrow> 'a gmap \<Rightarrow> (VirtAddr option \<times> 'a gmap) res" where
  "run_op c (OpMap p sz a) g = GlobalMap_Map c g p sz a"
| "run_op c (OpMapAt addr p sz a) g = no_result (GlobalMap_MapAt c g addr p sz a)"
| "run_op c (OpReserve sz) g = GlobalMap_Reserve c g sz"
| "run_op c (OpReserveAt addr sz) g = no_result (GlobalMap_ReserveAt c g addr sz)"
| "run_op c (OpUnmap addr sz) g = no_result (GlobalMap_Unmap c g addr sz)"
| "run_op c (OpUnmapAndReserve addr sz) g = no_result (GlobalMap_UnmapAndReserve c g addr sz)"
| "run_op c (OpUnreserve addr sz) g = no_result (GlobalMap_Unreserve c g addr sz)"
| "run_op c (OpRereserve addr sz new) g = no_result (GlobalMap_Rereserve c g addr sz new)"

text \<open>The depth of a page size, and the run that a request names.\<close>

definition size_depth :: "u64 \<Rightarrow> nat" where
  "size_depth sz = (if sz = 0x1000 then 3 else if sz = 0x200000 then 2 else 1)"

abbreviation in_range :: "VirtAddr \<Rightarrow> mm_size \<Rightarrow> VirtAddr \<Rightarrow> bool" where
  "in_range addr sz \<equiv> in_run (size_depth (pageSize sz)) addr (unat (pageCount sz))"

definition good_size :: "mm_size \<Rightarrow> bool" where
  "good_size sz \<longleftrightarrow> pageSize sz \<in> {0x1000, 0x200000, 0x40000000} \<and> 0 < pageCount sz
     \<and> unat (pageCount sz) * unat (pageSize sz) \<le> 2 ^ 39"

definition good_range :: "VirtAddr \<Rightarrow> mm_size \<Rightarrow> bool" where
  "good_range addr sz \<longleftrightarrow> good_size sz \<and> addr mod pageSize sz = 0
     \<and> unat addr + unat (pageCount sz) * unat (pageSize sz) \<le> 2 ^ 39"

definition good_frames :: "PhysAddr \<Rightarrow> mm_size \<Rightarrow> bool" where
  "good_frames p sz \<longleftrightarrow> unat p mod unat (pageSize sz) = 0 \<and> unat p + unat (pageCount sz) * unat (pageSize sz) \<le> 2 ^ 52"

fun page_depth :: "kpage \<Rightarrow> nat" where
  "page_depth (Mapped d _ _) = d"
| "page_depth (Reserved d) = d"

text \<open>What a caller has to respect, on the abstract space and the region the finder offers.\<close>

definition nothing_larger :: "kspace \<Rightarrow> VirtAddr \<Rightarrow> mm_size \<Rightarrow> bool" where
  "nothing_larger A addr sz \<longleftrightarrow> (\<forall>va pg. in_range addr sz va \<longrightarrow> A va = Some pg \<longrightarrow> size_depth (pageSize sz) \<le> page_depth pg)"

definition same_pages :: "kspace \<Rightarrow> VirtAddr \<Rightarrow> mm_size \<Rightarrow> bool" where
  "same_pages A addr sz \<longleftrightarrow> (\<forall>va. in_range addr sz va \<longrightarrow> (\<exists>pg. A va = Some pg \<and> page_depth pg = size_depth (pageSize sz)))"

definition outside_finder :: "free_finder \<Rightarrow> VirtAddr \<Rightarrow> mm_size \<Rightarrow> bool" where
  "outside_finder f addr sz \<longleftrightarrow> (\<forall>va. unat (freeStart f) \<le> unat va \<longrightarrow> unat va < unat (freeStart f) + unat (freeSize f) \<longrightarrow>
     \<not> in_range addr sz va)"

definition spares :: "VirtAddr set \<Rightarrow> VirtAddr \<Rightarrow> mm_size \<Rightarrow> bool" where
  "spares K addr sz \<longleftrightarrow> (\<forall>w \<in> K. \<not> in_range addr sz w)"

fun op_allowed :: "VirtAddr set \<Rightarrow> free_finder \<Rightarrow> kspace \<Rightarrow> map_op \<Rightarrow> bool" where
  "op_allowed K f A (OpMap p sz a) \<longleftrightarrow> good_size sz \<and> good_frames p sz"
| "op_allowed K f A (OpMapAt addr p sz a) \<longleftrightarrow>
     good_range addr sz \<and> good_frames p sz \<and> nothing_larger A addr sz \<and> outside_finder f addr sz \<and> spares K addr sz"
| "op_allowed K f A (OpReserve sz) \<longleftrightarrow> good_size sz"
| "op_allowed K f A (OpReserveAt addr sz) \<longleftrightarrow> good_range addr sz \<and> nothing_larger A addr sz \<and> spares K addr sz"
| "op_allowed K f A (OpUnmap addr sz) \<longleftrightarrow> good_range addr sz \<and> same_pages A addr sz \<and> spares K addr sz"
| "op_allowed K f A (OpUnmapAndReserve addr sz) \<longleftrightarrow> good_range addr sz \<and> same_pages A addr sz \<and> spares K addr sz"
| "op_allowed K f A (OpUnreserve addr sz) \<longleftrightarrow> good_range addr sz \<and> same_pages A addr sz \<and> spares K addr sz"
| "op_allowed K f A (OpRereserve addr sz new) \<longleftrightarrow> good_range addr sz \<and> same_pages A addr sz \<and> spares K addr sz
     \<and> outside_finder f addr sz \<and> new \<in> {0x1000, 0x200000, 0x40000000} \<and> addr mod new = 0 \<and> Bytes sz mod new = 0"

text \<open>What the operations promise of the abstract space.\<close>

definition free_range :: "kspace \<Rightarrow> VirtAddr \<Rightarrow> mm_size \<Rightarrow> bool" where
  "free_range A addr sz \<longleftrightarrow> good_range addr sz \<and> (\<forall>va. in_range addr sz va \<longrightarrow> A va = None \<or> A va = Some (Reserved 3))"

abbreviation map_range :: "VirtAddr \<Rightarrow> mm_size \<Rightarrow> PhysAddr \<Rightarrow> attributes \<Rightarrow> kspace \<Rightarrow> kspace" where
  "map_range addr sz \<equiv> map_run (size_depth (pageSize sz)) addr (unat (pageCount sz))"

abbreviation reserve_range :: "VirtAddr \<Rightarrow> mm_size \<Rightarrow> kspace \<Rightarrow> kspace" where
  "reserve_range addr sz \<equiv> reserve_run (size_depth (pageSize sz)) addr (unat (pageCount sz))"

abbreviation clear_range :: "VirtAddr \<Rightarrow> mm_size \<Rightarrow> kspace \<Rightarrow> kspace" where
  "clear_range addr sz \<equiv> clear_run (size_depth (pageSize sz)) addr (unat (pageCount sz))"

fun op_spec :: "map_op \<Rightarrow> kspace \<Rightarrow> VirtAddr option \<Rightarrow> kspace \<Rightarrow> bool" where
  "op_spec (OpMap p sz a) A r A' \<longleftrightarrow> (case r of None \<Rightarrow> A' = A
     | Some addr \<Rightarrow> free_range A addr sz \<and> A' = map_range addr sz p a A)"
| "op_spec (OpMapAt addr p sz a) A r A' \<longleftrightarrow> A' = map_range addr sz p a A"
| "op_spec (OpReserve sz) A r A' \<longleftrightarrow> (case r of None \<Rightarrow> A' = A
     | Some addr \<Rightarrow> free_range A addr sz \<and> A' = reserve_range addr sz A)"
| "op_spec (OpReserveAt addr sz) A r A' \<longleftrightarrow> A' = reserve_range addr sz A"
| "op_spec (OpUnmap addr sz) A r A' \<longleftrightarrow> A' = clear_range addr sz A"
| "op_spec (OpUnmapAndReserve addr sz) A r A' \<longleftrightarrow> A' = reserve_range addr sz A"
| "op_spec (OpUnreserve addr sz) A r A' \<longleftrightarrow> A' = clear_range addr sz A"
| "op_spec (OpRereserve addr sz new) A r A' \<longleftrightarrow>
     A' = reserve_run (size_depth new) addr (unat (Bytes sz div new)) A"

end
