(* ===== verification/KernelMapProofs.thy ===== *)
theory KernelMapProofs
  imports KernelMap
begin

text \<open>
  GlobalMap implements the abstract address space of theory KernelMap: each operation, called
  as it is allowed, either ends in a panic of \<^verbatim>\<open>Set\<close> or keeps the invariant and does to the
  abstract space what the specification says.
\<close>

section \<open>Requests\<close>

lemma good_size_ok: "good_size sz \<Longrightarrow> size_ok sz (size_depth (pageSize sz))"
  by (auto simp: good_size_def size_ok_def size_depth_def CalcDepth_def)

lemma good_rangeD:
  assumes "good_range addr sz"
  shows "size_ok sz (size_depth (pageSize sz))" "run_ok (size_depth (pageSize sz)) addr (unat (pageCount sz))"
    "unat addr + unat (Bytes sz) \<le> 2 ^ 39" "addr mod pageSize sz = 0" "good_size sz"
    "unat (Bytes sz) = unat (pageCount sz) * 2 ^ page_bits (size_depth (pageSize sz))"
proof -
  have g: "good_size sz" "addr mod pageSize sz = 0"
    and le: "unat addr + unat (pageCount sz) * unat (pageSize sz) \<le> 2 ^ 39"
    using assms by (simp_all add: good_range_def)
  show s: "size_ok sz (size_depth (pageSize sz))" by (rule good_size_ok [OF g(1)])
  note S = size_okD [OF s]
  show "unat addr + unat (Bytes sz) \<le> 2 ^ 39" using le S(5,7) by simp
  then show "run_ok (size_depth (pageSize sz)) addr (unat (pageCount sz))" using kernel_run [OF s _ g(2)] by simp
qed (use assms size_okD(5) [OF good_size_ok] in \<open>simp_all add: good_range_def\<close>)

lemma good_framesD:
  "good_frames p sz \<Longrightarrow> good_size sz \<Longrightarrow> frames_ok (size_depth (pageSize sz)) p (unat (pageCount sz))"
  using size_okD(7) [OF good_size_ok, of sz] by (simp add: good_frames_def frames_ok_def)

lemma run_kernel: "good_range addr sz \<Longrightarrow> in_range addr sz va \<Longrightarrow> unat va < 2 ^ 39"
  using good_rangeD(3,6) [of addr sz] by (simp add: in_run_def)

text \<open>The same range in pages of another size.\<close>

lemma resized_range:
  assumes r: "good_range addr sz" and new: "new \<in> {0x1000, 0x200000, 0x40000000}"
    and al: "addr mod new = 0" "Bytes sz mod new = 0"
  defines "sz' \<equiv> \<lparr>pageSize = new, pageCount = Bytes sz div new\<rparr>"
  shows "good_range addr sz'" "in_range addr sz' va \<longleftrightarrow> in_range addr sz va"
proof -
  note R = good_rangeD [OF r]
  have un: "unat (Bytes sz div new) * unat new = unat (Bytes sz)"
    using al(2) by (metis add.right_neutral div_mult_mod_eq unat_0 unat_div unat_mod)
  have "0 < unat (Bytes sz)" using size_okD(6) [OF R(1)] by (simp add: word_less_nat_alt)
  then have "0 < unat (Bytes sz div new)" using un by (cases "unat (Bytes sz div new)") auto
  then show r': "good_range addr sz'"
    using new al(1) un R(3) by (auto simp: sz'_def good_range_def good_size_def word_less_nat_alt)
  show "in_range addr sz' va \<longleftrightarrow> in_range addr sz va"
    using good_rangeD(6) [OF r'] R(6) un size_okD(7) [OF good_rangeD(1) [OF r']] by (simp add: sz'_def in_run_def)
qed

lemma map_run_ends:
  assumes p: "frames_ok d p n" and f: "pframe f = 0" "present f" "d = 3 \<or> huge f" and d: "d \<le> 3"
  shows "run_ends d (p OR f) n"
  unfolding run_ends_def
proof (intro allI impI)
  fix i assume i: "i < n"
  have fp: "is_frame p" using p i by (intro frames_frame [of d p "n - 1"]) simp
  let ?x = "p + of_nat i * level_size d"
  have le: "i * 2 ^ page_bits d + 2 ^ page_bits d \<le> n * 2 ^ page_bits d"
    using i by (metis Suc_leI add.commute mult_Suc mult_le_mono1)
  have pb: "unat p + n * 2 ^ page_bits d \<le> 2 ^ 52" "unat p mod 2 ^ page_bits d = 0" using p by (simp_all add: frames_ok_def)
  have "i \<le> i * 2 ^ page_bits d" by simp
  moreover have "i * 2 ^ page_bits d \<le> 2 ^ 52" using le pb(1) by simp
  ultimately have "i \<le> 2 ^ 52" by (rule le_trans)
  then have "i < 2 ^ 64" by (rule le_less_trans) simp
  then have ui: "unat (of_nat i :: u64) = i" by (subst unat_of_nat) simp
  then have um: "unat (of_nat i * level_size d) = i * 2 ^ page_bits d"
    using unat_level_size [OF d] le pb(1) by (subst unat_mult_lem [THEN iffD1]) simp_all
  then have ux: "unat ?x = unat p + i * 2 ^ page_bits d"
    using le pb(1) by (subst unat_add_lem [THEN iffD1]) simp_all
  have "frames_ok d ?x (Suc 0)" using ux le pb by (simp add: frames_ok_def mod_add_eq)
  then have fx: "is_frame ?x" by (rule frames_frame)
  have "(p OR f) + of_nat i * level_size d = ?x OR f"
    using frame_or_flags [OF fp f(1)] frame_or_flags [OF fx f(1)] by simp
  then show "ends_walk d ((p OR f) + of_nat i * level_size d)"
    using f(2,3) present_or [of ?x f] by (auto simp: ends_walk_def huge_or)
qed

lemma ends_walk_leaf: "ends_walk d e \<Longrightarrow> leaf_entry e d"
  by (auto simp: ends_walk_def leaf_entry_def split: if_splits)

section \<open>The invariant\<close>

definition kmap_ok ::
    "VirtAddr set \<Rightarrow> ('a \<Rightarrow> bool) \<Rightarrow> ('a \<Rightarrow> PhysAddr set) \<Rightarrow> ('a \<Rightarrow> PhysAddr set) \<Rightarrow> crit \<Rightarrow> 'a gmap \<Rightarrow> bool" where
  "kmap_ok K ainv taken pages c g \<longleftrightarrow> gm_ok ainv taken c g
     \<and> plain_tables (mach g) \<and> owned_tables pages K (mach g)
     \<and> K \<noteq> {} \<and> (\<forall>w \<in> K. unat w < 2 ^ 39 \<and> (\<exists>pg. view (mach g) w = Some pg \<and> pg \<noteq> Reserved 3))
     \<and> tab (pmem (mach g)) (cr3 (mach g)) [0] = Some (gm_pdpt g)"

lemma kmap_okD:
  assumes "kmap_ok K ainv taken pages c g"
  shows "gm_ok ainv taken c g" "plain_tables (mach g)" "owned_tables pages K (mach g)"
    "w \<in> K \<Longrightarrow> unat w < 2 ^ 39" "w \<in> K \<Longrightarrow> \<exists>pg. view (mach g) w = Some pg \<and> pg \<noteq> Reserved 3"
    "tab (pmem (mach g)) (cr3 (mach g)) [0] = Some (gm_pdpt g)" "K \<noteq> {}"
  using assms unfolding kmap_ok_def by blast+

lemma kmap_ok_K:
  assumes "kmap_ok K ainv taken pages c g" "w \<in> K"
  shows "canonical w" "w < UserEnd" "user_va w" "leaf (mach g) w \<noteq> None"
proof -
  note B = kmap_okD [OF assms(1)]
  show c: "canonical w" "w < UserEnd" using kernel_addr [OF B(4) [OF assms(2)]] by auto
  show "user_va w" using user_va_iff [OF c(1)] c(2) by simp
  show "leaf (mach g) w \<noteq> None" using leaf_view [OF c, of "mach g"] B(5) [OF assms(2)] by fastforce
qed

text \<open>What only the tables and the allocator decide.\<close>

definition same_tables :: "'a machine \<Rightarrow> 'a machine \<Rightarrow> bool" where
  "same_tables s s' \<longleftrightarrow> pmem s' = pmem s \<and> cr3 s' = cr3 s \<and> alst s' = alst s"

lemma same_tables_facts:
  assumes "same_tables s s'"
  shows "view s' = view s" "leaf s' = leaf s" "plain_tables s' = plain_tables s"
    "owned_tables pages K s' = owned_tables pages K s" "pt_inv ainv tk s' = pt_inv ainv tk s"
    "finder_ok s' f = finder_ok s f" "keeps_top s s'"
proof -
  have e: "pmem s' = pmem s" "cr3 s' = cr3 s" "alst s' = alst s" using assms by (simp_all add: same_tables_def)
  show l: "leaf s' = leaf s" by (rule ext) (simp add: leaf_def e)
  then show "view s' = view s" by (intro ext) (simp add: view_def)
  show "plain_tables s' = plain_tables s" "owned_tables pages K s' = owned_tables pages K s"
    "pt_inv ainv tk s' = pt_inv ainv tk s" "keeps_top s s'"
    by (simp_all add: plain_tables_def owned_tables_def pt_inv_def keeps_top_def e)
  show "finder_ok s' f = finder_ok s f" by (simp add: finder_ok_def unmapped_def vacant_def l e)
qed

lemma same_tables_kept: "same_tables s s' \<Longrightarrow> tables_kept P K s s'"
  using same_tables_facts(3,4,7) by (fastforce simp: tables_kept_def)

lemma kmap_ok_step:
  assumes g: "kmap_ok K ainv taken pages c g" and g': "gm_ok ainv taken c g'"
    and T: "plain_tables (mach g')" "owned_tables pages K (mach g')"
      "tab (pmem (mach g')) (cr3 (mach g')) [0] = Some (gm_pdpt g)" "gm_pdpt g' = gm_pdpt g"
    and V: "\<And>w. w \<in> K \<Longrightarrow> view (mach g') w = view (mach g) w"
  shows "kmap_ok K ainv taken pages c g'"
  using kmap_okD [OF g] g' T V unfolding kmap_ok_def by simp

lemma top_path: "user_path [0 :: u64]"
  by (simp add: user_path_def)

lemma kmap_ok_kept:
  assumes g: "kmap_ok K ainv taken pages c g" and g': "gm_ok ainv taken c g'"
    and T: "tables_kept pages K (mach g) (mach g')" and p: "gm_pdpt g' = gm_pdpt g"
    and V: "\<And>w. w \<in> K \<Longrightarrow> view (mach g') w = view (mach g) w"
  shows "kmap_ok K ainv taken pages c g'"
proof (rule kmap_ok_step [OF g g' _ _ _ p V])
  note B = kmap_okD [OF g]
  show "plain_tables (mach g')" "owned_tables pages K (mach g')" using T B(2,3) by (simp_all add: tables_kept_def)
  show "tab (pmem (mach g')) (cr3 (mach g')) [0] = Some (gm_pdpt g)"
    using T B(6) top_path unfolding tables_kept_def keeps_top_def by blast
qed

section \<open>Adding runs\<close>

context page_source
begin

lemma gm_SetList_tables:
  assumes t: "al_Alloc (allocator (pageTable g)) = Alloc" and g: "gm_ok invar taken c g"
    and sz: "size_ok sz d" and run: "run_ok d addr (unat (pageCount sz))"
    and e: "run_ends d e (unat (pageCount sz))"
    and r: "gm_SetList c g addr e sz = Inr g'" and own: "owners invar Alloc P K (Collect (in_run d addr (unat (pageCount sz))))"
  shows "tables_kept P K (mach g) (mach g')"
proof -
  note G = gm_okD [OF g] and S = size_okD [OF sz]
  have d: "CalcDepth (pageSize sz) = Inr d" using sz by (simp add: size_ok_def)
  obtain ow s' where L: "SetList_loop c (pageTable g) (unat (pageCount sz)) addr e (level_size d) 3 d None (mach g) = Inr (ow, s')"
    "g' = g\<lparr>mach := s'\<rparr>"
  proof -
    have L: "SetList c (pageTable g) (mach g) addr e sz 3 = SetList_loop c (pageTable g)
        (unat (pageCount sz)) addr e (level_size d) 3 d None (mach g)"
      using G(1,2) d S(1) by (simp add: SetList_def)
    show ?thesis
    proof (cases "SetList_loop c (pageTable g) (unat (pageCount sz)) addr e (level_size d) 3 d None (mach g)")
      case (Inl flt)
      then show ?thesis using r L by (simp add: gm_SetList_def)
    next
      case (Inr x)
      then have "g\<lparr>mach := snd x\<rparr> = g'" using r L by (simp add: gm_SetList_def split_def)
      then show ?thesis using that [of "fst x" "snd x"] Inr by simp
    qed
  qed
  have leaves: "\<forall>i < unat (pageCount sz). leaf_entry (e + of_nat i * level_size d) d"
    using e ends_walk_leaf unfolding run_ends_def by blast
  from SetList_loop_tables [OF t G(1) S(2) run G(6,3) leaves L(1) own] L(2) show ?thesis by simp
qed

end

context page_pool
begin

text \<open>A run that was added keeps the invariant, when it spares what must stay.\<close>

lemma kmap_ok_SetList:
  assumes g: "kmap_ok K invar taken pages c g" and g': "gm_ok invar taken c g'"
    and t: "al_Alloc (allocator (pageTable g)) = Alloc" and sz: "size_ok sz d"
    and run: "run_ok d addr (unat (pageCount sz))" and e: "run_ends d e (unat (pageCount sz))"
    and r: "gm_SetList c (g\<lparr>freeFinder := f\<rparr>) addr e sz = Inr g1"
    and m: "same_tables (mach g1) (mach g')" "gm_pdpt g' = gm_pdpt g1"
    and v: "view (mach g') = on_run d addr (unat (pageCount sz)) B (view (mach g))"
    and K: "\<And>w. w \<in> K \<Longrightarrow> \<not> in_run d addr (unat (pageCount sz)) w"
    and f: "finder_ok (mach g) f"
  shows "kmap_ok K invar taken pages c g'"
proof -
  note B = kmap_okD [OF g]
  have gf: "gm_ok invar taken c (g\<lparr>freeFinder := f\<rparr>)" using B(1) f by (simp add: gm_ok_def)
  have t': "al_Alloc (allocator (pageTable (g\<lparr>freeFinder := f\<rparr>))) = Alloc" using t by simp
  have "tables_kept pages K (mach g) (mach g1)"
    using gm_SetList_tables [OF t' gf sz run e r owners_pages [of K]] by simp
  then have T: "tables_kept pages K (mach g) (mach g')" using same_tables_kept [OF m(1)] by (rule tables_kept_trans)
  have "gm_pdpt g1 = gm_pdpt g" using r by (auto simp: gm_SetList_def bindE_def split: sum.splits)
  with m(2) show ?thesis by (intro kmap_ok_kept [OF g g' T]) (simp_all add: v on_run_def K)
qed

end

lemma leaf_view_depth:
  assumes "leaf s w = Some (k, x)" "canonical w" "w < UserEnd"
  shows "\<exists>pg. view s w = Some pg \<and> page_depth pg = k"
  using assms by (auto simp: view_def page_of_def)

lemma view_leaf_depth:
  assumes "view s w = Some pg"
  shows "\<exists>x. leaf s w = Some (page_depth pg, x)"
  using assms by (auto simp: view_def page_of_def split: if_splits)

lemma fits_range:
  assumes "nothing_larger (view s) addr sz" "good_range addr sz"
  shows "fits (size_depth (pageSize sz)) addr (unat (pageCount sz)) s"
  unfolding fits_def
proof (intro allI impI)
  fix w k x assume w: "in_range addr sz w" and l: "leaf s w = Some (k, x)"
  have "canonical w" "w < UserEnd" using in_run_canonical [OF good_rangeD(2) [OF assms(2)] w] by auto
  from leaf_view_depth [OF l this] show "size_depth (pageSize sz) \<le> k"
    using assms(1) w unfolding nothing_larger_def by blast
qed

lemma vacant_view:
  assumes "vacant s va" "unat va < 2 ^ 39" "pt_inv ainv tk s"
  shows "view s va = None \<or> view s va = Some (Reserved 3)"
proof (cases "view s va")
  case (Some pg)
  note c = kernel_addr [OF assms(2)]
  obtain x where x: "leaf s va = Some (page_depth pg, x)" using view_leaf_depth [OF Some] by blast
  then have "page_depth pg = 3" using assms(1) by (simp add: vacant_def)
  moreover have "pg \<noteq> Mapped d p a" for d p a
    using view_translate [OF assms(3), of va] c assms(1) Some by (auto simp: vacant_def)
  ultimately show ?thesis using Some by (cases pg) auto
qed simp

text \<open>A chunk that the finder gave is free in the abstract space.\<close>

lemma chunk_free:
  assumes ch: "chunk_ok s f sz addr" and sz: "good_size sz" and al: "addr mod pageSize sz = 0"
    and inv: "pt_inv ainv tk s"
  shows "free_range (view s) addr sz" "fits (size_depth (pageSize sz)) addr (unat (pageCount sz)) s"
    "good_range addr sz"
proof -
  note S = size_okD [OF good_size_ok [OF sz]]
  have C: "unmapped s addr (Bytes sz)" "unat addr + unat (Bytes sz) \<le> 2 ^ 39" using ch by (simp_all add: chunk_ok_def)
  show g: "good_range addr sz" using sz al C(2) S(5,7) by (simp add: good_range_def)
  have v: "vacant s va" "unat va < 2 ^ 39" if "in_range addr sz va" for va
  proof -
    show "unat va < 2 ^ 39" by (rule run_kernel [OF g that])
    show "vacant s va" using C(1) that S(5) unfolding unmapped_def in_run_def by simp
  qed
  then show "free_range (view s) addr sz" using vacant_view [OF _ _ inv] g unfolding free_range_def by blast
  show "fits (size_depth (pageSize sz)) addr (unat (pageCount sz)) s"
    unfolding fits_def using v(1) S(3) unfolding vacant_def by blast
qed

lemma free_spares:
  assumes "kmap_ok K ainv taken pages c g" "free_range (view (mach g)) addr sz" "w \<in> K"
  shows "\<not> in_range addr sz w"
  using kmap_okD(5) [OF assms(1,3)] assms(2) unfolding free_range_def by fastforce

lemma kmap_ok_finder:
  assumes "kmap_ok K ainv taken pages c g" "gm_ok ainv taken c (g\<lparr>freeFinder := f\<rparr>)"
  shows "kmap_ok K ainv taken pages c (g\<lparr>freeFinder := f\<rparr>)"
  using assms by (simp add: kmap_ok_def)

abbreviation map_faults :: "fault set" where
  "map_faults \<equiv> insert (AssertFail ''!(addr % size)'') set_panics"

definition op_done ::
    "VirtAddr set \<Rightarrow> ('a \<Rightarrow> bool) \<Rightarrow> ('a \<Rightarrow> PhysAddr set) \<Rightarrow> ('a \<Rightarrow> PhysAddr set) \<Rightarrow> crit \<Rightarrow> map_op \<Rightarrow> 'a gmap
     \<Rightarrow> (VirtAddr option \<times> 'a gmap) res \<Rightarrow> bool" where
  "op_done K ainv taken pages c op g r \<longleftrightarrow> (case r of Inl flt \<Rightarrow> flt \<in> map_faults
     | Inr (a, g') \<Rightarrow> kmap_ok K ainv taken pages c g' \<and> pageTable g' = pageTable g
         \<and> op_spec op (view (mach g)) a (view (mach g')))"

context page_source
begin

text \<open>The two operations on which the mapping of fresh memory rests, whoever owns the tables.\<close>

lemma MapAt_done:
  assumes t: "al_Alloc (allocator (pageTable g)) = Alloc" and g: "gm_ok invar taken c g"
    and A: "good_range addr sz" "good_frames p sz" "nothing_larger (view (mach g)) addr sz"
      "outside_finder (freeFinder g) addr sz"
  shows "(\<exists>flt \<in> set_panics. GlobalMap_MapAt c g addr p sz attrs = Inl flt) \<or>
    (\<exists>g'. GlobalMap_MapAt c g addr p sz attrs = Inr g' \<and> gm_ok invar taken c g' \<and> pageTable g' = pageTable g
       \<and> freeFinder g' = freeFinder g \<and> gm_pdpt g' = gm_pdpt g
       \<and> taken (alst (mach g)) \<subseteq> taken (alst (mach g'))
       \<and> view (mach g') = map_range addr sz p attrs (view (mach g))
       \<and> (\<forall>P K. owners invar Alloc P K (Collect (in_range addr sz)) \<longrightarrow> tables_kept P K (mach g) (mach g')))"
proof -
  let ?d = "size_depth (pageSize sz)" and ?n = "unat (pageCount sz)" and ?e = "p OR CalcMask (pageSize sz) True attrs"
  note R = good_rangeD [OF A(1)] and F = good_framesD [OF A(2) R(5)] and S = size_okD [OF R(1)]
  have out: "\<not> in_run ?d addr ?n va" if "unat (freeStart (freeFinder g)) \<le> unat va"
    "unat va < unat (freeStart (freeFinder g)) + unat (freeSize (freeFinder g))" for va
    using A(4) that unfolding outside_finder_def by blast
  from GlobalMap_MapAt_ok [OF t g R(1) F R(2) out, of attrs] show ?thesis
  proof
    assume "\<exists>g'. GlobalMap_MapAt c g addr p sz attrs = Inr g' \<and> gm_ok invar taken c g'
       \<and> linear_map ?d addr p ?n (mach g) (mach g')
       \<and> last (invlpgs (mach g')) = (addr, Bytes sz) \<and> pageTable g' = pageTable g \<and> freeFinder g' = freeFinder g
       \<and> taken (alst (mach g)) \<subseteq> taken (alst (mach g')) \<and> leaf_run ?d addr ?n ?e (mach g) (mach g')"
    then obtain g' where g': "GlobalMap_MapAt c g addr p sz attrs = Inr g'" "gm_ok invar taken c g'"
      "pageTable g' = pageTable g" "freeFinder g' = freeFinder g" "taken (alst (mach g)) \<subseteq> taken (alst (mach g'))"
      "leaf_run ?d addr ?n ?e (mach g) (mach g')" by blast
    obtain g1 where g1: "gm_SetList c g addr ?e sz = Inr g1" "g' = gm_Invlpg g1 addr sz"
      using g'(1) gm_okD(1) [OF g]
      by (cases "gm_SetList c g addr ?e sz") (auto simp: GlobalMap_MapAt_def)
    have V: "view (mach g') = map_run ?d addr ?n p attrs (view (mach g))"
      by (rule view_map_run [OF g'(6) R(2) fits_range [OF A(3,1)] F S(2)])
    have ends: "run_ends ?d ?e ?n" by (rule map_run_ends [OF F CalcMask_flags(1,2) size_ok_flags [OF R(1)] S(3)])
    have st: "same_tables (mach g1) (mach g')" "gm_pdpt g' = gm_pdpt g1"
      using g1(2) by (simp_all add: gm_Invlpg_def same_tables_def DistributeInvlpg_def)
    have "gm_pdpt g1 = gm_pdpt g" using g1(1) by (auto simp: gm_SetList_def bindE_def split: sum.splits)
    moreover have "tables_kept P K (mach g) (mach g')" if "owners invar Alloc P K (Collect (in_range addr sz))" for P K
      using gm_SetList_tables [OF t g R(1,2) ends g1(1) that] same_tables_kept [OF st(1)] by (rule tables_kept_trans)
    ultimately show ?thesis using g' V st(2) by auto
  qed (assumption | rule disjI1)+
qed

lemma Reserve_done:
  assumes t: "al_Alloc (allocator (pageTable g)) = Alloc" and g: "gm_ok invar taken c g" and A: "good_size sz"
  shows "(\<exists>flt \<in> set_panics. GlobalMap_Reserve c g sz = Inl flt) \<or>
    (\<exists>f. GlobalMap_Reserve c g sz = Inr (None, g\<lparr>freeFinder := f\<rparr>) \<and> gm_ok invar taken c (g\<lparr>freeFinder := f\<rparr>)) \<or>
    (\<exists>addr g'. GlobalMap_Reserve c g sz = Inr (Some addr, g') \<and> gm_ok invar taken c g' \<and> pageTable g' = pageTable g
       \<and> gm_pdpt g' = gm_pdpt g \<and> taken (alst (mach g)) \<subseteq> taken (alst (mach g'))
       \<and> free_range (view (mach g)) addr sz \<and> unat (freeStart (freeFinder g')) = unat addr + unat (Bytes sz)
       \<and> view (mach g') = reserve_range addr sz (view (mach g))
       \<and> (\<forall>P K. owners invar Alloc P K (Collect (in_range addr sz)) \<longrightarrow> tables_kept P K (mach g) (mach g')))"
proof (cases "GlobalMap_Reserve c g sz")
  case (Inl flt)
  then show ?thesis using GlobalMap_Reserve_ok [OF t g good_size_ok [OF A]] by auto
next
  case (Inr x)
  let ?d = "size_depth (pageSize sz)" and ?n = "unat (pageCount sz)" and ?e = "reserve_entry (pageSize sz)"
  note Z = good_size_ok [OF A]
  have ps: "0 < pageSize sz" "unat (pageSize sz) \<le> 2 ^ 60" using A by (auto simp: good_size_def)
  obtain r g' where x: "x = (r, g')" by fastforce
  have g': "gm_ok invar taken c g'" "pageTable g' = pageTable g" "taken (alst (mach g)) \<subseteq> taken (alst (mach g'))"
    "\<And>addr. r = Some addr \<Longrightarrow> addr mod pageSize sz = 0 \<and> chunk_ok (mach g) (freeFinder g') sz addr
       \<and> leaf_run ?d addr ?n ?e (mach g) (mach g')"
    using GlobalMap_Reserve_ok [OF t g Z] Inr x by auto
  show ?thesis
  proof (cases r)
    case None
    obtain f where "g' = g\<lparr>freeFinder := f\<rparr>"
      using Inr x None by (auto simp: GlobalMap_Reserve_def bindE_def Let_def split: sum.splits option.splits)
    then show ?thesis using g'(1) Inr x None by auto
  next
    case (Some addr)
    obtain f where f: "FreeFinder_Alloc c (pageTable g) (mach g) (freeFinder g) (Bytes sz) (pageSize sz) = Inr (Some addr, f)"
      "gm_SetList c (g\<lparr>freeFinder := f\<rparr>) addr ?e sz = Inr g'"
      using Inr x Some by (auto simp: GlobalMap_Reserve_def bindE_def Let_def split: sum.splits option.splits)
    have P: "addr mod pageSize sz = 0" "chunk_ok (mach g) (freeFinder g') sz addr" "leaf_run ?d addr ?n ?e (mach g) (mach g')"
      using g'(4) [OF Some] by blast+
    note C = chunk_free [OF P(2) A P(1) gm_okD(3) [OF g]]
    note R = good_rangeD [OF C(3)]
    have V: "view (mach g') = reserve_run ?d addr ?n (view (mach g))"
      by (rule view_reserve_run [OF P(3) R(2) C(2) reserve_entry_absent [OF Z]])
    have "finder_ok (mach g) f"
      using FreeFinder_Alloc_ok [OF gm_okD(5,4) [OF g] ps size_okD(6) [OF Z]] f(1) by auto
    then have gf: "gm_ok invar taken c (g\<lparr>freeFinder := f\<rparr>)" using g by (simp add: gm_ok_def)
    have t': "al_Alloc (allocator (pageTable (g\<lparr>freeFinder := f\<rparr>))) = Alloc" using t by simp
    have "tables_kept P K (mach g) (mach g')" if "owners invar Alloc P K (Collect (in_range addr sz))" for P K
      using gm_SetList_tables [OF t' gf Z R(2) reserve_entry_ends [OF Z] f(2) that] by simp
    moreover have "gm_pdpt g' = gm_pdpt g" using f(2) by (auto simp: gm_SetList_def bindE_def split: sum.splits)
    moreover have "unat (freeStart (freeFinder g')) = unat addr + unat (Bytes sz)" using P(2) by (simp add: chunk_ok_def)
    ultimately show ?thesis using Inr x Some g'(1-3) V C(1) by auto
  qed
qed

end

context page_pool
begin

lemma op_MapAt:
  assumes t: "al_Alloc (allocator (pageTable g)) = Alloc" and g: "kmap_ok K invar taken pages c g"
    and a: "op_allowed K (freeFinder g) (view (mach g)) (OpMapAt addr p sz attrs)"
  shows "op_done K invar taken pages c (OpMapAt addr p sz attrs) g (run_op c (OpMapAt addr p sz attrs) g)"
proof -
  have A: "good_range addr sz" "good_frames p sz" "nothing_larger (view (mach g)) addr sz"
    "outside_finder (freeFinder g) addr sz" "spares K addr sz" using a by simp_all
  from MapAt_done [OF t kmap_okD(1) [OF g] A(1-4), of attrs] show ?thesis
  proof (elim disjE exE conjE)
    fix g' assume g': "GlobalMap_MapAt c g addr p sz attrs = Inr g'" "gm_ok invar taken c g'" "pageTable g' = pageTable g"
        "gm_pdpt g' = gm_pdpt g" and V: "view (mach g') = map_range addr sz p attrs (view (mach g))"
      and T: "\<forall>P K. owners invar Alloc P K (Collect (in_range addr sz)) \<longrightarrow> tables_kept P K (mach g) (mach g')"
    have "view (mach g') w = view (mach g) w" if "w \<in> K" for w
      using A(5) that unfolding V spares_def map_run_def on_run_def by simp
    from kmap_ok_kept [OF g g'(2) _ g'(4) this] show ?thesis
      using T owners_pages g'(1,3) V by (simp add: op_done_def no_result_def)
  qed (auto simp: op_done_def no_result_def)
qed

text \<open>The two operations that take their addresses from the finder.\<close>

lemma finder_result:
  assumes g: "gm_ok invar taken c g" and sz: "size_ok sz d" and al: "0 < align" "unat align \<le> 2 ^ 60"
    and r: "FreeFinder_Alloc c (pageTable g) (mach g) (freeFinder g) (Bytes sz) align = Inr (x, f)"
  shows "finder_ok (mach g) f"
  using FreeFinder_Alloc_ok [OF gm_okD(5,4) [OF g] al size_okD(6) [OF sz]] r by auto

lemma op_Map:
  assumes t: "al_Alloc (allocator (pageTable g)) = Alloc" and g: "kmap_ok K invar taken pages c g"
    and a: "op_allowed K (freeFinder g) (view (mach g)) (OpMap p sz attrs)"
  shows "op_done K invar taken pages c (OpMap p sz attrs) g (run_op c (OpMap p sz attrs) g)"
proof -
  let ?d = "size_depth (pageSize sz)" and ?n = "unat (pageCount sz)" and ?e = "p OR CalcMask (pageSize sz) True attrs"
  have A: "good_size sz" "good_frames p sz" using a by simp_all
  note B = kmap_okD [OF g] and Z = good_size_ok [OF A(1)] and F = good_framesD [OF A(2,1)]
  note S = size_okD [OF Z]
  have ps: "0 < pageCount sz" "unat (pageCount sz) \<le> 2 ^ 60"
  proof -
    show "0 < pageCount sz" by (rule S(4))
    have "unat (pageCount sz) \<le> unat (Bytes sz)" using S(5) by simp
    then show "unat (pageCount sz) \<le> 2 ^ 60" using S(8) by simp
  qed
  from GlobalMap_Map_ok [OF t B(1) Z F, of attrs] show ?thesis
  proof (elim disjE)
    assume "\<exists>flt\<in>map_faults. GlobalMap_Map c g p sz attrs = Inl flt"
    then show ?thesis by (auto simp: op_done_def)
  next
    assume "\<exists>g'. GlobalMap_Map c g p sz attrs = Inr (None, g') \<and> gm_ok invar taken c g' \<and> mach g' = mach g"
    then obtain g' where g': "GlobalMap_Map c g p sz attrs = Inr (None, g')" "gm_ok invar taken c g'" by blast
    obtain f where "g' = g\<lparr>freeFinder := f\<rparr>"
      using g'(1) by (auto simp: GlobalMap_Map_def bindE_def Let_def split: sum.splits option.splits)
    then show ?thesis using g' kmap_ok_finder [OF g] by (simp add: op_done_def)
  next
    assume "\<exists>addr g'. GlobalMap_Map c g p sz attrs = Inr (Some addr, g') \<and> gm_ok invar taken c g'
       \<and> chunk_ok (mach g) (freeFinder g') sz addr \<and> linear_map ?d addr p ?n (mach g) (mach g')
       \<and> leaf_run ?d addr ?n ?e (mach g) (mach g')"
    then obtain addr g' where g': "GlobalMap_Map c g p sz attrs = Inr (Some addr, g')" "gm_ok invar taken c g'"
      "chunk_ok (mach g) (freeFinder g') sz addr" "leaf_run ?d addr ?n ?e (mach g) (mach g')" by blast
    obtain f where f: "FreeFinder_Alloc c (pageTable g) (mach g) (freeFinder g) (Bytes sz) (pageCount sz) = Inr (Some addr, f)"
      "gm_SetList c (g\<lparr>freeFinder := f\<rparr>) addr ?e sz = Inr g'"
      using g'(1) by (auto simp: GlobalMap_Map_def bindE_def Let_def split: sum.splits option.splits)
    have al: "addr mod pageSize sz = 0"
      using SetList_misaligned [of c "g\<lparr>freeFinder := f\<rparr>" sz ?d addr ?e] gm_okD(1,2) [OF B(1)] Z f(2) by auto
    note C = chunk_free [OF g'(3) A(1) al gm_okD(3) [OF B(1)]]
    note R = good_rangeD [OF C(3)]
    have V: "view (mach g') = map_run ?d addr ?n p attrs (view (mach g))"
      by (rule view_map_run [OF g'(4) R(2) C(2) F S(2)])
    have ends: "run_ends ?d ?e ?n" by (rule map_run_ends [OF F CalcMask_flags(1,2) size_ok_flags [OF Z] S(3)])
    have st: "same_tables (mach g') (mach g')" by (simp add: same_tables_def)
    have pt: "pageTable g' = pageTable g"
      using f(2) by (auto simp: gm_SetList_def bindE_def split: sum.splits)
    from kmap_ok_SetList [OF g g'(2) t Z R(2) ends f(2) st refl V [unfolded map_run_def] free_spares [OF g C(1)]
        finder_result [OF B(1) Z ps f(1)]]
    show ?thesis using g'(1) V C(1) pt by (simp add: op_done_def)
  qed
qed

lemma op_Reserve:
  assumes t: "al_Alloc (allocator (pageTable g)) = Alloc" and g: "kmap_ok K invar taken pages c g"
    and a: "op_allowed K (freeFinder g) (view (mach g)) (OpReserve sz)"
  shows "op_done K invar taken pages c (OpReserve sz) g (run_op c (OpReserve sz) g)"
proof -
  have "good_size sz" using a by simp
  from Reserve_done [OF t kmap_okD(1) [OF g] this] show ?thesis
  proof (elim disjE exE conjE)
    fix f assume "GlobalMap_Reserve c g sz = Inr (None, g\<lparr>freeFinder := f\<rparr>)" "gm_ok invar taken c (g\<lparr>freeFinder := f\<rparr>)"
    then show ?thesis using kmap_ok_finder [OF g] by (simp add: op_done_def)
  next
    fix addr g' assume g': "GlobalMap_Reserve c g sz = Inr (Some addr, g')" "gm_ok invar taken c g'"
        "pageTable g' = pageTable g" "gm_pdpt g' = gm_pdpt g"
      and C: "free_range (view (mach g)) addr sz" and V: "view (mach g') = reserve_range addr sz (view (mach g))"
      and T: "\<forall>P K. owners invar Alloc P K (Collect (in_range addr sz)) \<longrightarrow> tables_kept P K (mach g) (mach g')"
    have "view (mach g') w = view (mach g) w" if "w \<in> K" for w
      using free_spares [OF g C that] unfolding V reserve_run_def on_run_def by simp
    from kmap_ok_kept [OF g g'(2) _ g'(4) this] show ?thesis
      using T owners_pages g'(1,3) V C by (simp add: op_done_def)
  qed (auto simp: op_done_def)
qed

end

section \<open>Reserving a given range\<close>

lemma finder_ok_vacant:
  assumes f: "finder_ok s f" and v: "\<And>va. unat (freeStart f) \<le> unat va \<Longrightarrow>
      unat va < unat (freeStart f) + unat (freeSize f) \<Longrightarrow> unat va < 2 ^ 39 \<Longrightarrow> vacant s va \<Longrightarrow> vacant s' va"
  shows "finder_ok s' f"
proof -
  have F: "unat (freeStart f) + unat (freeSize f) \<le> 2 ^ 39" "unmapped s (freeStart f) (freeSize f)"
    using f by (simp_all add: finder_ok_def)
  have "vacant s' va" if "unat (freeStart f) \<le> unat va \<and> unat va < unat (freeStart f) + unat (freeSize f)" for va
    using F that by (intro v) (auto simp: unmapped_def)
  then show ?thesis using F(1) by (simp add: finder_ok_def unmapped_def)
qed

lemma view_vacant:
  assumes "pt_inv ainv tk s" "unat va < 2 ^ 39" "view s va = None \<or> view s va = Some (Reserved 3)"
  shows "vacant s va"
proof -
  note c = kernel_addr [OF assms(2)]
  have "mmu_translate (pmem s) (cr3 s) va = None"
    using view_translate [OF assms(1), of va] c assms(3) by auto
  moreover have "k = 3" if "leaf s va = Some (k, x)" for k x
    using leaf_view_depth [OF that] c assms(3) by auto
  ultimately show ?thesis by (simp add: vacant_def)
qed

lemma kmap_ok_cong:
  assumes "kmap_ok K ainv taken pages c g" "gm_ok ainv taken c g'" "same_tables (mach g) (mach g')" "gm_pdpt g' = gm_pdpt g"
  shows "kmap_ok K ainv taken pages c g'"
  using assms same_tables_facts(1,3,4) [OF assms(3)] unfolding kmap_ok_def same_tables_def by simp

context page_pool
begin

lemma reserve_given:
  assumes t: "al_Alloc (allocator (pageTable g)) = Alloc" and g: "kmap_ok K invar taken pages c g"
    and f: "finder_ok (mach g) f" and r: "good_range addr sz" and fits: "nothing_larger (view (mach g)) addr sz"
    and K: "spares K addr sz"
    and out: "size_depth (pageSize sz) = 3 \<or> outside_finder f addr sz"
  shows "(\<exists>flt \<in> set_panics. gm_SetList c (g\<lparr>freeFinder := f\<rparr>) addr (reserve_entry (pageSize sz)) sz = Inl flt) \<or>
    (\<exists>s'. gm_SetList c (g\<lparr>freeFinder := f\<rparr>) addr (reserve_entry (pageSize sz)) sz = Inr (g\<lparr>freeFinder := f, mach := s'\<rparr>)
       \<and> kmap_ok K invar taken pages c (g\<lparr>freeFinder := f, mach := s'\<rparr>)
       \<and> view s' = reserve_range addr sz (view (mach g)))"
proof -
  let ?d = "size_depth (pageSize sz)" and ?n = "unat (pageCount sz)" and ?e = "reserve_entry (pageSize sz)"
  let ?g = "g\<lparr>freeFinder := f\<rparr>"
  note B = kmap_okD [OF g] and R = good_rangeD [OF r]
  note G = gm_okD [OF B(1)]
  have t': "al_Alloc (allocator (pageTable ?g)) = Alloc" using t by simp
  have g': "IsSet (pageTable ?g) (mach ?g)" "pt_inv invar taken (mach ?g)" using G(2,3) by simp_all
  from gm_SetList_reserve [OF t' G(1) g' R(1,2) reserve_entry_absent [OF R(1)] reserve_entry_ends [OF R(1)]]
  show ?thesis
  proof
    assume "\<exists>s'. gm_SetList c ?g addr ?e sz = Inr (?g\<lparr>mach := s'\<rparr>) \<and> pt_inv invar taken s'
       \<and> cr3 s' = cr3 (mach ?g) \<and> same_outside ?d addr ?n (mach ?g) s'
       \<and> taken (alst (mach ?g)) \<subseteq> taken (alst s') \<and> leaf_run ?d addr ?n ?e (mach ?g) s'"
    then obtain s' where s': "gm_SetList c ?g addr ?e sz = Inr (?g\<lparr>mach := s'\<rparr>)" "pt_inv invar taken s'"
      "cr3 s' = cr3 (mach g)" "leaf_run ?d addr ?n ?e (mach g) s'" by auto
    have V: "view s' = reserve_run ?d addr ?n (view (mach g))"
      by (rule view_reserve_run [OF s'(4) R(2) fits_range [OF fits r] reserve_entry_absent [OF R(1)]])
    have "finder_ok s' f"
    proof (rule finder_ok_vacant [OF f])
      fix va assume va: "unat (freeStart f) \<le> unat va" "unat va < unat (freeStart f) + unat (freeSize f)"
        "unat va < 2 ^ 39" "vacant (mach g) va"
      have "view s' va = None \<or> view s' va = Some (Reserved 3)"
        using V out va(1,2) vacant_view [OF va(4,3) G(3)] by (auto simp: reserve_run_def on_run_def outside_finder_def)
      then show "vacant s' va" by (rule view_vacant [OF s'(2) va(3)])
    qed
    then have ok: "gm_ok invar taken c (?g\<lparr>mach := s'\<rparr>)"
      using G(1,2) s'(2,3) by (simp add: gm_ok_def IsSet_def)
    have st: "same_tables (mach (?g\<lparr>mach := s'\<rparr>)) (mach (?g\<lparr>mach := s'\<rparr>))" by (simp add: same_tables_def)
    have V': "view (mach (?g\<lparr>mach := s'\<rparr>)) = on_run ?d addr ?n (\<lambda>_. Some (Reserved ?d)) (view (mach g))"
      using V by (simp add: reserve_run_def)
    have K': "\<not> in_run ?d addr ?n w" if "w \<in> K" for w using K that unfolding spares_def by blast
    from kmap_ok_SetList [OF g ok t R(1,2) reserve_entry_ends [OF R(1)] s'(1) st refl V' K' f]
    show ?thesis using s'(1) V by auto
  qed auto
qed

lemma op_ReserveAt:
  assumes t: "al_Alloc (allocator (pageTable g)) = Alloc" and g: "kmap_ok K invar taken pages c g"
    and a: "op_allowed K (freeFinder g) (view (mach g)) (OpReserveAt addr sz)"
  shows "op_done K invar taken pages c (OpReserveAt addr sz) g (run_op c (OpReserveAt addr sz) g)"
proof -
  have A: "good_range addr sz" "nothing_larger (view (mach g)) addr sz" "spares K addr sz" using a by simp_all
  note B = kmap_okD [OF g] and R = good_rangeD [OF A(1)]
  let ?f = "FreeFinder_Reserve (freeFinder g) addr (Bytes sz)"
  have lim: "unat addr + unat (Bytes sz) < 2 ^ 64" using R(3) by simp
  have f: "finder_ok (mach g) ?f" by (rule FreeFinder_Reserve_ok [OF gm_okD(4) [OF B(1)] lim])
  have "outside_finder ?f addr sz"
    using FreeFinder_Reserve_region [OF _ lim, of "freeFinder g"] gm_okD(4) [OF B(1)] R(6)
    by (auto simp: finder_ok_def in_run_def outside_finder_def)
  have run: "run_op c (OpReserveAt addr sz) g =
      no_result (gm_SetList c (g\<lparr>freeFinder := ?f\<rparr>) addr (reserve_entry (pageSize sz)) sz)"
    using gm_okD(1) [OF B(1)] by (simp add: GlobalMap_ReserveAt_def)
  from reserve_given [OF t g f A disjI2 [OF \<open>outside_finder ?f addr sz\<close>]] show ?thesis
    unfolding run by (elim disjE bexE exE conjE) (auto simp: op_done_def no_result_def)
qed

end

section \<open>Unmapping\<close>

lemma tab_prefix_path: "tab m r (vpath w d) = Some u \<Longrightarrow> j \<le> d \<Longrightarrow> \<exists>x. tab m r (vpath w j) = Some x"
proof (induction d arbitrary: u)
  case (Suc d)
  then show ?case by (cases "j = Suc d") (auto simp: vpath_Suc tab_snoc_Some)
qed simp

lemma kernel_slot: "unat w < 2 ^ 39 \<Longrightarrow> vpath w 1 = [0]"
proof -
  assume "unat w < 2 ^ 39"
  then have "pt_index 3 w = 0"
    unfolding pt_index_def mask_consts using bit_less_exp [of w 39] by (intro bit_word_eqI) (force simp: bit_simps)
  then show ?thesis by (simp add: vpath_def)
qed

text \<open>The table of the kernel's half stays while something in it is mapped.\<close>

lemma pdpt_stays:
  assumes g: "kmap_ok K ainv taken pages c g" and f: "fewer_tables (mach g) s'" and w: "w \<in> K"
    and v: "view s' w = view (mach g) w"
  shows "tab (pmem s') (cr3 s') [0] = Some (gm_pdpt g)"
proof -
  note B = kmap_okD [OF g]
  obtain pg where pg: "view (mach g) w = Some pg" using B(5) [OF w] by blast
  obtain x where x: "leaf (mach g) w = Some (page_depth pg, x)" using view_leaf_depth [OF pg] by blast
  have d: "1 \<le> page_depth pg"
  proof (rule ccontr)
    assume "\<not> 1 \<le> page_depth pg"
    then have "page_depth pg = 0" by simp
    with x obtain u where "tab (pmem (mach g)) (cr3 (mach g)) (vpath w 0) = Some u"
      "x = pmem (mach g) (entry_at u (pt_index (3 - 0) w))" "ends_walk 0 x"
      unfolding leaf_def by (elim leaf_of_SomeD) simp
    then have "huge (pmem (mach g) (entry_at (cr3 (mach g)) (pt_index 3 w)))" by (simp add: ends_walk_def)
    moreover have "pt_index 3 w = 0" using kernel_slot [OF B(4) [OF w]] by (simp add: vpath_def)
    ultimately show False using B(6) by (simp add: Let_def split: if_splits)
  qed
  obtain y where "leaf s' w = Some (page_depth pg, y)" using view_leaf_depth [of s' w] v pg by metis
  then obtain u where "tab (pmem s') (cr3 s') (vpath w (page_depth pg)) = Some u"
    unfolding leaf_def by (elim leaf_of_SomeD)
  then obtain x where x: "tab (pmem s') (cr3 s') [0] = Some x"
    using tab_prefix_path [OF _ d] kernel_slot [OF B(4) [OF w]] by metis
  then have "tab (pmem (mach g)) (cr3 (mach g)) [0] = Some x"
    using f top_path unfolding fewer_tables_def by blast
  with B(6) have "x = gm_pdpt g" by (metis option.inject)
  then show ?thesis using x by (simp del: tab.simps)
qed

context page_pool
begin

lemma gm_unset_ok:
  assumes t: "al_Free (allocator (pageTable g)) = Free" and g: "kmap_ok K invar taken pages c g"
    and r: "good_range addr sz" and sp: "same_pages (view (mach g)) addr sz" and K: "spares K addr sz"
  shows "\<exists>s'. gm_unset c g addr sz = Inr (g\<lparr>mach := s'\<rparr>) \<and> kmap_ok K invar taken pages c (g\<lparr>mach := s'\<rparr>)
    \<and> view s' = clear_range addr sz (view (mach g))"
proof -
  let ?d = "size_depth (pageSize sz)" and ?n = "unat (pageCount sz)"
  note B = kmap_okD [OF g] and R = good_rangeD [OF r]
  note G = gm_okD [OF B(1)] and S = size_okD [OF R(1)]
  have KK: "user_va w \<and> leaf (mach g) w \<noteq> None \<and> canonical w \<and> \<not> in_run ?d addr ?n w" if "w \<in> K" for w
    using kmap_ok_K [OF g that] K that unfolding spares_def by blast
  have L: "\<exists>e. leaf (mach g) va = Some (?d, e)" if va: "in_run ?d addr ?n va" for va
  proof -
    obtain pg where pg: "view (mach g) va = Some pg" "page_depth pg = ?d"
      using sp va unfolding same_pages_def by blast
    then show ?thesis using view_leaf_depth [OF pg(1)] by simp
  qed
  obtain s' where s': "unset_pages c (pageTable g) ?n addr (level_size ?d) (mach g) = Inr s'"
    "pt_inv invar taken s'" "cr3 s' = cr3 (mach g)" "plain_tables s'" "owned_tables pages K s'"
    "fewer_tables (mach g) s'"
    and l: "\<And>va. canonical va \<Longrightarrow> va < UserEnd \<Longrightarrow> leaf s' va = (if in_run ?d addr ?n va then None else leaf (mach g) va)"
    using unset_pages_ok [OF t G(1) R(2) G(6,3) B(2,3) KK L] by blast
  have V: "view s' = clear_run ?d addr ?n (view (mach g))"
    by (rule ext) (simp add: view_def clear_run_def on_run_def l)
  have KV: "view s' w = view (mach g) w" if "w \<in> K" for w
    using V KK [OF that] by (simp add: clear_run_def on_run_def)
  have "finder_ok s' (freeFinder g)"
  proof (rule finder_ok_vacant [OF G(4)])
    fix va assume va: "unat va < 2 ^ 39" "vacant (mach g) va"
    have "view s' va = None \<or> view s' va = Some (Reserved 3)"
      using V vacant_view [OF va(2,1) G(3)] by (auto simp: clear_run_def on_run_def)
    then show "vacant s' va" by (rule view_vacant [OF s'(2) va(1)])
  qed
  then have ok: "gm_ok invar taken c (g\<lparr>mach := s'\<rparr>)" using G(1,2) s'(2,3) by (simp add: gm_ok_def IsSet_def)
  obtain w where w: "w \<in> K" using B(7) by blast
  have v: "view s' w = view (mach g) w" by (rule KV [OF w])
  have "kmap_ok K invar taken pages c (g\<lparr>mach := s'\<rparr>)"
  proof (rule kmap_ok_step [OF g ok])
    show "plain_tables (mach (g\<lparr>mach := s'\<rparr>))" "owned_tables pages K (mach (g\<lparr>mach := s'\<rparr>))" using s'(4,5) by simp_all
    show "tab (pmem (mach (g\<lparr>mach := s'\<rparr>))) (cr3 (mach (g\<lparr>mach := s'\<rparr>))) [0] = Some (gm_pdpt g)"
      using pdpt_stays [OF g s'(6) w v] by (simp del: tab.simps)
  qed (simp_all add: KV)
  moreover have "gm_unset c g addr sz = Inr (g\<lparr>mach := s'\<rparr>)" using s'(1) S(1) by (simp add: gm_unset_def)
  ultimately show ?thesis using V by blast
qed

text \<open>Unmap and Unreserve, which give the addresses back to the finder.\<close>

lemma unmap_range:
  assumes t: "al_Free (allocator (pageTable g)) = Free" and g: "kmap_ok K invar taken pages c g"
    and r: "good_range addr sz" "same_pages (view (mach g)) addr sz" "spares K addr sz"
  shows "\<exists>g'. GlobalMap_Unmap c g addr sz = Inr g' \<and> kmap_ok K invar taken pages c g' \<and> pageTable g' = pageTable g
    \<and> view (mach g') = clear_range addr sz (view (mach g))"
proof -
  obtain s' where s': "gm_unset c g addr sz = Inr (g\<lparr>mach := s'\<rparr>)" "kmap_ok K invar taken pages c (g\<lparr>mach := s'\<rparr>)"
    "view s' = clear_range addr sz (view (mach g))" using gm_unset_ok [OF t g r] by blast
  note R = good_rangeD [OF r(1)] and G = gm_okD [OF kmap_okD(1) [OF s'(2)]]
  let ?f = "FreeFinder_Free (freeFinder g) addr (Bytes sz)" and ?s = "DistributeInvlpg s' addr (Bytes sz)"
  have st: "same_tables s' ?s" by (simp add: same_tables_def DistributeInvlpg_def)
  have un: "unmapped s' addr (Bytes sz)"
    unfolding unmapped_def
  proof (intro allI impI)
    fix va :: u64 assume va: "unat addr \<le> unat va \<and> unat va < unat addr + unat (Bytes sz)"
    then have "in_range addr sz va" using R(6) by (simp add: in_run_def)
    then have "view s' va = None" by (simp add: s'(3) clear_run_def on_run_def)
    moreover have "unat va < 2 ^ 39" using va R(3) by simp
    moreover have "pt_inv invar taken s'" using G(3) by simp
    ultimately show "vacant s' va" by (intro view_vacant) simp_all
  qed
  have "finder_ok s' (freeFinder g)" using G(4) by simp
  from FreeFinder_Free_ok [OF this un R(3)] have f: "finder_ok ?s ?f" using same_tables_facts(6) [OF st] by simp
  let ?g = "g\<lparr>freeFinder := ?f, mach := ?s\<rparr>"
  have run: "GlobalMap_Unmap c g addr sz = Inr ?g"
    using G(1) s'(1) by (simp add: GlobalMap_Unmap_def Let_def gm_Invlpg_def)
  have "gm_ok invar taken c ?g"
    using kmap_okD(1) [OF s'(2)] f same_tables_facts(5) [OF st]
    by (simp add: gm_ok_def IsSet_def DistributeInvlpg_def)
  then have "kmap_ok K invar taken pages c ?g"
    using kmap_ok_cong [OF s'(2), of ?g] st by (simp add: same_tables_def)
  then show ?thesis using run s'(3) same_tables_facts(1) [OF st] by auto
qed

lemma op_Unmap:
  assumes t: "al_Free (allocator (pageTable g)) = Free" and g: "kmap_ok K invar taken pages c g"
  shows "op_allowed K (freeFinder g) (view (mach g)) (OpUnmap addr sz) \<Longrightarrow>
      op_done K invar taken pages c (OpUnmap addr sz) g (run_op c (OpUnmap addr sz) g)"
    and "op_allowed K (freeFinder g) (view (mach g)) (OpUnreserve addr sz) \<Longrightarrow>
      op_done K invar taken pages c (OpUnreserve addr sz) g (run_op c (OpUnreserve addr sz) g)"
proof -
  note n = gm_okD(1) [OF kmap_okD(1) [OF g]]
  assume "op_allowed K (freeFinder g) (view (mach g)) (OpUnmap addr sz)"
  then show "op_done K invar taken pages c (OpUnmap addr sz) g (run_op c (OpUnmap addr sz) g)"
    using unmap_range [OF t g, of addr sz] by (auto simp: op_done_def no_result_def)
next
  note n = gm_okD(1) [OF kmap_okD(1) [OF g]]
  assume "op_allowed K (freeFinder g) (view (mach g)) (OpUnreserve addr sz)"
  then show "op_done K invar taken pages c (OpUnreserve addr sz) g (run_op c (OpUnreserve addr sz) g)"
    using unmap_range [OF t g, of addr sz] n by (auto simp: op_done_def no_result_def GlobalMap_Unreserve_def)
qed

text \<open>Unmapping a range and reserving it again, maybe in pages of another size.\<close>

lemma unset_reserve:
  assumes t: "al_Alloc (allocator (pageTable g)) = Alloc" "al_Free (allocator (pageTable g)) = Free"
    and g: "kmap_ok K invar taken pages c g"
    and r: "good_range addr sz" "same_pages (view (mach g)) addr sz" "spares K addr sz"
    and r': "good_range addr sz'" "\<And>va. in_range addr sz' va \<longleftrightarrow> in_range addr sz va"
    and out: "size_depth (pageSize sz') = 3 \<or> outside_finder (freeFinder g) addr sz"
  shows "\<exists>g1. gm_unset c g addr sz = Inr g1 \<and>
    ((\<exists>flt \<in> set_panics. gm_SetList c g1 addr (reserve_entry (pageSize sz')) sz' = Inl flt) \<or>
     (\<exists>g2. gm_SetList c g1 addr (reserve_entry (pageSize sz')) sz' = Inr g2
       \<and> kmap_ok K invar taken pages c (gm_Invlpg g2 addr sz) \<and> pageTable (gm_Invlpg g2 addr sz) = pageTable g
       \<and> view (mach (gm_Invlpg g2 addr sz)) = reserve_range addr sz' (view (mach g))))"
proof -
  obtain s' where s': "gm_unset c g addr sz = Inr (g\<lparr>mach := s'\<rparr>)" "kmap_ok K invar taken pages c (g\<lparr>mach := s'\<rparr>)"
    "view s' = clear_range addr sz (view (mach g))" using gm_unset_ok [OF t(2) g r] by blast
  let ?g1 = "g\<lparr>mach := s'\<rparr>"
  have a: "al_Alloc (allocator (pageTable ?g1)) = Alloc" using t(1) by simp
  have f: "finder_ok (mach ?g1) (freeFinder g)" using gm_okD(4) [OF kmap_okD(1) [OF s'(2)]] by simp
  have nl: "nothing_larger (view (mach ?g1)) addr sz'"
    using s'(3) r'(2) by (simp add: nothing_larger_def clear_run_def on_run_def)
  have sp: "spares K addr sz'" using r(3) r'(2) by (simp add: spares_def)
  have o: "size_depth (pageSize sz') = 3 \<or> outside_finder (freeFinder g) addr sz'"
    using out r'(2) by (simp add: outside_finder_def)
  have e: "?g1\<lparr>freeFinder := freeFinder g\<rparr> = ?g1" by simp
  have V: "reserve_range addr sz' (clear_range addr sz (view (mach g))) = reserve_range addr sz' (view (mach g))"
    by (rule ext) (simp add: reserve_run_def clear_run_def on_run_def r'(2))
  from reserve_given [OF a s'(2) f r'(1) nl sp o, unfolded e] show ?thesis
  proof
    assume "\<exists>flt\<in>set_panics. gm_SetList c ?g1 addr (reserve_entry (pageSize sz')) sz' = Inl flt"
    then show ?thesis using s'(1) by blast
  next
    assume "\<exists>s''. gm_SetList c ?g1 addr (reserve_entry (pageSize sz')) sz' = Inr (?g1\<lparr>mach := s''\<rparr>)
       \<and> kmap_ok K invar taken pages c (?g1\<lparr>mach := s''\<rparr>)
       \<and> view s'' = reserve_range addr sz' (view (mach ?g1))"
    then obtain g2 where g2: "gm_SetList c ?g1 addr (reserve_entry (pageSize sz')) sz' = Inr g2"
      "kmap_ok K invar taken pages c g2" "pageTable g2 = pageTable g"
      "view (mach g2) = reserve_range addr sz' (view (mach g))"
      using s'(3) V by auto
    have st: "same_tables (mach g2) (mach (gm_Invlpg g2 addr sz))"
      by (simp add: same_tables_def gm_Invlpg_def DistributeInvlpg_def)
    have "gm_ok invar taken c (gm_Invlpg g2 addr sz)"
      using kmap_okD(1) [OF g2(2)] same_tables_facts(5,6) [OF st]
      by (simp add: gm_ok_def IsSet_def gm_Invlpg_def DistributeInvlpg_def)
    then have "kmap_ok K invar taken pages c (gm_Invlpg g2 addr sz)"
      by (rule kmap_ok_cong [OF g2(2) _ st]) (simp add: gm_Invlpg_def)
    then show ?thesis using s'(1) g2(1,3,4) same_tables_facts(1) [OF st] by (auto simp: gm_Invlpg_def)
  qed
qed

lemma op_UnmapAndReserve:
  assumes t: "al_Alloc (allocator (pageTable g)) = Alloc" "al_Free (allocator (pageTable g)) = Free"
    and g: "kmap_ok K invar taken pages c g"
    and a: "op_allowed K (freeFinder g) (view (mach g)) (OpUnmapAndReserve addr sz)"
  shows "op_done K invar taken pages c (OpUnmapAndReserve addr sz) g (run_op c (OpUnmapAndReserve addr sz) g)"
proof -
  have A: "good_range addr sz" "same_pages (view (mach g)) addr sz" "spares K addr sz" using a by simp_all
  note G = gm_okD [OF kmap_okD(1) [OF g]]
  have "outside_finder (freeFinder g) addr sz" if d: "size_depth (pageSize sz) \<noteq> 3"
    unfolding outside_finder_def
  proof (intro allI impI notI)
    fix va assume va: "unat (freeStart (freeFinder g)) \<le> unat va"
      "unat va < unat (freeStart (freeFinder g)) + unat (freeSize (freeFinder g))" "in_range addr sz va"
    obtain pg where pg: "view (mach g) va = Some pg" "page_depth pg = size_depth (pageSize sz)"
      using A(2) va(3) unfolding same_pages_def by blast
    have "vacant (mach g) va" using G(4) va(1,2) by (simp add: finder_ok_def unmapped_def)
    then show False using vacant_view [OF _ run_kernel [OF A(1) va(3)] G(3)] pg d by auto
  qed
  then have o: "size_depth (pageSize sz) = 3 \<or> outside_finder (freeFinder g) addr sz" by blast
  from unset_reserve [OF t g A A(1) refl o] G(1) show ?thesis
    by (auto simp: op_done_def no_result_def GlobalMap_UnmapAndReserve_def)
qed

lemma op_Rereserve:
  assumes t: "al_Alloc (allocator (pageTable g)) = Alloc" "al_Free (allocator (pageTable g)) = Free"
    and g: "kmap_ok K invar taken pages c g"
    and a: "op_allowed K (freeFinder g) (view (mach g)) (OpRereserve addr sz new)"
  shows "op_done K invar taken pages c (OpRereserve addr sz new) g (run_op c (OpRereserve addr sz new) g)"
proof -
  have A: "good_range addr sz" "same_pages (view (mach g)) addr sz" "spares K addr sz"
    and out: "outside_finder (freeFinder g) addr sz" and new: "new \<in> {0x1000, 0x200000, 0x40000000}"
    and al: "addr mod new = 0" "Bytes sz mod new = 0" using a by simp_all
  note G = gm_okD [OF kmap_okD(1) [OF g]] and R = resized_range [OF A(1) new al]
  let ?sz = "\<lparr>pageSize = new, pageCount = Bytes sz div new\<rparr>"
  have "op_spec (OpRereserve addr sz new) A None (reserve_range addr ?sz A)" for A by simp
  moreover have "umod (Bytes sz) new = Inr 0" using new al(2) by (auto simp: umod_def)
  moreover note unset_reserve [OF t g A R disjI2 [OF out]] G(1)
  ultimately show ?thesis
    using al(1) by (auto simp: op_done_def no_result_def GlobalMap_Rereserve_def Let_def)
qed

text \<open>Every operation.\<close>

lemma run_op_done:
  assumes t: "al_Alloc (allocator (pageTable g)) = Alloc" "al_Free (allocator (pageTable g)) = Free"
    and g: "kmap_ok K invar taken pages c g" and a: "op_allowed K (freeFinder g) (view (mach g)) op"
  shows "op_done K invar taken pages c op g (run_op c op g)"
  using a op_Map [OF t(1) g] op_MapAt [OF t(1) g] op_Reserve [OF t(1) g] op_ReserveAt [OF t(1) g]
    op_Unmap [OF t(2) g] op_UnmapAndReserve [OF t g] op_Rereserve [OF t g]
  by (cases op) blast+

end

end
