(* ===== verification/BootMap.thy ===== *)
theory BootMap
  imports BootAlloc BootProofs KernelMapProofs
begin

text \<open>
  How the boot maps memory of its own before the buddy allocator exists: \<^verbatim>\<open>AllocAndMap\<close> of
  \<^verbatim>\<open>BuddyAllocator::InitializeCluster\<close> on the step allocator. No table of that time ever belongs
  to the later allocator; each is in use by an address that the boot mapped and nobody may unmap.
\<close>

section \<open>The map during the boot\<close>

definition boot_ok ::
    "VirtAddr set \<Rightarrow> ('a \<Rightarrow> bool) \<Rightarrow> ('a \<Rightarrow> PhysAddr set) \<Rightarrow> PhysAddr \<Rightarrow> crit \<Rightarrow> 'a gmap \<Rightarrow> bool" where
  "boot_ok X ainv taken p3 c g \<longleftrightarrow> gm_ok ainv taken c g \<and> plain_tables (mach g)
     \<and> owned_tables (\<lambda>_. {}) X (mach g) \<and> (\<forall>w \<in> X. unat w < 2 ^ 39)
     \<and> tab (pmem (mach g)) (cr3 (mach g)) [0] = Some p3"

text \<open>Every address of \<open>X\<close> has a page that the free finder never gives away.\<close>

definition firm :: "VirtAddr set \<Rightarrow> kspace \<Rightarrow> bool" where
  "firm X A \<longleftrightarrow> (\<forall>w \<in> X. \<exists>pg. A w = Some pg \<and> pg \<noteq> Reserved 3)"

lemma boot_okD:
  assumes "boot_ok X ainv taken p3 c g"
  shows "gm_ok ainv taken c g" "plain_tables (mach g)" "owned_tables (\<lambda>_. {}) X (mach g)"
    "w \<in> X \<Longrightarrow> unat w < 2 ^ 39" "tab (pmem (mach g)) (cr3 (mach g)) [0] = Some p3"
  using assms unfolding boot_ok_def by blast+

lemma owned_more: "owned_tables P X s \<Longrightarrow> X \<subseteq> Y \<Longrightarrow> owned_tables P Y s"
  unfolding owned_tables_def by blast

lemma boot_ok_more:
  "boot_ok X ainv taken p3 c g \<Longrightarrow> X \<subseteq> Y \<Longrightarrow> (\<And>w. w \<in> Y \<Longrightarrow> unat w < 2 ^ 39) \<Longrightarrow> boot_ok Y ainv taken p3 c g"
  unfolding boot_ok_def using owned_more by blast

lemma boot_ok_kept:
  assumes g: "boot_ok X ainv taken p3 c g" and g': "gm_ok ainv taken c g'" and T: "tables_kept (\<lambda>_. {}) X (mach g) (mach g')"
  shows "boot_ok X ainv taken p3 c g'"
proof -
  note B = boot_okD [OF g]
  have "tab (pmem (mach g')) (cr3 (mach g')) [0] = Some p3"
    using T B(5) top_path unfolding tables_kept_def keeps_top_def by blast
  moreover have "plain_tables (mach g')" "owned_tables (\<lambda>_. {}) X (mach g')" using T B(2,3) by (simp_all add: tables_kept_def)
  ultimately show ?thesis using g' B(4) unfolding boot_ok_def by blast
qed

text \<open>The allocator alone changes.\<close>

lemma boot_ok_alloc:
  assumes g: "boot_ok X ainv taken p3 c g" and a: "ainv a" "taken (alst (mach g)) \<subseteq> taken a"
  defines "g' \<equiv> g\<lparr>mach := (mach g)\<lparr>alst := a\<rparr>\<rparr>"
  shows "boot_ok X ainv taken p3 c g'" "view (mach g') = view (mach g)"
proof -
  note B = boot_okD [OF g]
  note G = gm_okD [OF B(1)]
  have "pt_inv ainv taken (mach g')" using G(3) a by (auto simp: g'_def pt_inv_def)
  moreover have "finder_ok (mach g') (freeFinder g')"
    using G(4) by (simp add: g'_def finder_ok_def unmapped_def vacant_def leaf_def)
  ultimately have "gm_ok ainv taken c g'" using G(1,2) by (simp add: g'_def gm_ok_def IsSet_def)
  then show "boot_ok X ainv taken p3 c g'"
    by (rule boot_ok_kept [OF g]) (simp add: g'_def tables_kept_def plain_tables_def owned_tables_def keeps_top_def)
  show "view (mach g') = view (mach g)" by (rule ext) (simp add: g'_def view_def leaf_def)
qed

text \<open>
  A map that has grown from \<open>g\<close>: more addresses are mapped for good, and those of \<open>X\<close> as before.
\<close>

definition boot_grown ::
    "VirtAddr set \<Rightarrow> ('a \<Rightarrow> bool) \<Rightarrow> ('a \<Rightarrow> PhysAddr set) \<Rightarrow> PhysAddr \<Rightarrow> crit \<Rightarrow> 'a gmap \<Rightarrow> VirtAddr set \<Rightarrow> 'a gmap \<Rightarrow> bool" where
  "boot_grown X ainv taken p3 c g Y g' \<longleftrightarrow> X \<subseteq> Y \<and> boot_ok Y ainv taken p3 c g' \<and> pageTable g' = pageTable g
     \<and> (\<forall>w \<in> X. view (mach g') w = view (mach g) w)"

lemma boot_grown_trans:
  "boot_grown X ainv taken p3 c g Y g1 \<Longrightarrow> boot_grown Y ainv taken p3 c g1 Z g2 \<Longrightarrow> boot_grown X ainv taken p3 c g Z g2"
  unfolding boot_grown_def by (metis subset_iff)

text \<open>A fault that the code raises itself: a panic or a failed assertion.\<close>

definition own_fault :: "fault \<Rightarrow> bool" where
  "own_fault flt \<longleftrightarrow> (\<exists>msg. flt = Panic msg \<or> flt = AssertFail msg)"

lemma set_panics_stop: "flt \<in> set_panics \<Longrightarrow> own_fault flt"
  by (auto simp: own_fault_def)

section \<open>A run of pages\<close>

context boot_source
begin

lemma boot_Alloc:
  assumes t: "al_Alloc (allocator (pageTable g)) = Alloc" and g: "boot_ok X invar taken p3 c g"
    and sz: "sz = 0x1000 \<or> sz = 0x200000"
  obtains x a where "gm_Alloc g sz sz = Inr (x, g\<lparr>mach := (mach g)\<lparr>alst := a\<rparr>\<rparr>)"
    "boot_ok X invar taken p3 c (g\<lparr>mach := (mach g)\<lparr>alst := a\<rparr>\<rparr>)"
    "view ((mach g)\<lparr>alst := a\<rparr>) = view (mach g)"
    "\<And>f. x = Some f \<Longrightarrow> good_frames f \<lparr>pageSize = sz, pageCount = 1\<rparr>"
proof -
  have "invar (alst (mach g))" using gm_okD(3) [OF boot_okD(1) [OF g]] by (simp add: pt_inv_def)
  from block [OF this sz] obtain x a where a: "Alloc (alst (mach g)) sz sz = Inr (x, a)" "invar a"
    "taken (alst (mach g)) \<subseteq> taken a" "\<And>f. x = Some f \<Longrightarrow> unat f mod unat sz = 0 \<and> unat f + unat sz \<le> 2 ^ 52" by blast
  show ?thesis
    using boot_ok_alloc [OF g a(2,3)] a(1,4) t
    by (intro that [of x a]) (simp_all add: gm_Alloc_def GetAllocator_def good_frames_def)
qed

text \<open>When nothing can be given back, \<^verbatim>\<open>Unset\<close> fails in a panic, if it has a table to free.\<close>

lemma Unset_free_stops:
  assumes t: "al_Free (allocator t) = Free" and fr: "fractal (pmem s) (cr3 s)" and d: "d \<le> 3"
    and u: "tab (pmem s) (cr3 s) (vpath addr d) = Some u"
  shows "\<exists>msg s'. Unset_free t addr d s \<in> {Inl (Panic msg), Inr s'}"
proof (cases d)
  case (Suc k)
  obtain v where v: "tab (pmem s) (cr3 s) (vpath addr k) = Some v"
    using u Suc by (auto simp: vpath_Suc tab_snoc_Some)
  have k: "k \<le> 3" "Suc k \<le> 3" using d Suc by simp_all
  have U: "table_used s (table_start (Suc k) addr) 0x200 = Inr (\<exists>i < 512. pmem s (entry_at u (of_nat i)) \<noteq> 0)"
    using table_used_ok [OF fr _ k(2), of addr u 512] u Suc by simp
  show ?thesis
  proof (cases "\<exists>i < 512. pmem s (entry_at u (of_nat i)) \<noteq> 0")
    case True
    then show ?thesis using U GetTableStart_ok [OF k(2)] Suc by simp
  next
    case False
    let ?e = "pmem s (entry_at v (pt_index (3 - k) addr))"
    obtain msg where "Free (alst s) (?e AND 0x7FFFFFFFFFFFF000) = Inl (Panic msg)" using no_free by blast
    then show ?thesis
      using U False GetTableStart_ok [OF k(2)] read_entry_ok [OF fr v k(1)] write_entry_ok [OF fr v k(1)] t Suc
      by (simp add: Let_def DistributeInvlpg_def GetAllocator_def)
  qed
qed simp

lemma Unset_stops:
  assumes t: "al_Free (allocator t) = Free" "IsSet t s" and c: "noncritical c" and inv: "pt_inv invar taken s"
    and va: "user_va addr" "addr AND 0xfff = 0"
  shows "\<exists>msg s'. Unset c t s addr \<in> {Inl (Panic msg), Inr (True, s')}"
proof -
  note I = pt_invD [OF inv]
  have T: "tab (pmem s) (cr3 s) (vpath addr (3 - 3)) = Some (cr3 s)" by simp
  from Unset_find_ok [OF I(1) order_refl T]
  consider (none) "Unset_find s addr 3 = Inl (Panic ''PageTable::Unset() - no mapping found'')"
    | (found) d e where "Unset_find s addr 3 = Inr d" "reaches s addr d e" by blast
  then show ?thesis
  proof cases
    case none
    then show ?thesis using t c va by (simp add: Unset_def)
  next
    case f: (found d e)
    then obtain u where d: "d \<le> 3" and u: "tab (pmem s) (cr3 s) (vpath addr d) = Some u" by (auto simp: reaches_def)
    let ?s1 = "s\<lparr>pmem := (pmem s)(entry_at u (pt_index (3 - d) addr) := 0)\<rparr>"
    have inv1: "pt_inv invar taken ?s1"
      using page_set_final [OF inv u d va(1) _ refl, of 0] by (simp add: page_set_def leaf_entry_def)
    have "tab (pmem ?s1) (cr3 ?s1) (vpath addr d) = Some u"
      using clear_above(1) [OF inv va(1) d u, of ?s1 d] u by simp
    from Unset_free_stops [OF t(1) pt_invD(1) [OF inv1] d this] show ?thesis
      using t c va f(1) write_entry_ok [OF I(1) u d] by (auto simp: Unset_def)
  qed
qed

text \<open>When nothing can be given back, taking back a page that was mapped fails.\<close>

lemma FreeAndUnmap_fails:
  assumes t: "al_Free (allocator (pageTable g)) = Free" and n: "n \<noteq> 0" and g: "gm_ok invar taken c g"
    and va: "user_va addr" "addr AND 0xfff = 0"
  shows "\<exists>flt. FreeAndUnmap c g addr n = Inl flt \<and> own_fault flt"
proof -
  note G = gm_okD [OF g]
  have F: "\<exists>flt. FreeAndUnmap_loop c addr n g = Inl flt \<and> own_fault flt"
  proof (cases "Read c (pageTable g) (mach g) addr")
    case (Inl flt)
    then have "GlobalMap_Read c g addr = Inl flt" using G(1) by (simp add: GlobalMap_Read_def)
    moreover have "own_fault flt" using Read_agrees [OF G(1,2) pt_invD(1) [OF G(3)], of addr] Inl by (simp add: own_fault_def)
    ultimately show ?thesis using n by (subst FreeAndUnmap_loop.simps) simp
  next
    case (Inr x)
    then have R: "GlobalMap_Read c g addr = Inr x" using G(1) by (simp add: GlobalMap_Read_def)
    obtain r sz where x: "x = (r, sz)" by (cases x)
    show ?thesis
    proof (cases r)
      case None
      then show ?thesis using n R x by (subst FreeAndUnmap_loop.simps) (simp add: own_fault_def)
    next
      case (Some p)
      let ?u = "GlobalMap_Unmap c g addr \<lparr>pageSize = sz, pageCount = 1\<rparr>"
      obtain msg s' where "Unset c (pageTable g) (mach g) addr \<in> {Inl (Panic msg), Inr (True, s')}"
        using Unset_stops [OF t G(2,1,3) va] by blast
      then have "?u = Inl (Panic msg) \<or> (\<exists>g'. ?u = Inr g' \<and> pageTable g' = pageTable g)"
        using G(1) by (auto simp: GlobalMap_Unmap_def gm_unset_def gm_Invlpg_def Let_def)
      then show ?thesis
      proof (elim disjE exE conjE)
        assume "?u = Inl (Panic msg)"
        then show ?thesis using n R x Some by (subst FreeAndUnmap_loop.simps) (simp add: own_fault_def)
      next
        fix g' assume g': "?u = Inr g'" "pageTable g' = pageTable g"
        obtain m where "Free (alst (mach g')) addr = Inl (Panic m)" using no_free by blast
        then have "gm_Free addr g' = Inl (Panic m)" using t g'(2) by (simp add: gm_Free_def free_frame_def GetAllocator_def)
        then show ?thesis using n R x Some g'(1) by (subst FreeAndUnmap_loop.simps) (simp add: own_fault_def)
      qed
    qed
  qed
  then show ?thesis by (simp add: FreeAndUnmap_def GetCapabilities_def)
qed

text \<open>
  The loop over the pages of a reserved run, all of whose addresses are in \<open>X\<close>: it maps the whole
  run, or own_fault, or ends at its first page without a change to the address space.
\<close>

lemma alloc_pages_boot:
  fixes P :: u64
  assumes P: "P = 0x1000 \<or> P = 0x200000"
  defines "d \<equiv> size_depth P"
  shows "al_Alloc (allocator (pageTable g)) = Alloc \<Longrightarrow> al_Free (allocator (pageTable g)) = Free \<Longrightarrow>
    boot_ok X invar taken p3 c g \<Longrightarrow> dest mod P = 0 \<Longrightarrow> unat dest + n * unat P \<le> 2 ^ 39 \<Longrightarrow>
    unat dest + n * unat P \<le> unat (freeStart (freeFinder g)) \<Longrightarrow> res \<le> dest \<Longrightarrow> res mod P = 0 \<Longrightarrow>
    (\<forall>va. unat dest \<le> unat va \<and> unat va < unat dest + n * unat P \<longrightarrow>
      va \<in> X \<and> view (mach g) va = Some (Reserved d)) \<Longrightarrow>
    (\<exists>flt. alloc_pages c res P P n dest g = Inl flt \<and> own_fault flt) \<or>
    (\<exists>ok g'. alloc_pages c res P P n dest g = Inr (ok, g') \<and> boot_ok X invar taken p3 c g' \<and> pageTable g' = pageTable g
    \<and> (ok \<longrightarrow> (\<forall>va. if unat dest \<le> unat va \<and> unat va < unat dest + n * unat P
         then \<exists>p a. view (mach g') va = Some (Mapped d p a) else view (mach g') va = view (mach g) va))
    \<and> (\<not> ok \<longrightarrow> dest = res \<and> view (mach g') = view (mach g)))"
proof (induction n arbitrary: dest g)
  case 0
  then show ?case by (intro disjI2 exI [of _ True] exI [of _ g]) simp
next
  case (Suc n)
  note t = Suc.prems(1,2) and B = Suc.prems(3) and lim = Suc.prems(5,6) and le = Suc.prems(7) and ra = Suc.prems(8) and run = mp [OF spec [OF Suc.prems(9)], OF conjI]
  let ?s = "\<lparr>pageSize = P, pageCount = 1\<rparr>"
  have pb: "2 ^ page_bits (size_depth P) = unat P" "0 < unat P" "unat P \<le> 0x200000"
    using P by (auto simp: page_bits_def size_depth_def)
  have rng: "in_range dest ?s va \<longleftrightarrow> unat dest \<le> unat va \<and> unat va < unat dest + unat P" for va
    by (simp add: in_run_def pb(1))
  obtain x a where A: "gm_Alloc g P P = Inr (x, g\<lparr>mach := (mach g)\<lparr>alst := a\<rparr>\<rparr>)"
    "boot_ok X invar taken p3 c (g\<lparr>mach := (mach g)\<lparr>alst := a\<rparr>\<rparr>)" "view ((mach g)\<lparr>alst := a\<rparr>) = view (mach g)"
    "\<And>f. x = Some f \<Longrightarrow> good_frames f ?s"
    using boot_Alloc [OF t(1) B P] by blast
  let ?g1 = "g\<lparr>mach := (mach g)\<lparr>alst := a\<rparr>\<rparr>"
  show ?case
  proof (cases x)
    case None
    then have R: "alloc_pages c res P P (Suc n) dest g = bindE (FreeAndUnmap c ?g1 res (dest - res)) (\<lambda>g. Inr (False, g))"
      using A(1) by simp
    show ?thesis
    proof (cases "dest = res")
      case True
      then have "FreeAndUnmap c ?g1 res (dest - res) = Inr ?g1"
        by (simp add: FreeAndUnmap_def GetCapabilities_def FreeAndUnmap_loop.simps)
      then have "alloc_pages c res P P (Suc n) dest g = Inr (False, ?g1)" using R by simp
      then show ?thesis using True A(2,3) by (intro disjI2 exI [of _ False] exI [of _ ?g1]) simp
    next
      case False
      have "unat res < 2 ^ 39" using le lim(1) pb(2) unfolding word_le_nat_alt by simp
      then have va: "user_va res" using kernel_addr user_va_iff by blast
      have "0x1000 dvd unat P" using P by auto
      moreover have "unat P dvd unat res" using ra by (metis dvd_eq_mod_eq_0 unat_0 unat_mod)
      ultimately have "2 ^ 12 dvd unat res" using dvd_trans by fastforce
      then have "\<not> bit res k" if "k < 12" for k using bit_aligned [of res 12 k] that by auto
      then have al: "res AND 0xfff = 0" unfolding mask_consts by (intro bit_word_eqI) (auto simp: bit_simps)
      have "dest - res \<noteq> 0" using False by simp
      from FreeAndUnmap_fails [OF _ this boot_okD(1) [OF A(2)] va al] t(2) show ?thesis using R by auto
    qed
  next
    case (Some f)
    have gr: "good_range dest ?s"
      using P Suc.prems(4) lim(1) pb by (auto simp: good_range_def good_size_def)
    have in_run: "in_range dest ?s va \<Longrightarrow> unat dest \<le> unat va \<and> unat va < unat dest + Suc n * unat P" for va
      unfolding rng by auto
    have nl: "nothing_larger (view (mach ?g1)) dest ?s"
      unfolding nothing_larger_def
    proof (intro allI impI)
      fix va pg assume "in_range dest ?s va" "view (mach ?g1) va = Some pg"
      then have "pg = Reserved d" using run [of va] in_run [of va] A(3) by simp
      then show "size_depth (pageSize ?s) \<le> page_depth pg" by (simp add: d_def)
    qed
    have out: "outside_finder (freeFinder ?g1) dest ?s"
      unfolding outside_finder_def using lim(2) in_run by fastforce
    have t1: "al_Alloc (allocator (pageTable ?g1)) = Alloc" using t(1) by simp
    let ?m = "GlobalMap_MapAt c ?g1 dest f ?s default_attributes"
    have L: "alloc_pages c res P P (Suc n) dest g = bindE ?m (alloc_pages c res P P n (dest + P))" using A(1) Some by simp
    from MapAt_done [OF t1 boot_okD(1) [OF A(2)] gr A(4) [OF Some] nl out, of default_attributes]
    consider (stop) flt where "?m = Inl flt" "own_fault flt"
      | (mapped) g2 where "?m = Inr g2" "gm_ok invar taken c g2" "pageTable g2 = pageTable g" "freeFinder g2 = freeFinder g"
          "view (mach g2) = map_range dest ?s f default_attributes (view (mach ?g1))"
          "\<And>P K. owners invar Alloc P K (Collect (in_range dest ?s)) \<Longrightarrow> tables_kept P K (mach ?g1) (mach g2)"
      using set_panics_stop by auto
    then show ?thesis
    proof cases
    case stop
    then show ?thesis using L by simp
    next
    case (mapped g2)
    note m = mapped(1) and g2 = mapped(2-4) and V = mapped(5) and T = mapped(6)
    have L2: "alloc_pages c res P P (Suc n) dest g = alloc_pages c res P P n (dest + P) g2" using L m by simp
    have "Collect (in_range dest ?s) \<subseteq> X" using run in_run by blast
    from boot_ok_kept [OF A(2) g2(1) T [OF owners_inside [OF this]]] have B2: "boot_ok X invar taken p3 c g2" .
    have nx: "unat (dest + P) = unat dest + unat P"
      using lim(1) by (subst unat_add_lem [THEN iffD1]) simp_all
    have pre: "(dest + P) mod P = 0" "unat (dest + P) + n * unat P \<le> 2 ^ 39"
      "unat (dest + P) + n * unat P \<le> unat (freeStart (freeFinder g2))" "res \<le> dest + P"
    proof -
      have "unat (dest + P) mod unat P = 0" using Suc.prems(4) unfolding nx by (metis mod_add_self2 unat_0 unat_mod)
      then show "(dest + P) mod P = 0" by (simp add: word_unat_eq_iff unat_mod)
      show "res \<le> dest + P" using le nx unfolding word_le_nat_alt by simp
    qed (use lim nx g2(3) in simp_all)
    have V1: "view (mach g2) va = (if unat dest \<le> unat va \<and> unat va < unat dest + unat P
        then Some (Mapped d (f + (va - dest)) (default_attributes\<lparr>cachable := True\<rparr>)) else view (mach g) va)" for va
      using V A(3) rng by (simp add: map_run_def on_run_def d_def)
    have run2: "\<forall>va. unat (dest + P) \<le> unat va \<and> unat va < unat (dest + P) + n * unat P \<longrightarrow>
        va \<in> X \<and> view (mach g2) va = Some (Reserved d)"
    proof (intro allI impI)
      fix va :: u64 assume "unat (dest + P) \<le> unat va \<and> unat va < unat (dest + P) + n * unat P"
      then show "va \<in> X \<and> view (mach g2) va = Some (Reserved d)" using run [of va] nx V1 [of va] by simp
    qed
    have tt: "al_Alloc (allocator (pageTable g2)) = Alloc" "al_Free (allocator (pageTable g2)) = Free" using t g2(2) by simp_all
    have "dest + P \<noteq> res" using le nx pb(2) unfolding word_le_nat_alt by auto
    note ne = this
    from Suc.IH [OF tt B2 pre ra run2] show ?thesis
    proof (elim disjE exE conjE)
      fix ok g' assume g'': "alloc_pages c res P P n (dest + P) g2 = Inr (ok, g')" "boot_ok X invar taken p3 c g'"
          "pageTable g' = pageTable g2"
        and W': "ok \<longrightarrow> (\<forall>va. if unat (dest + P) \<le> unat va \<and> unat va < unat (dest + P) + n * unat P
             then \<exists>p a. view (mach g') va = Some (Mapped d p a) else view (mach g') va = view (mach g2) va)"
        and no: "\<not> ok \<longrightarrow> dest + P = res \<and> view (mach g') = view (mach g2)"
      have ok using no ne by blast
      note W = mp [OF W' this] and g' = g'' [unfolded eqTrueI [OF this]]
      have "if unat dest \<le> unat va \<and> unat va < unat dest + Suc n * unat P
         then \<exists>p a. view (mach g') va = Some (Mapped d p a) else view (mach g') va = view (mach g) va" for va
        using W [THEN spec, of va] V1 [of va] nx by (auto split: if_splits)
      then show ?thesis using L2 g' g2(2) by (intro disjI2 exI [of _ True] exI [of _ g']) simp
    qed (simp add: L2 del: alloc_pages.simps)
    qed
  qed
qed

end

section \<open>Memory for the boot\<close>

lemma block_count:
  fixes sz P :: u64
  assumes sz: "0 < sz" "unat sz \<le> 2 ^ 38" and P: "P = 0x1000 \<or> P = 0x200000 \<and> sz mod P = 0"
  shows "good_size \<lparr>pageSize = P, pageCount = page_count sz P\<rparr>"
  using P
proof
  assume P: "P = 0x1000"
  have "0 < unat sz" "unat sz \<le> 2 ^ 39" using sz by (simp_all add: word_less_nat_alt)
  note C = page_count_cover [OF this]
  have "unat (page_count sz 0x1000) * 0x1000 \<le> 2 ^ 39" using C(3) sz(2) by simp
  then show ?thesis using C(1) P by (simp add: good_size_def)
next
  assume P: "P = 0x200000 \<and> sz mod P = 0"
  then have m: "sz mod P = 0" by blast
  have c: "page_count sz P = sz div P" by (simp add: page_count_def m)
  have "unat sz mod unat P = 0" using m by (metis unat_0 unat_mod)
  then have u: "unat (sz div P) * unat P = unat sz"
    unfolding unat_div using div_mult_mod_eq [of "unat sz" "unat P"] by linarith
  then have "0 < unat (sz div P)" using sz(1) by (cases "unat (sz div P)") (auto simp: word_less_nat_alt)
  then show ?thesis using P u sz(2) unfolding c by (simp add: good_size_def word_less_nat_alt)
qed

context boot_source
begin

lemma one_size_boot:
  fixes P :: u64
  assumes P: "P = 0x1000 \<or> P = 0x200000" and t: "al_Alloc (allocator (pageTable g)) = Alloc"
      "al_Free (allocator (pageTable g)) = Free"
    and B: "boot_ok X invar taken p3 c g" and F: "firm X (view (mach g))"
    and sz: "good_size \<lparr>pageSize = P, pageCount = n\<rparr>"
    and E: "E = bindE (GlobalMap_Reserve c g \<lparr>pageSize = P, pageCount = n\<rparr>) (\<lambda>(r, g). case r of
        None \<Rightarrow> k g
      | Some res \<Rightarrow> bindE (alloc_pages c res P P (unat n) res g) (\<lambda>(ok, g).
          if ok then Inr (Some res, g) else k g))"
  shows "(\<exists>flt. E = Inl flt \<and> own_fault flt)
    \<or> (\<exists>a Y g'. E = Inr (Some a, g') \<and> boot_grown X invar taken p3 c g Y g' \<and> firm Y (view (mach g')))
    \<or> (\<exists>Y g1. E = k g1 \<and> boot_grown X invar taken p3 c g Y g1 \<and> (P = 0x200000 \<longrightarrow> firm Y (view (mach g1))))"
proof -
  let ?s = "\<lparr>pageSize = P, pageCount = n\<rparr>"
  have pb: "2 ^ page_bits (size_depth P) = unat P" using P by (auto simp: page_bits_def size_depth_def)
  from Reserve_done [OF t(1) boot_okD(1) [OF B] sz] show ?thesis
  proof (elim disjE exE conjE bexE)
    fix flt assume "flt \<in> set_panics" "GlobalMap_Reserve c g ?s = Inl flt"
    then show ?thesis using set_panics_stop by (simp add: E)
  next
    fix f assume f: "GlobalMap_Reserve c g ?s = Inr (None, g\<lparr>freeFinder := f\<rparr>)" "gm_ok invar taken c (g\<lparr>freeFinder := f\<rparr>)"
    have "boot_ok X invar taken p3 c (g\<lparr>freeFinder := f\<rparr>)" by (rule boot_ok_kept [OF B f(2)]) simp
    then show ?thesis using f(1) F
      by (intro disjI2 exI [of _ X] exI [of _ "g\<lparr>freeFinder := f\<rparr>"]) (simp add: boot_grown_def E)
  next
    fix res g1 assume g1: "GlobalMap_Reserve c g ?s = Inr (Some res, g1)" "gm_ok invar taken c g1" "pageTable g1 = pageTable g"
        "gm_pdpt g1 = gm_pdpt g" "unat (freeStart (freeFinder g1)) = unat res + unat (Bytes ?s)"
      and C: "free_range (view (mach g)) res ?s" and V: "view (mach g1) = reserve_range res ?s (view (mach g))"
      and T: "\<forall>P K. owners invar Alloc P K (Collect (in_range res ?s)) \<longrightarrow> tables_kept P K (mach g) (mach g1)"
    have gr: "good_range res ?s" using C by (simp add: free_range_def)
    note R = good_rangeD [OF gr]
    have rng: "in_range res ?s va \<longleftrightarrow> unat res \<le> unat va \<and> unat va < unat res + unat n * unat P" for va
      by (simp add: in_run_def pb)
    have bytes: "unat (Bytes ?s) = unat n * unat P" using R(6) pb by simp
    let ?Y = "X \<union> Collect (in_range res ?s)"
    have Y: "unat w < 2 ^ 39" if "w \<in> ?Y" for w
      using that boot_okD(4) [OF B] run_kernel [OF gr] by auto
    have B1: "boot_ok ?Y invar taken p3 c g1"
      using T owners_inside [of "Collect (in_range res ?s)" ?Y] by (intro boot_ok_kept [OF boot_ok_more [OF B _ Y] g1(2)]) auto
    have t1: "al_Alloc (allocator (pageTable g1)) = Alloc" "al_Free (allocator (pageTable g1)) = Free"
      using t g1(3) by simp_all
    have V1: "view (mach g1) va = (if in_range res ?s va then Some (Reserved (size_depth P)) else view (mach g) va)" for va
      using V by (simp add: reserve_run_def on_run_def)
    have E1: "E = bindE (alloc_pages c res P P (unat n) res g1) (\<lambda>(ok, g). if ok then Inr (Some res, g) else k g)"
      using g1(1) by (simp add: E)
    have pre: "res mod P = 0" "unat res + unat n * unat P \<le> 2 ^ 39" "unat res + unat n * unat P \<le> unat (freeStart (freeFinder g1))"
      using R(3,4) bytes g1(5) by simp_all
    have run: "\<forall>va. unat res \<le> unat va \<and> unat va < unat res + unat n * unat P \<longrightarrow>
        va \<in> ?Y \<and> view (mach g1) va = Some (Reserved (size_depth P))"
    proof (intro allI impI)
      fix va :: u64 assume "unat res \<le> unat va \<and> unat va < unat res + unat n * unat P"
      then have v: "in_range res ?s va" by (simp only: rng)
      show "va \<in> ?Y \<and> view (mach g1) va = Some (Reserved (size_depth P))"
        using V1 [of va] unfolding if_P [OF v] using v by blast
    qed
    have Xr: "\<not> in_range res ?s w" if "w \<in> X" for w
      using C F that unfolding free_range_def firm_def by fastforce
    from alloc_pages_boot [OF P t1 B1 pre order_refl pre(1) run]
    show ?thesis
    proof (elim disjE exE conjE)
      fix flt assume "alloc_pages c res P P (unat n) res g1 = Inl flt" "own_fault flt"
      then show ?thesis using E1 by simp
    next
      fix ok g2 assume L: "alloc_pages c res P P (unat n) res g1 = Inr (ok, g2)" and g2: "boot_ok ?Y invar taken p3 c g2"
          "pageTable g2 = pageTable g1"
        and W: "ok \<longrightarrow> (\<forall>va. if unat res \<le> unat va \<and> unat va < unat res + unat n * unat P
            then \<exists>p a. view (mach g2) va = Some (Mapped (size_depth P) p a) else view (mach g2) va = view (mach g1) va)"
        and no: "\<not> ok \<longrightarrow> res = res \<and> view (mach g2) = view (mach g1)"
      have G: "boot_grown X invar taken p3 c g ?Y g2" if "\<And>w. w \<in> X \<Longrightarrow> view (mach g2) w = view (mach g) w"
        using g2 g1(3) that by (simp add: boot_grown_def)
      show ?thesis
      proof (cases ok)
        case True
        then have V2: "if in_range res ?s w then \<exists>p a. view (mach g2) w = Some (Mapped (size_depth P) p a)
            else view (mach g2) w = view (mach g1) w" for w
          using W unfolding rng by blast
        have "\<exists>pg. view (mach g2) w = Some pg \<and> pg \<noteq> Reserved 3" if w: "w \<in> ?Y" for w
        proof (cases "in_range res ?s w")
          case True
          then show ?thesis using V2 [of w] by auto
        next
          case False
          then show ?thesis using V2 [of w] V1 [of w] w F unfolding firm_def by auto
        qed
        moreover have "view (mach g2) w = view (mach g) w" if "w \<in> X" for w
          using V2 [of w] V1 [of w] unfolding if_not_P [OF Xr [OF that]] by simp
        ultimately show ?thesis
          using E1 L True G by (intro disjI2 disjI1 exI [of _ res] exI [of _ ?Y] exI [of _ g2]) (simp add: firm_def)
      next
        case False
        then have V2: "view (mach g2) = view (mach g1)" using no by simp
        have "firm ?Y (view (mach g2))" if "P = 0x200000"
        proof -
          have "size_depth P \<noteq> 3" using that by (simp add: size_depth_def)
          then show ?thesis using V2 V1 F by (auto simp: firm_def)
        qed
        moreover have "view (mach g2) w = view (mach g) w" if "w \<in> X" for w
          using V2 V1 [of w] Xr [OF that] by simp
        ultimately show ?thesis using E1 L False G by (intro disjI2 exI [of _ ?Y] exI [of _ g2]) simp
      qed
    qed
  qed
qed

lemma AllocAndMap_boot:
  assumes t: "al_Alloc (allocator (pageTable g)) = Alloc" "al_Free (allocator (pageTable g)) = Free"
    and B: "boot_ok X invar taken p3 c g" and F: "firm X (view (mach g))"
    and sz: "0 < sz" "unat sz \<le> 2 ^ 38"
  shows "(\<exists>flt. AllocAndMap c g sz True = Inl flt \<and> own_fault flt) \<or> (\<exists>g'. AllocAndMap c g sz True = Inr (None, g'))
    \<or> (\<exists>a Y g'. AllocAndMap c g sz True = Inr (Some a, g') \<and> boot_grown X invar taken p3 c g Y g' \<and> firm Y (view (mach g')))"
proof -
  let ?small = "map_sizes c sz [0]"
  have small: "(\<exists>flt. ?small g = Inl flt \<and> own_fault flt) \<or> (\<exists>g'. ?small g = Inr (None, g'))
      \<or> (\<exists>a Y g'. ?small g = Inr (Some a, g') \<and> boot_grown X invar taken p3 c g Y g' \<and> firm Y (view (mach g')))"
    if t: "al_Alloc (allocator (pageTable g)) = Alloc" "al_Free (allocator (pageTable g)) = Free"
      and B: "boot_ok X invar taken p3 c g" "firm X (view (mach g))" for X g
  proof -
    have R: "?small g = bindE (GlobalMap_Reserve c g \<lparr>pageSize = 0x1000, pageCount = page_count sz 0x1000\<rparr>) (\<lambda>(r, g). case r of
        None \<Rightarrow> map_sizes c sz [] g
      | Some res \<Rightarrow> bindE (alloc_pages c res 0x1000 0x1000 (unat (page_count sz 0x1000)) res g) (\<lambda>(ok, g).
          if ok then Inr (Some res, g) else map_sizes c sz [] g))"
      by (simp add: GetPageSize_def GetPageSizeAlign_def Let_def)
    from one_size_boot [OF disjI1 [OF refl] t B block_count [OF sz] R] show ?thesis by auto
  qed
  have M: "AllocAndMap c g sz True = map_sizes c sz [1, 0] g"
    by (simp add: AllocAndMap_def GetCapabilities_def size_indices_def GetPageSizeCount_def numeral_2_eq_2)
  show ?thesis
  proof (cases "sz mod 0x200000 = 0")
    case False
    then have "AllocAndMap c g sz True = ?small g"
      unfolding M by (simp add: GetPageSize_def GetPageSizeAlign_def del: map_sizes.simps(1))
    then show ?thesis using small [OF t B F] by simp
  next
    case True
    then have R: "AllocAndMap c g sz True = bindE (GlobalMap_Reserve c g \<lparr>pageSize = 0x200000, pageCount = page_count sz 0x200000\<rparr>) (\<lambda>(r, g). case r of
        None \<Rightarrow> ?small g
      | Some res \<Rightarrow> bindE (alloc_pages c res 0x200000 0x200000 (unat (page_count sz 0x200000)) res g) (\<lambda>(ok, g).
          if ok then Inr (Some res, g) else ?small g))"
      unfolding M by (subst map_sizes.simps(2)) (simp add: GetPageSize_def GetPageSizeAlign_def Let_def del: map_sizes.simps)
    have gs: "good_size \<lparr>pageSize = 0x200000, pageCount = page_count sz 0x200000\<rparr>" using True by (intro block_count [OF sz]) simp
    from one_size_boot [OF disjI2 [OF refl] t B F gs R] show ?thesis
    proof (elim disjE exE conjE)
      fix Y g1 assume Y: "AllocAndMap c g sz True = ?small g1" "boot_grown X invar taken p3 c g Y g1"
        "(0x200000 :: u64) = 0x200000 \<longrightarrow> firm Y (view (mach g1))"
      from Y(2) have "boot_ok Y invar taken p3 c g1" "pageTable g1 = pageTable g" by (simp_all add: boot_grown_def)
      with small [OF _ _ this(1), folded Y(1)] t Y(3) boot_grown_trans [OF Y(2)] show ?thesis by auto
    qed blast+
  qed
qed

end

end
