(* ===== verification/BootStart.thy ===== *)
theory BootStart
  imports BootMap
begin

unbundle bit_operations_syntax

text \<open>
  The whole of GlobalMap::Initialize: from the first tables through the memory of the clusters
  to the buddy allocator, which takes over a map that is in the invariant of theory KernelMapProofs.
\<close>

section \<open>The first tables\<close>

lemma id_tables_plain:
  assumes T: "id_tables (pmem s) (cr3 s) p3 pd k n" and k: "k \<le> 512" "n \<le> 512 * 512"
  shows "plain_tables s"
  unfolding plain_tables_def
proof (intro allI impI)
  fix p i t assume p: "user_path (p @ [i])" and t: "tab (pmem s) (cr3 s) p = Some t"
    and e: "present (pmem s (entry_at t i))" "\<not> huge (pmem s (entry_at t i))"
  have P: "user_path p" "i < 512" using user_path_snocD [OF p] by auto
  obtain l where l: "l < 512" "i = of_nat l" using index_cases [OF P(2)] by blast
  have z: "\<not> present 0" by (simp add: present_def)
  have link: "(f OR 3) AND 0x7FFFFFFFFFFFF000 = pframe (f OR 3)" if "is_frame f" for f
    using plain_or [OF frame_plain [OF that] _ flags_3(1)] by simp
  from id_tables_paths [OF T k P(1) t]
  show "pmem s (entry_at t i) AND 0x7FFFFFFFFFFFF000 = pframe (pmem s (entry_at t i))"
  proof (elim disjE exE conjE)
    assume "p = []" "t = cr3 s"
    then have "pmem s (entry_at t i) = (if l = 0 then p3 OR 3 else if l = 0x1ff then cr3 s OR 3 else 0)"
      using T l by (simp add: id_tables_def)
    then show ?thesis using link T e z by (auto simp: id_tables_def split: if_splits)
  next
    assume "p = [0]" "t = p3"
    then have "pmem s (entry_at t i) = (if l < k then pd l OR 3 else 0)"
      using T l by (simp add: id_tables_def)
    then show ?thesis using link T e z by (auto simp: id_tables_def split: if_splits)
  next
    fix j assume "j < k" "p = [0, of_nat j]" "t = pd j"
    then have "pmem s (entry_at t i) = (if 512 * j + l < n then of_nat (512 * j + l) * 0x200000 OR 0x183 else 0)"
      using T l by (simp add: id_tables_def)
    then show ?thesis using big_entry [of "512 * j + l"] k(2) e z by (auto split: if_splits)
  qed
qed

text \<open>The addresses that the first tables map keep all of them in use.\<close>

abbreviation first_pages :: "nat \<Rightarrow> VirtAddr set" where
  "first_pages n \<equiv> {w. unat w < n * 0x200000}"

lemma id_tables_owned:
  assumes T: "id_tables (pmem s) (cr3 s) p3 pd k n" and k: "k \<le> 512" "n \<le> 512 * 512" "0 < n" "0 < k \<Longrightarrow> 512 * (k - 1) < n"
  shows "owned_tables (\<lambda>_. {}) (first_pages n) s"
  unfolding owned_tables_def
proof (intro allI impI disjI2)
  fix p t assume p: "user_path p" "p \<noteq> []" and t: "tab (pmem s) (cr3 s) p = Some t"
  have ix: "vpath w 1 = [0]" "vpath w 2 = [0, of_nat j]" if "unat w = j * 2 ^ 30" "j < 512" for w :: u64 and j
    using that by (simp_all add: vpath_def upt_rec pt_index_of_nat)
  from id_tables_paths [OF T k(1,2) p(1) t] p(2)
  show "\<exists>w \<in> first_pages n. vpath w (length p) = p"
  proof (elim disjE exE conjE)
    assume "p = [0]"
    then show ?thesis using k(3) ix(1) [of 0 0] by (intro bexI [of _ 0]) auto
  next
    fix j assume j: "j < k" "p = [0, of_nat j]"
    let ?w = "of_nat (j * 2 ^ 30) :: u64"
    have lt: "j * 2 ^ 30 < 2 ^ 64" using j(1) k(1) by simp
    have w: "unat ?w = j * 2 ^ 30" using lt by (subst unat_of_nat) simp
    have "512 * (k - 1) < n" using j(1) by (intro k(4)) simp
    then have "512 * j < n" using j(1) by simp
    then have "unat ?w < n * 0x200000" unfolding w by simp
    then show ?thesis using ix(2) [OF w] j k(1) by (intro bexI [of _ ?w]) (auto simp: numeral_2_eq_2)
  qed auto
qed

lemma first_map_boot:
  fixes bootCr3 :: u64
  assumes R: "regions_ok an R" and c: "noncritical c" and u: "firstUnmapped ms = 0"
    and e: "ms_reservedEnd ms \<noteq> 0" "unat (ms_reservedEnd ms) \<le> 2 ^ 39" and g: "GenerateMap an R ms = Inr ms'"
  defines "n \<equiv> pages_2m (ms_reservedEnd ms)" and "g1 \<equiv> (first_map an R bootCr3 ms')\<lparr>mach := first_machine ms'\<rparr>"
  shows "boot_ok (first_pages n) (boot_inv an R) boot_taken (ms_pdpt ms') c g1"
    "\<And>w. w \<in> first_pages n \<Longrightarrow> \<exists>d a. view (mach g1) w = Some (Mapped d w a)"
proof -
  let ?s = "first_machine ms'"
  obtain pd k where T: "id_tables (ms_mem ms') (ms_pml4 ms') (ms_pdpt ms') pd k n" "k \<le> 512" "n \<le> 512 * k" "n \<le> 512 * 512"
    and l: "0 < k \<Longrightarrow> ms_reservedEnd ms \<noteq> 0 \<Longrightarrow> 512 * (k - 1) < n" "ms_last ms' mod 0x1000 = 0"
      "\<And>p t. user_path p \<Longrightarrow> tab (ms_mem ms') (ms_pml4 ms') p = Some t \<Longrightarrow> t < ms_last ms'"
    using GenerateMap_tables [OF R u e(2) g, folded n_def] by metis
  have T': "id_tables (pmem ?s) (cr3 ?s) (ms_pdpt ms') pd k n" using T(1) by simp
  have "0 < unat (ms_reservedEnd ms)" using e(1) by (simp add: unat_gt_0)
  then have n0: "0 < n" by (simp add: n_def pages_2m_def)
  have p4: "is_frame (ms_pml4 ms')" using T(1) by (simp add: id_tables_def)
  have inv: "pt_inv (boot_inv an R) boot_taken ?s"
    using id_tables_fractal [OF T(1)] id_tables_sep [OF T(1,2,4)] l(2,3) R is_frame_tab [OF p4]
    by (simp add: pt_inv_def boot_inv_def boot_taken_def)
  have "gm_ok (boot_inv an R) boot_taken c g1" unfolding g1_def by (rule first_map_gm_ok [OF c inv])
  moreover have m: "mach g1 = ?s" by (simp add: g1_def)
  moreover have "tab (pmem ?s) (cr3 ?s) [0] = Some (ms_pdpt ms')"
    using id_tables_tab(1) [OF T(1), of 0 0] by simp
  moreover have "\<forall>w \<in> first_pages n. unat w < 2 ^ 39" using T(4) by auto
  ultimately show "boot_ok (first_pages n) (boot_inv an R) boot_taken (ms_pdpt ms') c g1"
    unfolding boot_ok_def m
    using id_tables_plain [OF T' T(2,4)] id_tables_owned [OF T' T(2,4) n0 l(1)] e(1) by (simp del: tab.simps)
  fix w assume w: "w \<in> first_pages n"
  then have k: "unat w < 2 ^ 39" "unat w < n * 0x200000" using T(4) by auto
  have "mmu_translate (pmem ?s) (cr3 ?s) w = Some w" using id_tables_walk [OF T(1-3) k(1)] k(2) by simp
  then show "\<exists>d a. view (mach g1) w = Some (Mapped d w a)"
    using view_translate [OF inv, of w] kernel_addr [OF k(1)] unfolding m by (auto split: option.splits kpage.splits)
qed

lemma mapped_firm: "(\<And>w. w \<in> X \<Longrightarrow> \<exists>d p a. A w = Some (Mapped d p a)) \<Longrightarrow> firm X A"
  unfolding firm_def by fastforce

section \<open>The clusters\<close>

text \<open>
  What the classes of ANAlloc promise: a cluster laid out over the regions keeps the contract of
  theory BuddyAllocator, and reserving the memory up to an address takes it out of the free frames.
\<close>

definition clusters_ok ::
    "'c cluster_ops \<Rightarrow> ('r list \<Rightarrow> VirtAddr \<Rightarrow> 'c) \<Rightarrow> ('c \<Rightarrow> bool) \<Rightarrow> ('c \<Rightarrow> bool) \<Rightarrow> ('c \<Rightarrow> u64 set) \<Rightarrow> ('c \<Rightarrow> u64 set)
     \<Rightarrow> 'r region_list \<Rightarrow> bool" where
  "clusters_ok cl createAllocators linv uinv cfree cpages R \<longleftrightarrow>
     cluster_ok cl linv cfree cpages 0 0x100000000 \<and> cluster_ok cl uinv cfree cpages 0x100000000 0x10000000000000
     \<and> (\<forall>a. linv (createAllocators (lowerRegions R) a)) \<and> (\<forall>a. uinv (createAllocators (upperRegions R) a))
     \<and> (\<forall>x l. (linv x \<longrightarrow> linv (cl_Reserve cl x 0 l)) \<and> (uinv x \<longrightarrow> uinv (cl_Reserve cl x 0 l))
          \<and> cfree (cl_Reserve cl x 0 l) \<subseteq> cfree x - {f. f < l})"

text \<open>A cluster is initialised, on a map that has grown, or the code stops by a fault of its own.\<close>

lemma InitializeCluster_boot:
  fixes g :: "PhysAddr gmap" and requiredSpace createAllocators
  assumes t: "allocator (pageTable g) = StepAllocator_ops an R" and B: "boot_ok X (boot_inv an R) boot_taken p3 c g"
    and F: "firm X (view (mach g))" and sz: "0 < requiredSpace rs" "unat (requiredSpace rs) \<le> 2 ^ 38"
  defines "r \<equiv> InitializeCluster requiredSpace createAllocators (\<lambda>g n. AllocAndMap c g n True) rs g"
  shows "(\<exists>flt. r = Inl flt \<and> own_fault flt)
    \<or> (\<exists>a g' Y. r = Inr (createAllocators rs a, g')
         \<and> boot_grown X (boot_inv an R) boot_taken p3 c g Y g' \<and> firm Y (view (mach g')))"
proof -
  have "al_Alloc (allocator (pageTable g)) = StepAllocator_Alloc an R"
    "al_Free (allocator (pageTable g)) = (\<lambda>_ _. Inl (Panic ''StepAllocator::Free() - unsupported''))"
    using t by (simp_all add: StepAllocator_ops_def)
  from boot.AllocAndMap_boot [OF this B F sz] show ?thesis
    by (elim disjE exE conjE) (auto simp: r_def InitializeCluster_def own_fault_def)
qed

lemma BuddyAllocator_new_boot:
  fixes g :: "PhysAddr gmap" and requiredSpace createAllocators getSize emptyCluster
  assumes t: "allocator (pageTable g) = StepAllocator_ops an R" and B: "boot_ok X (boot_inv an R) boot_taken p3 c g"
    and F: "firm X (view (mach g))"
    and sz: "\<forall>rs \<in> {lowerRegions R, upperRegions R}. rs \<noteq> [] \<longrightarrow> 0 < requiredSpace rs \<and> unat (requiredSpace rs) \<le> 2 ^ 38"
    and cl: "clusters_ok cl createAllocators linv uinv cfree cpages R"
  defines "r \<equiv> BuddyAllocator_new requiredSpace createAllocators (\<lambda>g n. AllocAndMap c g n True) getSize emptyCluster R g"
  shows "(\<exists>flt. r = Inl flt \<and> own_fault flt)
    \<or> (\<exists>b g' Y. r = Inr (b, g') \<and> (hasLower b \<longrightarrow> linv (lower b)) \<and> (hasUpper b \<longrightarrow> uinv (upper b))
         \<and> boot_grown X (boot_inv an R) boot_taken p3 c g Y g' \<and> firm Y (view (mach g')))"
proof -
  let ?init = "InitializeCluster requiredSpace createAllocators (\<lambda>g n. AllocAndMap c g n True)"
  let ?b0 = "\<lparr>lower = emptyCluster, upper = emptyCluster, hasUpper = False, hasLower = False,
     totalSpace = sum_sizes getSize (upperRegions R) (sum_sizes getSize (lowerRegions R) 0)\<rparr>"
  let ?one = "if length (lowerRegions R) \<noteq> 0 then
        bindE (?init (lowerRegions R) g) (\<lambda>(k, g). Inr (?b0\<lparr>lower := k, hasLower := True\<rparr>, g))
      else Inr (?b0, g)"
  let ?two = "\<lambda>(b, g). if length (upperRegions R) \<noteq> 0 then
        bindE (?init (upperRegions R) g) (\<lambda>(k, g). Inr (b\<lparr>upper := k, hasUpper := True\<rparr>, g))
      else Inr (b, g)"
  have r: "r = bindE ?one ?two" by (simp add: r_def BuddyAllocator_new_def Let_def)
  have K: "linv (createAllocators (lowerRegions R) a)" "uinv (createAllocators (upperRegions R) a)" for a
    using cl by (simp_all add: clusters_ok_def)
  have one: "(\<exists>flt. ?one = Inl flt \<and> own_fault flt) \<or> (\<exists>b g1 Y. ?one = Inr (b, g1) \<and> (hasLower b \<longrightarrow> linv (lower b)) \<and> \<not> hasUpper b
      \<and> boot_grown X (boot_inv an R) boot_taken p3 c g Y g1 \<and> firm Y (view (mach g1)))"
  proof (cases "lowerRegions R = []")
    case True
    then show ?thesis using B F by (auto simp: boot_grown_def)
  next
    case False
    then have "0 < requiredSpace (lowerRegions R)" "unat (requiredSpace (lowerRegions R)) \<le> 2 ^ 38" using sz by auto
    from InitializeCluster_boot [where requiredSpace = requiredSpace and createAllocators = createAllocators, OF t B F this] show ?thesis
      using K(1) False by (elim disjE exE conjE) (auto, blast?)
  qed
  then show ?thesis
  proof (elim disjE exE conjE)
    fix b g1 Y assume o: "?one = Inr (b, g1)" "hasLower b \<longrightarrow> linv (lower b)" "\<not> hasUpper b"
        and Y: "boot_grown X (boot_inv an R) boot_taken p3 c g Y g1" "firm Y (view (mach g1))"
    have t1: "allocator (pageTable g1) = StepAllocator_ops an R" and B1: "boot_ok Y (boot_inv an R) boot_taken p3 c g1"
      using Y(1) t by (simp_all add: boot_grown_def)
    have two: "r = ?two (b, g1)" unfolding r o(1) by simp
    show ?thesis
    proof (cases "upperRegions R = []")
      case True
      then show ?thesis using two Y o by auto
    next
      case False
      then have s: "0 < requiredSpace (upperRegions R)" "unat (requiredSpace (upperRegions R)) \<le> 2 ^ 38" using sz by auto
      have R: "r = bindE (?init (upperRegions R) g1) (\<lambda>(k, g). Inr (b\<lparr>upper := k, hasUpper := True\<rparr>, g))"
        using two False by simp
      from InitializeCluster_boot [where requiredSpace = requiredSpace and createAllocators = createAllocators, OF t1 B1 Y(2) s] show ?thesis
      proof (elim disjE exE conjE)
        fix a g' Z assume Z: "?init (upperRegions R) g1 = Inr (createAllocators (upperRegions R) a, g')"
          "boot_grown Y (boot_inv an R) boot_taken p3 c g1 Z g'" "firm Z (view (mach g'))"
        show ?thesis unfolding R Z(1) using K o(2) Z(3) boot_grown_trans [OF Y(1) Z(2)] by auto
      qed (simp add: R)
    qed
  qed (simp add: r)
qed

section \<open>The buddy allocator takes over\<close>

lemma Buddy_Reserve_ok:
  assumes cl: "clusters_ok cl createAllocators linv uinv cfree cpages R" and c: "noncritical c"
    and b: "hasLower b \<longrightarrow> linv (lower b)" "hasUpper b \<longrightarrow> uinv (upper b)"
  shows "buddy_inv c cl linv uinv cfree cpages (Buddy_Reserve cl b l)"
    "f \<in> buddy_set cfree (Buddy_Reserve cl b l) \<Longrightarrow> \<not> f < l"
proof -
  have free: "\<not> f < l" if "f \<in> cfree (cl_Reserve cl x 0 l)" for x
    using cl that unfolding clusters_ok_def by blast
  show "buddy_inv c cl linv uinv cfree cpages (Buddy_Reserve cl b l)"
    using assms unfolding clusters_ok_def buddy_inv_def Buddy_Reserve_def Let_def by auto
  assume "f \<in> buddy_set cfree (Buddy_Reserve cl b l)"
  then show "\<not> f < l" using free by (auto simp: buddy_set_def Buddy_Reserve_def Let_def split: if_splits)
qed

lemma buddy_takes_over:
  assumes B: "boot_ok Y ainv boot_taken p3 c g" and F: "firm Y (view (mach g))" "Y \<noteq> {}"
    and b: "binv b" "\<And>f. f < alst (mach g) \<Longrightarrow> f \<in> taken b"
  shows "kmap_ok Y binv taken pages c \<lparr>pageTable = \<lparr>allocator = ops, pml4 = pml4 (pageTable g)\<rparr>,
     freeFinder = freeFinder g, gm_pdpt = p3,
     mach = \<lparr>pmem = pmem (mach g), cr3 = cr3 (mach g), alst = b, invlpgs = invlpgs (mach g)\<rparr>,
     tlbInitialized = ti, currentMap = cm\<rparr>" (is "kmap_ok _ _ _ _ _ ?g")
proof -
  note D = boot_okD [OF B]
  note G = gm_okD [OF D(1)]
  have l: "leaf (mach ?g) = leaf (mach g)" by (rule ext) (simp add: leaf_def)
  have "pt_inv binv taken (mach ?g)" using G(3) b by (simp add: pt_inv_def boot_taken_def)
  moreover have "finder_ok (mach ?g) (freeFinder ?g)"
    using G(4) l by (simp add: finder_ok_def unmapped_def vacant_def)
  ultimately have "gm_ok binv taken c ?g" using G(1,2) by (simp add: gm_ok_def IsSet_def GetPml4_def)
  moreover have "view (mach ?g) = view (mach g)" by (rule ext) (simp add: view_def l [simplified])
  moreover have "plain_tables (mach ?g)" "owned_tables pages Y (mach ?g)"
    using D(2,3) by (simp_all add: plain_tables_def owned_tables_def)
  ultimately show ?thesis
    using D(4,5) F unfolding kmap_ok_def firm_def by (simp del: tab.simps)
qed

section \<open>Initialisation\<close>

text \<open>
  GlobalMap::Initialize either stops by a fault of its own or leaves a map in the invariant, in
  which every address of the reserved memory is mapped to itself and stays in \<open>K\<close>, the addresses
  nobody may unmap.
\<close>

lemma GlobalMap_Initialize_ok:
  fixes bootCr3 :: u64
  assumes R: "regions_ok an R" and c: "noncritical c" and u: "firstUnmapped ms = 0"
    and e: "ms_reservedEnd ms \<noteq> 0" "unat (ms_reservedEnd ms) \<le> 2 ^ 39"
    and cl: "clusters_ok cl createAllocators linv uinv cfree cpages R"
    and sz: "\<forall>rs \<in> {lowerRegions R, upperRegions R}. rs \<noteq> [] \<longrightarrow> 0 < requiredSpace rs \<and> unat (requiredSpace rs) \<le> 2 ^ 38"
  shows "case GlobalMap_Initialize c an cl requiredSpace createAllocators getSize emptyCluster R bootCr3 ms of
      Inl flt \<Rightarrow> own_fault flt
    | Inr g \<Rightarrow> allocator (pageTable g) = BuddyAllocator_ops c cl \<and> (\<exists>K. first_pages (pages_2m (ms_reservedEnd ms)) \<subseteq> K
        \<and> kmap_ok K (buddy_inv c cl linv uinv cfree cpages) (\<lambda>b. - buddy_set cfree b) (buddy_set cpages) c g
        \<and> (\<forall>w \<in> first_pages (pages_2m (ms_reservedEnd ms)). \<exists>d a. view (mach g) w = Some (Mapped d w a)))"
proof (cases "GenerateMap an R ms")
  case (Inl flt)
  then show ?thesis using GenerateMap_inv [OF R u e(2)] by (auto simp: GlobalMap_Initialize_def own_fault_def)
next
  case m: (Inr ms')
  let ?X = "first_pages (pages_2m (ms_reservedEnd ms))"
  define g1 where "g1 = (first_map an R bootCr3 ms')\<lparr>mach := first_machine ms'\<rparr>"
  note B = first_map_boot [OF R c u e m, where ?bootCr3.0 = bootCr3, folded g1_def]
  let ?new = "BuddyAllocator_new requiredSpace createAllocators (\<lambda>g n. AllocAndMap c g n True) getSize emptyCluster R g1"
  let ?g = "\<lambda>b g2. \<lparr>pageTable = \<lparr>allocator = BuddyAllocator_ops c cl, pml4 = pml4 (pageTable g2)\<rparr>,
     freeFinder = freeFinder g2, gm_pdpt = ms_pdpt ms',
     mach = \<lparr>pmem = pmem (mach g2), cr3 = cr3 (mach g2), alst = Buddy_Reserve cl b (alst (mach g2)), invlpgs = invlpgs (mach g2)\<rparr>,
     tlbInitialized = tlbInitialized g2, currentMap = currentMap g2\<rparr>"
  have I: "GlobalMap_Initialize c an cl requiredSpace createAllocators getSize emptyCluster R bootCr3 ms
      = bindE ?new (\<lambda>(b, g2). Inr (?g b g2))"
    using m unfolding GlobalMap_Initialize_def GenerateBuddyAllocator_def first_map_Set g1_def
    by (cases ?new) (simp_all add: g1_def MapSetup_GetPdpt_def GetLastAddress_def Let_def split: prod.splits)
  have t: "allocator (pageTable g1) = StepAllocator_ops an R"
    by (simp add: g1_def first_map_def GeneratePageTable_def)
  have F: "firm ?X (view (mach g1))" using B(2) by (intro mapped_firm) blast
  from BuddyAllocator_new_boot [where requiredSpace = requiredSpace and getSize = getSize and emptyCluster = emptyCluster, OF t B(1) F sz cl] show ?thesis
  proof (elim disjE exE conjE)
    fix b g2 Y assume n: "?new = Inr (b, g2)" and b: "hasLower b \<longrightarrow> linv (lower b)" "hasUpper b \<longrightarrow> uinv (upper b)"
      and Y: "boot_grown ?X (boot_inv an R) boot_taken (ms_pdpt ms') c g1 Y g2" "firm Y (view (mach g2))"
    have Y': "?X \<subseteq> Y" "boot_ok Y (boot_inv an R) boot_taken (ms_pdpt ms') c g2"
      "\<And>w. w \<in> ?X \<Longrightarrow> view (mach g2) w = view (mach g1) w" using Y(1) by (auto simp: boot_grown_def)
    have "0 < unat (ms_reservedEnd ms)" using e(1) by (simp add: unat_gt_0)
    then have "0 \<in> ?X" by (simp add: pages_2m_def)
    then have ne: "Y \<noteq> {}" using Y'(1) by blast
    note Bu = Buddy_Reserve_ok [OF cl c b]
    have K: "kmap_ok Y (buddy_inv c cl linv uinv cfree cpages) (\<lambda>b. - buddy_set cfree b) (buddy_set cpages) c (?g b g2)"
    proof (rule buddy_takes_over [OF Y'(2) Y(2) ne])
      show "buddy_inv c cl linv uinv cfree cpages (Buddy_Reserve cl b (alst (mach g2)))" by (rule Bu(1))
      show "f \<in> - buddy_set cfree (Buddy_Reserve cl b (alst (mach g2)))" if "f < alst (mach g2)" for f
        using Bu(2) that by blast
    qed
    have V: "view (mach (?g b g2)) w = view (mach g1) w" if "w \<in> ?X" for w
    proof -
      have "leaf (mach (?g b g2)) = leaf (mach g2)" by (rule ext) (simp add: leaf_def)
      then have "view (mach (?g b g2)) w = view (mach g2) w" unfolding view_def by simp
      then show ?thesis using Y'(3) [OF that] by simp
    qed
    have id: "\<exists>d a. view (mach (?g b g2)) w = Some (Mapped d w a)" if "w \<in> ?X" for w
      unfolding V [OF that] by (rule B(2) [OF that])
    have E: "GlobalMap_Initialize c an cl requiredSpace createAllocators getSize emptyCluster R bootCr3 ms = Inr (?g b g2)"
      unfolding I n by simp
    have A: "allocator (pageTable (?g b g2)) = BuddyAllocator_ops c cl" by simp
    show ?thesis unfolding E sum.case using Y'(1) K id A by blast
  qed (simp add: I)
qed

end
