(* ===== verification/KernelMapProps.thy ===== *)
theory KernelMapProps
  imports BootStart GlobalMapProps
begin

unbundle bit_operations_syntax

text \<open>
  The kernel's address space as a whole: every operation of GlobalMap refines its abstract
  counterpart, and every map that the kernel reaches from its boot is in the invariant.
\<close>

section \<open>Refinement\<close>

text \<open>
  C2. The kernel's map is an abstract address space. On a map in the invariant with the
  allocator of theory BuddyAllocator (or another with its contract), an operation whose request is
  within bounds, names pages of the size they have and spares the addresses of K either fails by one
  of the faults the code raises, or leaves a map in the invariant whose abstract space is the one
  that the abstract operation promises: exactly the pages of the run become mapped, reserved or
  free, and an address that the map chose itself was free. What the processor translates afterwards
  is read off the abstract space.
\<close>

theorem GlobalMap_refines:
  assumes "page_pool (al_Alloc (allocator (pageTable g))) ainv taken (al_Free (allocator (pageTable g))) pages"
    and "kmap_ok K ainv taken pages c g" and "op_allowed K (freeFinder g) (view (mach g)) op"
  shows "case run_op c op g of
      Inl flt \<Rightarrow> flt \<in> map_faults
    | Inr (r, g') \<Rightarrow> kmap_ok K ainv taken pages c g' \<and> op_spec op (view (mach g)) r (view (mach g'))
        \<and> (\<forall>va. canonical va \<and> va < UserEnd \<longrightarrow> mmu_translate (pmem (mach g')) (cr3 (mach g')) va =
            (case view (mach g') va of Some (Mapped d p a) \<Rightarrow> Some p | _ \<Rightarrow> None))"
  using page_pool.run_op_done [OF assms(1) refl refl assms(2,3)] view_translate [OF gm_okD(3) [OF kmap_okD(1)]]
  unfolding op_done_def by (auto split: sum.splits)

text \<open>The 1 GB page of the page-table properties, which nobody may unmap, and a fresh finder.\<close>

definition ex_kmap :: "(u64 list \<times> u64 list) buddy gmap" where
  "ex_kmap = \<lparr>pageTable = ex_big_table, freeFinder = FreeFinder_new, gm_pdpt = 0x3000, mach = ex_big_page,
     tlbInitialized = False, currentMap = None\<rparr>"

lemma ex_big_entries:
  assumes "i < 512"
  shows "i \<noteq> 0x1ff \<Longrightarrow> pmem ex_big_page (entry_at 0x2000 i) = (if i = 0 then 0x3003 else 0)"
    and "pmem ex_big_page (entry_at 0x3000 i) = (if i = 1 then 0x40000083 else 0)"
proof -
  have fr: "is_frame 0x2000" "is_frame 0x3000" by (simp_all add: is_frame_def pframe_def)
  note inj = entry_at_inj [where t = "0x2000" and u = "0x2000" and i = i]
    entry_at_inj [where t = "0x2000" and u = "0x3000" and i = i]
    entry_at_inj [where t = "0x3000" and u = "0x2000" and i = i]
    entry_at_inj [where t = "0x3000" and u = "0x3000" and i = i]
  show "i \<noteq> 0x1ff \<Longrightarrow> pmem ex_big_page (entry_at 0x2000 i) = (if i = 0 then 0x3003 else 0)"
    using inj(1) [of 0] inj(1) [of "0x1ff"] inj(2) [of 1] fr assms by (auto simp: ex_big_page_def entry_at_def)
  show "pmem ex_big_page (entry_at 0x3000 i) = (if i = 1 then 0x40000083 else 0)"
    using inj(3) [of 0] inj(3) [of "0x1ff"] inj(4) [of 1] fr assms by (auto simp: ex_big_page_def entry_at_def)
qed

lemma ex_kmap_leaf:
  assumes "unat w < 2 ^ 39"
  shows "leaf ex_big_page w = (if pt_index 2 w = 1 then Some (1, 0x40000083) else None)"
proof -
  have ix: "pt_index 3 w = 0" "pt_index 2 w < 512" using kernel_slot [OF assms] pt_index_less by (simp_all add: vpath_def)
  have L: "leaf_of m r w 3 = (let e = m (entry_at r (pt_index 3 w)) in if huge e then Some (0, e)
      else if present e then leaf_of m (pframe e) w 2 else None)"
    "leaf_of m r w 2 = (let e = m (entry_at r (pt_index 2 w)) in if huge e then Some (1, e)
      else if present e then leaf_of m (pframe e) w 1 else None)" for m r
    using leaf_of.simps(2) [of m r w 2] leaf_of.simps(2) [of m r w 1] by (simp_all add: Let_def del: leaf_of.simps One_nat_def)
  have r: "cr3 ex_big_page = 0x2000" by (simp add: ex_big_page_def)
  show ?thesis
    unfolding leaf_def L ix(1) r
    using ex_big_entries(1) [of 0] ex_big_entries(2) [OF ix(2)]
    by (simp add: Let_def present_def huge_def pframe_def)
qed

lemma ex_kmap_view:
  assumes "unat w < 2 ^ 39"
  shows "view ex_big_page w = (if pt_index 2 w = 1 then Some (page_of 1 0x40000083 w) else None)"
  using kernel_addr [OF assms] ex_kmap_leaf [OF assms] by (simp add: view_def)

lemma ex_kmap_ok: "kmap_ok {0x40000000} ex_big_ainv (\<lambda>b. - buddy_set (\<lambda>c. set (fst c)) b)
    (buddy_set (\<lambda>c. set (snd c))) ex_crit ex_kmap"
proof -
  have r: "cr3 ex_big_page = 0x2000" by (simp add: ex_big_page_def)
  have "finder_ok ex_big_page FreeFinder_new" by (simp add: finder_ok_def FreeFinder_new_def unmapped_def)
  then have "gm_ok ex_big_ainv (\<lambda>b. - buddy_set (\<lambda>c. set (fst c)) b) ex_crit ex_kmap"
    using ex_setup(1) ex_big_pt_inv r
    by (simp add: gm_ok_def ex_kmap_def ex_big_table_def IsSet_def GetPml4_def)
  moreover have "plain_tables ex_big_page"
    unfolding plain_tables_def r
  proof (intro allI impI)
    fix p i t assume p: "user_path (p @ [i])" and t: "tab (pmem ex_big_page) 0x2000 p = Some t"
    note P = user_path_snocD [OF p]
    have z: "i \<noteq> 0x1ff \<or> t \<noteq> 0x2000" using p ex_big_tab [OF _ t] P by (auto simp: user_path_def)
    have "i \<noteq> 0x1ff \<longrightarrow> pmem ex_big_page (entry_at 0x2000 i) = (if i = 0 then 0x3003 else 0)"
      using ex_big_entries(1) P by blast
    with ex_big_tab [OF _ t] P ex_big_entries(2) [of i] z
    have "pmem ex_big_page (entry_at t i) \<in> {0, 0x3003, 0x40000083}" by (auto split: if_splits)
    then show "pmem ex_big_page (entry_at t i) AND 0x7FFFFFFFFFFFF000 = pframe (pmem ex_big_page (entry_at t i))"
      if "present (pmem ex_big_page (entry_at t i))" "\<not> huge (pmem ex_big_page (entry_at t i))"
      using that by (auto simp: pframe_def present_def huge_def)
  qed
  moreover have "owned_tables (buddy_set (\<lambda>c. set (snd c))) {0x40000000} ex_big_page"
    unfolding owned_tables_def r
  proof (intro allI impI disjI2)
    fix p t assume "user_path p" "p \<noteq> []" "tab (pmem ex_big_page) 0x2000 p = Some t"
    then have "p = [0]" using ex_big_tab by blast
    then show "\<exists>w \<in> {0x40000000}. vpath w (length p) = p" using kernel_slot [of "0x40000000"] by simp
  qed
  moreover have "view ex_big_page 0x40000000 = Some (page_of 1 0x40000083 0x40000000)"
    using ex_kmap_view [of "0x40000000"] by (simp add: pt_index_def)
  moreover have "tab (pmem ex_big_page) 0x2000 [0] = Some 0x3000"
    using ex_big_path [of 1] kernel_slot [of "0x40000000"] r by (simp del: tab.simps)
  ultimately show ?thesis
    by (simp add: kmap_ok_def ex_kmap_def r page_of_def present_def del: tab.simps)
qed

text \<open>The gigabyte behind it is mapped, to itself.\<close>

theorem GlobalMap_refines_witness:
  "\<exists>g'. run_op ex_crit (OpMapAt 0x80000000 0x80000000 \<lparr>pageSize = 0x40000000, pageCount = 1\<rparr> default_attributes) ex_kmap
        = Inr (None, g')
    \<and> mmu_translate (pmem (mach g')) (cr3 (mach g')) 0x80123456 = Some 0x80123456
    \<and> mmu_translate (pmem (mach ex_kmap)) (cr3 (mach ex_kmap)) 0x80123456 = None"
proof -
  let ?sz = "\<lparr>pageSize = 0x40000000, pageCount = 1\<rparr> :: mm_size"
  let ?op = "OpMapAt 0x80000000 0x80000000 ?sz default_attributes"
  have rng: "in_range 0x80000000 ?sz va \<longleftrightarrow> 0x80000000 \<le> unat va \<and> unat va < 0xC0000000" for va
    by (simp add: in_run_def size_depth_def page_bits_def)
  have "page_depth pg = 1" if "in_range 0x80000000 ?sz va" "view ex_big_page va = Some pg" for va pg
    using that ex_kmap_view [of va] unfolding rng by (auto simp: page_of_def split: if_splits)
  then have a: "op_allowed {0x40000000} (freeFinder ex_kmap) (view (mach ex_kmap)) ?op"
    using rng by (auto simp: good_range_def good_size_def good_frames_def nothing_larger_def outside_finder_def
      spares_def ex_kmap_def FreeFinder_new_def size_depth_def)
  have P: "page_pool (al_Alloc (allocator (pageTable ex_kmap))) ex_big_ainv (\<lambda>b. - buddy_set (\<lambda>c. set (fst c)) b)
      (al_Free (allocator (pageTable ex_kmap))) (buddy_set (\<lambda>c. set (snd c)))"
    using ex_big_pool by (simp add: ex_kmap_def)
  have "\<not> isl (run_op ex_crit ?op ex_kmap)" by code_simp
  then obtain x g' where g': "run_op ex_crit ?op ex_kmap = Inr (x, g')" by (cases "run_op ex_crit ?op ex_kmap") auto
  have x: "x = None" using g' by (auto simp: no_result_def)
  have "canonical 0x80123456" "(0x80123456 :: u64) < UserEnd" by (simp_all add: canonical_def UserEnd_def)
  with GlobalMap_refines [OF P ex_kmap_ok a] g'
  have "mmu_translate (pmem (mach g')) (cr3 (mach g')) 0x80123456 = Some 0x80123456"
    using rng [of "0x80123456"] by (auto simp: map_run_def on_run_def)
  moreover have "mmu_translate (pmem (mach ex_kmap)) (cr3 (mach ex_kmap)) 0x80123456 = None" by code_simp
  ultimately show ?thesis using g' x by blast
qed

section \<open>Reachable maps\<close>

text \<open>What an operation leaves alone.\<close>

lemma outside_run: "\<not> in_run d addr n w \<Longrightarrow> on_run d addr n B A w = A w"
  by (simp add: on_run_def)

lemma op_spares:
  assumes a: "op_allowed K f A op" and s: "op_spec op A r A'" and w: "w \<in> K" "A w = Some pg" "pg \<noteq> Reserved 3"
  shows "A' w = A w"
proof -
  have free: "\<not> in_range addr sz w" if "free_range A addr sz" for addr sz
    using that w(2,3) unfolding free_range_def by auto
  have sp: "\<not> in_range addr sz w" if "spares K addr sz" for addr sz using that w(1) by (simp add: spares_def)
  note d = map_run_def reserve_run_def clear_run_def
  show ?thesis
  proof (cases op)
    case (OpRereserve addr sz new)
    then have "\<not> in_range addr \<lparr>pageSize = new, pageCount = Bytes sz div new\<rparr> w"
      using resized_range(2) [of addr sz new w] a sp [of addr sz] by simp
    then show ?thesis using s OpRereserve by (simp add: d outside_run)
  qed (use a s free sp in \<open>auto simp: d outside_run split: option.splits\<close>)
qed

lemma run_op_pdpt: "run_op c op g = Inr (r, g') \<Longrightarrow> gm_pdpt g' = gm_pdpt g"
  by (cases op) (auto simp: no_result_def GlobalMap_Map_def GlobalMap_MapAt_def GlobalMap_Reserve_def
    GlobalMap_ReserveAt_def GlobalMap_Unmap_def GlobalMap_UnmapAndReserve_def GlobalMap_Unreserve_def
    GlobalMap_Rereserve_def gm_SetList_def gm_unset_def gm_Invlpg_def Let_def split: option.splits)

text \<open>The maps that operations make of a first one, each operation within what it is allowed.\<close>

inductive map_reach :: "crit \<Rightarrow> VirtAddr set \<Rightarrow> 'a gmap \<Rightarrow> 'a gmap \<Rightarrow> bool" for c K g0 where
  start: "map_reach c K g0 g0"
| step: "map_reach c K g0 g \<Longrightarrow> op_allowed K (freeFinder g) (view (mach g)) op \<Longrightarrow> run_op c op g = Inr (r, g')
    \<Longrightarrow> map_reach c K g0 g'"

lemma map_reach_ok:
  assumes P: "page_pool (al_Alloc (allocator (pageTable g))) ainv taken (al_Free (allocator (pageTable g))) pages"
    and R: "map_reach c K g g'" and g: "kmap_ok K ainv taken pages c g"
  shows "kmap_ok K ainv taken pages c g' \<and> pageTable g' = pageTable g \<and> gm_pdpt g' = gm_pdpt g
    \<and> (\<forall>w \<in> K. view (mach g') w = view (mach g) w)"
  using R
proof (induction rule: map_reach.induct)
  case start
  then show ?case using g by simp
next
  case (step g1 op r g2)
  then have I: "kmap_ok K ainv taken pages c g1" "pageTable g1 = pageTable g" by auto
  have D: "op_done K ainv taken pages c op g1 (Inr (r, g2))"
    using page_pool.run_op_done [OF P _ _ I(1) step.hyps(2)] I(2) step.hyps(3) by simp
  then have "view (mach g2) w = view (mach g1) w" if "w \<in> K" for w
    using op_spares [OF step.hyps(2) _ that] kmap_okD(5) [OF I(1) that] unfolding op_done_def by auto
  with D step.IH run_op_pdpt [OF step.hyps(3)] show ?case unfolding op_done_def by auto
qed

section \<open>From the boot on\<close>

text \<open>
  C1. The kernel's map is well formed from the boot on. Whatever memory regions the boot loader
  reports, GlobalMap::Initialize either stops by a panic or a failed assertion of its own, or leaves a map
  and a set K of addresses, among them all of the reserved memory, such that after any
  sequence of operations that are within bounds and spare K: the map is in the invariant of the refinement,
  the buddy allocator still owns no frame of a live table among its free ones, the reserved
  memory still translates to itself, the slot of the kernel in the PML4 is still the table that
  every user map shares, and the next such operation can fail only by a fault of the code's own,
  never by an access to a page that is not mapped.
\<close>

theorem kernel_map_safe:
  fixes bootCr3 :: u64
  assumes "regions_ok an (bi_regions info)" and "noncritical c"
    and "ms = MapSetup_new ansaAlign sizeofBuddy sizeofTable sizeofFinder info junk m"
    and "ms_reservedEnd ms \<noteq> 0" and "unat (ms_reservedEnd ms) \<le> 2 ^ 39"
    and "clusters_ok cl createAllocators linv uinv cfree cpages (bi_regions info)"
    and "\<forall>rs \<in> {lowerRegions (bi_regions info), upperRegions (bi_regions info)}. rs \<noteq> [] \<longrightarrow>
      0 < requiredSpace rs \<and> unat (requiredSpace rs) \<le> 2 ^ 38"
  shows "case GlobalMap_Initialize c an cl requiredSpace createAllocators getSize emptyCluster (bi_regions info) bootCr3 ms of
      Inl flt \<Rightarrow> own_fault flt
    | Inr g \<Rightarrow> \<exists>K. first_pages (pages_2m (ms_reservedEnd ms)) \<subseteq> K \<and> (\<forall>g'. map_reach c K g g' \<longrightarrow>
        kmap_ok K (buddy_inv c cl linv uinv cfree cpages) (\<lambda>b. - buddy_set cfree b) (buddy_set cpages) c g'
        \<and> (\<forall>w \<in> first_pages (pages_2m (ms_reservedEnd ms)). mmu_translate (pmem (mach g')) (cr3 (mach g')) w = Some w)
        \<and> gm_pdpt g' = gm_pdpt g \<and> tab (pmem (mach g')) (cr3 (mach g')) [0] = Some (gm_pdpt g)
        \<and> (\<forall>op flt. op_allowed K (freeFinder g') (view (mach g')) op \<and> run_op c op g' = Inl flt \<longrightarrow> own_fault flt))"
proof -
  have u: "firstUnmapped ms = 0" by (simp add: assms(3) MapSetup_new_def Let_def)
  note I = GlobalMap_Initialize_ok [OF assms(1,2) u assms(4-6), of requiredSpace getSize emptyCluster bootCr3]
  show ?thesis
  proof (cases "GlobalMap_Initialize c an cl requiredSpace createAllocators getSize emptyCluster (bi_regions info) bootCr3 ms")
    case (Inl flt)
    then show ?thesis using I assms(7) by simp
  next
    case (Inr g)
    let ?X = "first_pages (pages_2m (ms_reservedEnd ms))"
    let ?ok = "\<lambda>K. kmap_ok K (buddy_inv c cl linv uinv cfree cpages) (\<lambda>b. - buddy_set cfree b) (buddy_set cpages) c"
    obtain K where al: "allocator (pageTable g) = BuddyAllocator_ops c cl" and K: "?X \<subseteq> K" "?ok K g"
      and id: "\<And>w. w \<in> ?X \<Longrightarrow> \<exists>d a. view (mach g) w = Some (Mapped d w a)"
      using I assms(7) Inr by auto
    have al': "al_Alloc (BuddyAllocator_ops c cl) = Buddy_Alloc c cl" "al_Free (BuddyAllocator_ops c cl) = Buddy_Free c cl"
      by (simp_all add: BuddyAllocator_ops_def)
    have P: "page_pool (al_Alloc (allocator (pageTable g))) (buddy_inv c cl linv uinv cfree cpages) (\<lambda>b. - buddy_set cfree b)
        (al_Free (allocator (pageTable g))) (buddy_set cpages)"
      unfolding al al' by (rule buddy.page_pool_axioms)
    show ?thesis unfolding Inr sum.case
    proof (intro exI [of _ K] conjI allI impI ballI K(1))
      fix g' assume "map_reach c K g g'"
      from map_reach_ok [OF P this K(2)] have g': "?ok K g'" "pageTable g' = pageTable g" "gm_pdpt g' = gm_pdpt g"
        "\<And>w. w \<in> K \<Longrightarrow> view (mach g') w = view (mach g) w" by auto
      show "?ok K g'" "gm_pdpt g' = gm_pdpt g" by (rule g')+
      show "tab (pmem (mach g')) (cr3 (mach g')) [0] = Some (gm_pdpt g)" using kmap_okD(6) [OF g'(1)] g'(3) by simp
      show "own_fault flt" if "op_allowed K (freeFinder g') (view (mach g')) op \<and> run_op c op g' = Inl flt" for op flt
        using page_pool.run_op_done [OF P _ _ g'(1)] g'(2) that by (fastforce simp: op_done_def own_fault_def)
      fix w assume w: "w \<in> ?X"
      then have wK: "w \<in> K" using K(1) by blast
      obtain d a where "view (mach g') w = Some (Mapped d w a)" using id [OF w] g'(4) [OF wK] by auto
      then show "mmu_translate (pmem (mach g')) (cr3 (mach g')) w = Some w"
        using view_translate [OF gm_okD(3) [OF kmap_okD(1) [OF g'(1)]] kernel_addr [OF kmap_okD(4) [OF g'(1) wK], THEN conjunct1]
          kernel_addr [OF kmap_okD(4) [OF g'(1) wK], THEN conjunct2]] by simp
    qed
  qed
qed

text \<open>The boot of the example regions, with two free frames and a cluster that honours Reserve.\<close>

definition ex_boot_cluster :: "(u64 list \<times> u64 list) cluster_ops" where
  "ex_boot_cluster = ex_cluster\<lparr>cl_Reserve := \<lambda>(fr, pg) _ l. (filter (\<lambda>f. \<not> f < l) fr, pg)\<rparr>"

definition ex_layout :: "(u64 \<times> u64) list \<Rightarrow> VirtAddr \<Rightarrow> u64 list \<times> u64 list" where
  "ex_layout rs a = (if rs = [] then [] else [0x2000000, 0x2001000], [])"

lemma ex_clusters_ok: "clusters_ok ex_boot_cluster ex_layout (ex_cinv 0 0x100000000) (ex_cinv 0x100000000 0x10000000000000)
    (\<lambda>c. set (fst c)) (\<lambda>c. set (snd c)) ex_regions"
proof -
  have "cluster_ok ex_boot_cluster (ex_cinv lo hi) (\<lambda>c. set (fst c)) (\<lambda>c. set (snd c)) lo hi" for lo hi
    using ex_cluster_ok [of lo hi] by (simp add: cluster_ok_def ex_boot_cluster_def)
  then show ?thesis
    by (auto simp: clusters_ok_def ex_boot_cluster_def ex_layout_def ex_regions_def ex_cinv_def is_frame_def pframe_def)
qed

abbreviation ex_boot :: "(u64 list \<times> u64 list) buddy gmap res" where
  "ex_boot \<equiv> GlobalMap_Initialize ex_crit ex_analloc ex_boot_cluster (\<lambda>_. 0x1000) ex_layout snd ([], []) (bi_regions ex_info) 0 ex_setup"

theorem kernel_map_safe_witness:
  "case ex_boot of
      Inl flt \<Rightarrow> own_fault flt
    | Inr g \<Rightarrow> mmu_translate (pmem (mach g)) (cr3 (mach g)) 0x24CABC = Some 0x24CABC"
proof -
  have e: "ms_reservedEnd ex_setup = 0x24F000"
    by (simp add: ex_setup_def MapSetup_new_def ex_align_def ex_info_def Let_def)
  have R: "bi_regions ex_info = ex_regions" by (simp add: ex_info_def)
  have "0x24CABC \<in> first_pages (pages_2m (ms_reservedEnd ex_setup))" unfolding e by (simp add: pages_2m_def)
  moreover note kernel_map_safe [where info = ex_info and ?bootCr3.0 = 0 and requiredSpace = "\<lambda>_. 0x1000" and getSize = snd
      and emptyCluster = "([], [])", OF _ ex_setup(1) ex_setup_def, folded ex_setup_def, unfolded R,
      OF ex_regions_ok _ _ ex_clusters_ok]
  ultimately show ?thesis
    unfolding R by (auto simp: e split: sum.splits intro: map_reach.start)
qed

end
