(* ===== verification/Modules.thy ===== *)
theory Modules
  imports Main
begin

text \<open>
  The modules of the kernel and what each one asks to be initialised before it: their
  \<^verbatim>\<open>GetDependencies\<close> and \<^verbatim>\<open>GetSuperDependencies\<close> methods, and the order in which
  \<^verbatim>\<open>InitializeSingletons\<close> (\<^verbatim>\<open>src/arch/x64/public/init.cpp\<close>) constructs them. The class
  \<^verbatim>\<open>ansa::Module\<close>, which loads a module after its dependencies, is not part of the
  repository.
\<close>

datatype kmodule =
    CriticalModule | SyscallModule | GlobalMallocModule | IOApicModule | TextConsoleModule | PanicModule
  | LapicModule | TimerModule | ClockModule | DomainListModule | AcpiModule | GlobalMapModule
  | TlbModule | IdtModule | IrtModule | PicModule | GdtModule | StreamModule

section \<open>Construction and dependencies\<close>

text \<open>The order of construction; every one of them writes one global object only.\<close>

definition InitializeSingletons :: "kmodule list" where
  "InitializeSingletons =
     [CriticalModule, SyscallModule, GlobalMallocModule, IOApicModule, TextConsoleModule, PanicModule,
      LapicModule, TimerModule, ClockModule, DomainListModule, AcpiModule, GlobalMapModule,
      TlbModule, IdtModule, IrtModule, PicModule, GdtModule] @ [StreamModule]"

definition Stream_GetDependencies :: "kmodule list" where
  "Stream_GetDependencies = [TextConsoleModule]"

definition TextConsole_GetDependencies :: "kmodule list" where
  "TextConsole_GetDependencies = []"

definition Idt_GetDependencies :: "kmodule list" where
  "Idt_GetDependencies = []"

definition Irt_GetDependencies :: "kmodule list" where
  "Irt_GetDependencies = [IdtModule, StreamModule]"

definition Pic_GetDependencies :: "kmodule list" where
  "Pic_GetDependencies = [StreamModule]"

definition Critical_GetDependencies :: "kmodule list" where
  "Critical_GetDependencies = [IrtModule, PicModule, StreamModule]"

definition GlobalMap_GetDependencies :: "kmodule list" where
  "GlobalMap_GetDependencies = [StreamModule]"

definition GlobalMalloc_GetDependencies :: "kmodule list" where
  "GlobalMalloc_GetDependencies = [GlobalMapModule, StreamModule]"

definition Acpi_GetDependencies :: "kmodule list" where
  "Acpi_GetDependencies = [GlobalMallocModule, StreamModule]"

definition Lapic_GetDependencies :: "kmodule list" where
  "Lapic_GetDependencies = [GlobalMapModule, StreamModule]"

definition IOApic_GetDependencies :: "kmodule list" where
  "IOApic_GetDependencies = [AcpiModule, GlobalMallocModule, StreamModule, CriticalModule]"

definition Clock_GetDependencies :: "kmodule list" where
  "Clock_GetDependencies = [IrtModule, IOApicModule, LapicModule, GlobalMallocModule, AcpiModule, StreamModule]"

definition Gdt_GetDependencies :: "kmodule list" where
  "Gdt_GetDependencies = [GlobalMallocModule]"

definition DomainList_GetDependencies :: "kmodule list" where
  "DomainList_GetDependencies =
     [CriticalModule, IOApicModule, LapicModule, ClockModule, GdtModule, StreamModule, IrtModule]"

definition DomainList_GetSuperDependencies :: "kmodule list" where
  "DomainList_GetSuperDependencies = [PanicModule, TlbModule, TimerModule]"

definition Panic_GetDependencies :: "kmodule list" where
  "Panic_GetDependencies = [IrtModule, LapicModule, DomainListModule]"

definition Tlb_GetDependencies :: "kmodule list" where
  "Tlb_GetDependencies = [IrtModule, LapicModule, DomainListModule]"

definition Timer_GetDependencies :: "kmodule list" where
  "Timer_GetDependencies = [DomainListModule]"

definition Syscall_GetDependencies :: "kmodule list" where
  "Syscall_GetDependencies = [DomainListModule]"

fun GetDependencies :: "kmodule \<Rightarrow> kmodule list" where
  "GetDependencies StreamModule = Stream_GetDependencies"
| "GetDependencies TextConsoleModule = TextConsole_GetDependencies"
| "GetDependencies IdtModule = Idt_GetDependencies"
| "GetDependencies IrtModule = Irt_GetDependencies"
| "GetDependencies PicModule = Pic_GetDependencies"
| "GetDependencies CriticalModule = Critical_GetDependencies"
| "GetDependencies GlobalMapModule = GlobalMap_GetDependencies"
| "GetDependencies GlobalMallocModule = GlobalMalloc_GetDependencies"
| "GetDependencies AcpiModule = Acpi_GetDependencies"
| "GetDependencies LapicModule = Lapic_GetDependencies"
| "GetDependencies IOApicModule = IOApic_GetDependencies"
| "GetDependencies ClockModule = Clock_GetDependencies"
| "GetDependencies GdtModule = Gdt_GetDependencies"
| "GetDependencies DomainListModule = DomainList_GetDependencies"
| "GetDependencies PanicModule = Panic_GetDependencies"
| "GetDependencies TlbModule = Tlb_GetDependencies"
| "GetDependencies TimerModule = Timer_GetDependencies"
| "GetDependencies SyscallModule = Syscall_GetDependencies"

lemmas dependency_defs = Stream_GetDependencies_def TextConsole_GetDependencies_def Idt_GetDependencies_def
  Irt_GetDependencies_def Pic_GetDependencies_def Critical_GetDependencies_def GlobalMap_GetDependencies_def
  GlobalMalloc_GetDependencies_def Acpi_GetDependencies_def Lapic_GetDependencies_def IOApic_GetDependencies_def
  Clock_GetDependencies_def Gdt_GetDependencies_def DomainList_GetDependencies_def Panic_GetDependencies_def
  Tlb_GetDependencies_def Timer_GetDependencies_def Syscall_GetDependencies_def

text \<open>Every module comes after the ones it depends on.\<close>

fun order_ok :: "kmodule list \<Rightarrow> kmodule list \<Rightarrow> bool" where
  "order_ok seen [] \<longleftrightarrow> True"
| "order_ok seen (m # ms) \<longleftrightarrow> set (GetDependencies m) \<subseteq> set seen \<and> m \<notin> set seen \<and> order_ok (m # seen) ms"

section \<open>Properties\<close>

lemma InitializeSingletons_all: "set InitializeSingletons = UNIV"
proof (intro UNIV_eq_I [symmetric])
  show "m \<in> set InitializeSingletons" for m by (cases m) (simp_all add: InitializeSingletons_def)
qed

lemma InitializeSingletons_distinct: "distinct InitializeSingletons"
  by (simp add: InitializeSingletons_def)

text \<open>The order of construction lists the type, so quantifiers over modules are computed.\<close>

instantiation kmodule :: enum
begin

definition enum_kmodule :: "kmodule list" where
  "enum_kmodule = InitializeSingletons"

definition enum_all_kmodule :: "(kmodule \<Rightarrow> bool) \<Rightarrow> bool" where
  "enum_all_kmodule P \<longleftrightarrow> list_all P InitializeSingletons"

definition enum_ex_kmodule :: "(kmodule \<Rightarrow> bool) \<Rightarrow> bool" where
  "enum_ex_kmodule P \<longleftrightarrow> list_ex P InitializeSingletons"

instance
  by standard (simp_all add: enum_kmodule_def enum_all_kmodule_def enum_ex_kmodule_def InitializeSingletons_all
    InitializeSingletons_distinct list_all_iff list_ex_iff)

end

text \<open>The longest chain of dependencies below a module.\<close>

fun depth_of :: "kmodule \<Rightarrow> nat" where
  "depth_of TextConsoleModule = 0"
| "depth_of IdtModule = 0"
| "depth_of StreamModule = 1"
| "depth_of IrtModule = 2"
| "depth_of PicModule = 2"
| "depth_of GlobalMapModule = 2"
| "depth_of CriticalModule = 3"
| "depth_of GlobalMallocModule = 3"
| "depth_of LapicModule = 3"
| "depth_of AcpiModule = 4"
| "depth_of GdtModule = 4"
| "depth_of IOApicModule = 5"
| "depth_of ClockModule = 6"
| "depth_of DomainListModule = 7"
| "depth_of PanicModule = 8"
| "depth_of TlbModule = 8"
| "depth_of TimerModule = 8"
| "depth_of SyscallModule = 8"

lemma depth_of_dependency: "d \<in> set (GetDependencies m) \<Longrightarrow> depth_of d < depth_of m"
  by (cases m) (auto simp: dependency_defs)


end
