(* ===== verification/Locks.thy ===== *)
theory Locks
  imports Critical
begin

text \<open>
  Locks (\<^verbatim>\<open>src/util/lock.hpp\<close>, \<^verbatim>\<open>src/util/lock.cpp\<close>): CriticalLock on top of ansa's
  lock, and the locks of the kernel taken by several CPUs at once. What a piece of code does to
  locks and interrupts is a command whose traces are the sequences it can go through; a check
  of the command says that it keeps the order of the locks, and a system of CPUs that run
  checked commands, with interrupts between them and the notifications of Tlb, never gets stuck.
\<close>

section \<open>CriticalLock\<close>

text \<open>ansa's OrderedLock and ScopedLock are not part of the repository.\<close>

record 'l ordered_lock =
  ol_Seize :: "'l \<Rightarrow> 'l res"
  ol_Release :: "'l \<Rightarrow> 'l res"

definition CriticalLock_Seize :: "'l ordered_lock \<Rightarrow> crit \<Rightarrow> 'l \<Rightarrow> 'l res" where
  "CriticalLock_Seize super c l = bindE (AssertCritical c) (\<lambda>_. ol_Seize super l)"

definition CriticalLock_Release :: "'l ordered_lock \<Rightarrow> crit \<Rightarrow> 'l \<Rightarrow> 'l res" where
  "CriticalLock_Release super c l = bindE (AssertCritical c) (\<lambda>_. ol_Release super l)"

section \<open>The locks of the kernel and their order\<close>

text \<open>
  One lock for each object that has one: user maps, heap segments, I/O APICs and CPUs have a number.
\<close>

datatype lock =
    UserMapLock nat | GlobalMapLock | FirstLock | SegmentLock nat | UpperLock | LowerLock | TlbLock
  | InitLock | TableLock nat | RegLock nat | ConsoleLock | WakeupLock nat

fun critical_lock :: "lock \<Rightarrow> bool" where
  "critical_lock InitLock = True"
| "critical_lock (TableLock k) = True"
| "critical_lock (RegLock k) = True"
| "critical_lock ConsoleLock = True"
| "critical_lock (WakeupLock k) = True"
| "critical_lock _ = False"

text \<open>A lock is only taken while all the locks that are held have a smaller rank.\<close>

fun rank :: "lock \<Rightarrow> nat" where
  "rank (UserMapLock k) = 0"
| "rank GlobalMapLock = 1"
| "rank FirstLock = 2"
| "rank (SegmentLock k) = 2"
| "rank UpperLock = 2"
| "rank LowerLock = 2"
| "rank TlbLock = 2"
| "rank InitLock = 3"
| "rank (TableLock k) = 3"
| "rank (RegLock k) = 4"
| "rank ConsoleLock = 5"
| "rank (WakeupLock k) = 5"

lemma rank_bound: "rank l \<le> 5"
  by (cases l) simp_all

lemma rank_critical: "critical_lock l \<Longrightarrow> rank l \<le> rank l' \<Longrightarrow> critical_lock l'"
  by (cases l; cases l') simp_all

section \<open>What code does to locks and interrupts\<close>

text \<open>
  \<open>Sync\<close> sends the notification of Tlb to every other CPU and is followed by \<open>Await\<close>, the wait
  until all of them have acknowledged it.
\<close>

datatype act = Seize lock | Release lock | Cli | Sti | Sync | Await

datatype cmd = Skip | Act act | Seq cmd cmd | Choice cmd cmd | Loop cmd

inductive trace :: "cmd \<Rightarrow> act list \<Rightarrow> bool" where
  trace_Skip: "trace Skip []"
| trace_Act: "trace (Act a) [a]"
| trace_Seq: "trace c as \<Longrightarrow> trace d bs \<Longrightarrow> trace (Seq c d) (as @ bs)"
| trace_Choice1: "trace c as \<Longrightarrow> trace (Choice c d) as"
| trace_Choice2: "trace d as \<Longrightarrow> trace (Choice c d) as"
| trace_Loop0: "trace (Loop c) []"
| trace_Loop: "trace c as \<Longrightarrow> trace (Loop c) bs \<Longrightarrow> trace (Loop c) (as @ bs)"

text \<open>
  The scopes of the code: ScopedLock, or Seize and Release around a piece of code, and
  ScopedCritical, which is counted because an inner one changes nothing.
\<close>

definition Locked :: "lock \<Rightarrow> cmd \<Rightarrow> cmd" where
  "Locked l c = Seq (Act (Seize l)) (Seq c (Act (Release l)))"

definition InCritical :: "cmd \<Rightarrow> cmd" where
  "InCritical c = Seq (Act Cli) (Seq c (Act Sti))"

abbreviation Maybe :: "cmd \<Rightarrow> cmd" where
  "Maybe c \<equiv> Choice Skip c"

text \<open>
  The discipline, on the locks a CPU holds and the depth of its critical sections: locks in
  order, critical locks only in critical sections and the others only outside, no
  critical lock when the last section ends or while waiting for other CPUs.
\<close>

fun act_ok :: "act \<Rightarrow> lock list \<times> nat \<Rightarrow> bool" where
  "act_ok (Seize l) (H, d) \<longleftrightarrow> (critical_lock l \<longleftrightarrow> 0 < d) \<and> (\<forall>h \<in> set H. rank h < rank l)"
| "act_ok (Release l) (H, d) \<longleftrightarrow> (critical_lock l \<longleftrightarrow> 0 < d) \<and> l \<in> set H"
| "act_ok Cli (H, d) \<longleftrightarrow> True"
| "act_ok Sti (H, d) \<longleftrightarrow> 0 < d \<and> (d = 1 \<longrightarrow> (\<forall>h \<in> set H. \<not> critical_lock h))"
| "act_ok Sync (H, d) \<longleftrightarrow> 0 < d \<and> TlbLock \<in> set H \<and> (\<forall>h \<in> set H. \<not> critical_lock h)"
| "act_ok Await (H, d) \<longleftrightarrow> 0 < d \<and> TlbLock \<in> set H \<and> (\<forall>h \<in> set H. \<not> critical_lock h)"

fun after :: "act \<Rightarrow> lock list \<times> nat \<Rightarrow> lock list \<times> nat" where
  "after (Seize l) (H, d) = (l # H, d)"
| "after (Release l) (H, d) = (removeAll l H, d)"
| "after Cli (H, d) = (H, Suc d)"
| "after Sti (H, d) = (H, d - 1)"
| "after Sync (H, d) = (H, d)"
| "after Await (H, d) = (H, d)"

fun run_acts :: "act list \<Rightarrow> lock list \<times> nat \<Rightarrow> (lock list \<times> nat) option" where
  "run_acts [] st = Some st"
| "run_acts (a # as) st = (if act_ok a st then run_acts as (after a st) else None)"

lemma run_acts_append: "run_acts (as @ bs) st = Option.bind (run_acts as st) (run_acts bs)"
  by (induction as arbitrary: st) simp_all

text \<open>The same on commands; a choice has to end alike, a loop where it began.\<close>

fun check :: "cmd \<Rightarrow> lock list \<times> nat \<Rightarrow> (lock list \<times> nat) option" where
  "check Skip st = Some st"
| "check (Act a) st = (if act_ok a st then Some (after a st) else None)"
| "check (Seq c d) st = Option.bind (check c st) (check d)"
| "check (Choice c d) st = (if check c st = check d st then check c st else None)"
| "check (Loop c) st = (if check c st = Some st then Some st else None)"

lemma check_trace: "trace c as \<Longrightarrow> check c st = Some st' \<Longrightarrow> run_acts as st = Some st'"
proof (induction arbitrary: st st' rule: trace.induct)
  case (trace_Seq c as d bs)
  then obtain st1 where "check c st = Some st1" "check d st1 = Some st'" by (auto simp: bind_eq_Some_conv)
  then show ?case using trace_Seq.IH by (simp add: run_acts_append)
next
  case (trace_Loop c as bs)
  then show ?case by (auto simp: run_acts_append split: if_splits)
next
  case (trace_Choice1 c as d)
  have "check c st = Some st'" using trace_Choice1.prems by (simp split: if_splits)
  then show ?case by (rule trace_Choice1.IH)
next
  case (trace_Choice2 d as c)
  have "check d st = Some st'" using trace_Choice2.prems by (auto split: if_splits)
  then show ?case by (rule trace_Choice2.IH)
qed (auto split: if_splits)

text \<open>A command that ends as it begins, wherever its locks are in order.\<close>

definition balanced :: "cmd \<Rightarrow> lock list \<times> nat \<Rightarrow> bool" where
  "balanced c st \<longleftrightarrow> check c st = Some st"

lemma balanced_Skip: "balanced Skip st"
  by (simp add: balanced_def)

lemma balanced_Seq: "balanced c st \<Longrightarrow> balanced d st \<Longrightarrow> balanced (Seq c d) st"
  by (simp add: balanced_def)

lemma balanced_Choice: "balanced c st \<Longrightarrow> balanced d st \<Longrightarrow> balanced (Choice c d) st"
  by (simp add: balanced_def)

lemma balanced_Loop: "balanced c st \<Longrightarrow> balanced (Loop c) st"
  by (simp add: balanced_def)

lemma balanced_Locked:
  assumes "critical_lock l \<longleftrightarrow> 0 < d" "\<And>h. h \<in> set H \<Longrightarrow> rank h < rank l" "balanced c (l # H, d)"
  shows "balanced (Locked l c) (H, d)"
proof -
  have "l \<notin> set H" using assms(2) by blast
  then show ?thesis using assms by (simp add: balanced_def Locked_def removeAll_id)
qed

lemma balanced_InCritical:
  "balanced c (H, Suc d) \<Longrightarrow> (d = 0 \<Longrightarrow> \<forall>h \<in> set H. \<not> critical_lock h) \<Longrightarrow> balanced (InCritical c) (H, d)"
  by (simp add: balanced_def InCritical_def)

lemmas balanced_intros = balanced_Skip balanced_Seq balanced_Choice balanced_Loop balanced_Locked balanced_InCritical

section \<open>CPUs at work\<close>

text \<open>
  Every CPU has acts to do, holds locks and is in critical sections to some depth; the CPUs that have
  not acknowledged a notification are \<open>pending\<close>.
\<close>

record sys =
  todo :: "nat \<Rightarrow> act list"
  held :: "nat \<Rightarrow> lock list"
  depth :: "nat \<Rightarrow> nat"
  pending :: "nat set"

fun enabled :: "nat set \<Rightarrow> sys \<Rightarrow> act \<Rightarrow> bool" where
  "enabled N s (Seize l) \<longleftrightarrow> (\<forall>j \<in> N. l \<notin> set (held s j))"
| "enabled N s Await \<longleftrightarrow> pending s = {}"
| "enabled N s _ \<longleftrightarrow> True"

definition act_step :: "nat \<Rightarrow> act \<Rightarrow> act list \<Rightarrow> sys \<Rightarrow> sys" where
  "act_step i a as s = (let (H, d) = after a (held s i, depth s i) in
     s\<lparr>todo := (todo s)(i := as), held := (held s)(i := H), depth := (depth s)(i := d)\<rparr>)"

inductive work :: "nat set \<Rightarrow> sys \<Rightarrow> sys \<Rightarrow> bool" for N where
  act: "i \<in> N \<Longrightarrow> todo s i = a # as \<Longrightarrow> a \<noteq> Sync \<Longrightarrow> enabled N s a \<Longrightarrow> work N s (act_step i a as s)"
| send: "i \<in> N \<Longrightarrow> todo s i = Sync # as \<Longrightarrow> work N s (s\<lparr>todo := (todo s)(i := Await # as), pending := N - {i}\<rparr>)"
| ack: "j \<in> pending s \<Longrightarrow> depth s j = 0 \<Longrightarrow> work N s (s\<lparr>pending := pending s - {j}\<rparr>)"

text \<open>
  An interrupt comes between two acts of a CPU that is not critical; its handler runs in a critical
  section, on whatever locks the interrupted code holds.
\<close>

definition runs_critical :: "cmd \<Rightarrow> bool" where
  "runs_critical c \<longleftrightarrow> (\<forall>H. (\<forall>h \<in> set H. \<not> critical_lock h) \<longrightarrow> balanced c (H, 1))"

inductive sys_reach :: "nat set \<Rightarrow> sys \<Rightarrow> sys \<Rightarrow> bool" for N s0 where
  reach_start: "sys_reach N s0 s0"
| reach_work: "sys_reach N s0 s \<Longrightarrow> work N s s' \<Longrightarrow> sys_reach N s0 s'"
| reach_interrupt: "sys_reach N s0 s \<Longrightarrow> i \<in> N \<Longrightarrow> depth s i = 0 \<Longrightarrow> runs_critical h \<Longrightarrow> trace h as \<Longrightarrow>
    sys_reach N s0 (s\<lparr>todo := (todo s)(i := Cli # as @ Sti # todo s i)\<rparr>)"

section \<open>The invariant\<close>

definition cpu_ok :: "sys \<Rightarrow> nat \<Rightarrow> bool" where
  "cpu_ok s i \<longleftrightarrow> run_acts (todo s i) (held s i, depth s i) = Some ([], 0)
     \<and> (\<forall>l \<in> set (held s i). critical_lock l \<longrightarrow> 0 < depth s i)"

definition sys_ok :: "nat set \<Rightarrow> sys \<Rightarrow> bool" where
  "sys_ok N s \<longleftrightarrow> finite N \<and> pending s \<subseteq> N \<and> (\<forall>i \<in> N. cpu_ok s i)
     \<and> (\<forall>i \<in> N. \<forall>j \<in> N. i \<noteq> j \<longrightarrow> set (held s i) \<inter> set (held s j) = {})
     \<and> (pending s \<noteq> {} \<longrightarrow> (\<exists>i \<in> N. i \<notin> pending s \<and> (\<exists>as. todo s i = Await # as)))"

lemma sys_okD:
  assumes "sys_ok N s"
  shows "finite N" "pending s \<subseteq> N" "i \<in> N \<Longrightarrow> cpu_ok s i"
    "i \<in> N \<Longrightarrow> j \<in> N \<Longrightarrow> l \<in> set (held s i) \<Longrightarrow> l \<in> set (held s j) \<Longrightarrow> i = j"
    "pending s \<noteq> {} \<Longrightarrow> \<exists>i \<in> N. i \<notin> pending s \<and> (\<exists>as. todo s i = Await # as)"
  using assms unfolding sys_ok_def by blast+

lemma cpu_ok_next:
  assumes "cpu_ok s i" "todo s i = a # as"
  shows "act_ok a (held s i, depth s i)" "run_acts as (after a (held s i, depth s i)) = Some ([], 0)"
  using assms by (auto simp: cpu_ok_def split: if_splits)

lemma cpu_ok_cong: "todo s' i = todo s i \<Longrightarrow> held s' i = held s i \<Longrightarrow> depth s' i = depth s i \<Longrightarrow> cpu_ok s' i = cpu_ok s i"
  by (simp add: cpu_ok_def)

lemma act_step_simps [simp]:
  "todo (act_step i a as s) = (todo s)(i := as)"
  "held (act_step i a as s) = (held s)(i := fst (after a (held s i, depth s i)))"
  "depth (act_step i a as s) = (depth s)(i := snd (after a (held s i, depth s i)))"
  "pending (act_step i a as s) = pending s"
  by (simp_all add: act_step_def split: prod.splits)

text \<open>No critical lock outlives the section it was taken in.\<close>

lemma after_critical:
  assumes "act_ok a (H, d)" "\<forall>l \<in> set H. critical_lock l \<longrightarrow> 0 < d"
  shows "\<forall>l \<in> set (fst (after a (H, d))). critical_lock l \<longrightarrow> 0 < snd (after a (H, d))"
  using assms by (cases a) (auto split: if_splits)

lemma act_keeps:
  assumes s: "sys_ok N s" and i: "i \<in> N" and t: "todo s i = a # as" and a: "a \<noteq> Sync" and e: "enabled N s a"
  shows "sys_ok N (act_step i a as s)"
proof -
  note S = sys_okD [OF s]
  have C: "cpu_ok s i" by (rule S(3) [OF i])
  note nx = cpu_ok_next [OF C t]
  have "cpu_ok (act_step i a as s) i"
    using nx(2) after_critical [OF nx(1)] C by (simp add: cpu_ok_def)
  moreover have "cpu_ok (act_step i a as s) j" if "j \<in> N" "j \<noteq> i" for j
    using S(3) [OF that(1)] that(2) by (simp add: cpu_ok_def)
  moreover have "set (fst (after a (held s i, depth s i))) \<inter> set (held s j) = {}" if "j \<in> N" "i \<noteq> j" for j
    using S(4) [OF i that(1)] e that by (cases a) auto
  moreover have "\<exists>k \<in> N. k \<notin> pending s \<and> (\<exists>bs. todo (act_step i a as s) k = Await # bs)" if p: "pending s \<noteq> {}"
  proof -
    obtain k bs where k: "k \<in> N" "k \<notin> pending s" "todo s k = Await # bs" using S(5) [OF p] by blast
    have "k \<noteq> i" using k(3) t e p by auto
    then show ?thesis using k by auto
  qed
  ultimately show ?thesis using S(1,2,4) unfolding sys_ok_def by (auto simp: Int_commute)
qed

lemma work_keeps: "work N s s' \<Longrightarrow> sys_ok N s \<Longrightarrow> sys_ok N s'"
proof (induction rule: work.induct)
  case (act i s a as)
  then show ?case by (intro act_keeps)
next
  case (send i s as)
  note S = sys_okD [OF send.prems]
  have "cpu_ok (s\<lparr>todo := (todo s)(i := Await # as), pending := N - {i}\<rparr>) j" if "j \<in> N" for j
    using S(3) [OF that] send.hyps(2) by (auto simp: cpu_ok_def split: if_splits)
  then show ?case using S(1,4) send.hyps(1) unfolding sys_ok_def by auto
next
  case (ack j s)
  have "cpu_ok (s\<lparr>pending := pending s - {j}\<rparr>) k = cpu_ok s k" for k by (simp add: cpu_ok_def)
  moreover have "\<exists>i \<in> N. i \<notin> pending s - {j} \<and> (\<exists>as. todo s i = Await # as)"
    using sys_okD(5) [OF ack.prems] ack.hyps(1) by blast
  ultimately show ?case using ack.prems unfolding sys_ok_def by auto
qed

lemma interrupt_keeps:
  assumes s: "sys_ok N s" and i: "i \<in> N" "depth s i = 0" and h: "runs_critical h" "trace h as"
  shows "sys_ok N (s\<lparr>todo := (todo s)(i := Cli # as @ Sti # todo s i)\<rparr>)"
proof -
  note S = sys_okD [OF s]
  have C: "cpu_ok s i" by (rule S(3) [OF i(1)])
  then have n: "\<forall>l \<in> set (held s i). \<not> critical_lock l" using i(2) by (auto simp: cpu_ok_def)
  then have "run_acts as (held s i, 1) = Some (held s i, 1)"
    using h check_trace unfolding runs_critical_def balanced_def by blast
  then have "run_acts (Cli # as @ Sti # todo s i) (held s i, depth s i) = Some ([], 0)"
    using C i(2) n by (simp add: run_acts_append cpu_ok_def)
  then have "cpu_ok (s\<lparr>todo := (todo s)(i := Cli # as @ Sti # todo s i)\<rparr>) j" if "j \<in> N" for j
    using S(3) [OF that] C by (auto simp: cpu_ok_def)
  moreover have "\<exists>k \<in> N. k \<notin> pending s \<and> (\<exists>bs. ((todo s)(i := Cli # as @ Sti # todo s i)) k = Await # bs)" if p: "pending s \<noteq> {}"
  proof -
    obtain k bs where k: "k \<in> N" "k \<notin> pending s" "todo s k = Await # bs" using S(5) [OF p] by blast
    have "k \<noteq> i" using cpu_ok_next(1) [OF S(3) [OF k(1)] k(3)] i(2) by auto
    then show ?thesis using k by auto
  qed
  ultimately show ?thesis using S(1,2,4) unfolding sys_ok_def by auto
qed

lemma sys_reach_ok: "sys_reach N s0 s \<Longrightarrow> sys_ok N s0 \<Longrightarrow> sys_ok N s"
  by (induction rule: sys_reach.induct) (auto intro: work_keeps interrupt_keeps)

section \<open>Progress\<close>

text \<open>Behind a lock that is held there is a CPU that does not wait for a lock itself.\<close>

lemma holder_moves:
  assumes s: "sys_ok N s"
  shows "k \<in> N \<Longrightarrow> l \<in> set (held s k) \<Longrightarrow>
    \<exists>j \<in> N. \<exists>m a as. m \<in> set (held s j) \<and> rank l \<le> rank m \<and> todo s j = a # as \<and> (\<forall>l'. a = Seize l' \<longrightarrow> enabled N s a)"
proof (induction "5 - rank l" arbitrary: k l rule: less_induct)
  case less
  have C: "cpu_ok s k" by (rule sys_okD(3) [OF s less.prems(1)])
  then have "todo s k \<noteq> []" using less.prems(2) by (auto simp: cpu_ok_def)
  then obtain a as where t: "todo s k = a # as" by (cases "todo s k") auto
  show ?case
  proof (cases "\<exists>l'. a = Seize l' \<and> \<not> enabled N s a")
    case False
    then show ?thesis using less.prems t by blast
  next
    case True
    then obtain l' j where l': "a = Seize l'" "j \<in> N" "l' \<in> set (held s j)" by auto
    have "rank l < rank l'" using cpu_ok_next(1) [OF C t] l'(1) less.prems(2) by auto
    then have "5 - rank l' < 5 - rank l" using rank_bound [of l'] by linarith
    from less.hyps [OF this l'(2,3)] \<open>rank l < rank l'\<close> show ?thesis by (meson le_trans less_imp_le)
  qed
qed

lemma can_act:
  "i \<in> N \<Longrightarrow> todo s i = a # as \<Longrightarrow> enabled N s a \<Longrightarrow> \<exists>s'. work N s s'"
  by (cases "a = Sync") (auto intro: work.intros)

lemma sys_progress:
  assumes s: "sys_ok N s" and i: "i \<in> N" "todo s i \<noteq> []"
  shows "\<exists>s'. work N s s'"
proof -
  note S = sys_okD [OF s]
  obtain a as where t: "todo s i = a # as" using i(2) by (cases "todo s i") auto
  show ?thesis
  proof (cases "pending s = {}")
    case True
    show ?thesis
    proof (cases "enabled N s a")
      case True
      then show ?thesis using can_act i(1) t by blast
    next
      case False
      then obtain l k where "a = Seize l" "k \<in> N" "l \<in> set (held s k)" using \<open>pending s = {}\<close> by (cases a) auto
      from holder_moves [OF s this(2,3)] obtain j b bs where
        j: "j \<in> N" "todo s j = b # bs" "\<forall>l'. b = Seize l' \<longrightarrow> enabled N s b" by blast
      then have "enabled N s b" using \<open>pending s = {}\<close> by (cases b) auto
      then show ?thesis using can_act j by blast
    qed
  next
    case False
    then obtain k bs where k: "k \<in> N" "k \<notin> pending s" "todo s k = Await # bs" using S(5) by blast
    then have tlb: "TlbLock \<in> set (held s k)" using cpu_ok_next(1) [OF S(3)] by force
    obtain j where j: "j \<in> pending s" "j \<in> N" using False S(2) by blast
    show ?thesis
    proof (cases "depth s j = 0")
      case True
      then show ?thesis using work.ack j(1) by blast
    next
      case d: False
      have C: "cpu_ok s j" by (rule S(3) [OF j(2)])
      then obtain b cs where b: "todo s j = b # cs" using d by (cases "todo s j") (auto simp: cpu_ok_def)
      have "b \<noteq> Await"
      proof
        assume "b = Await"
        then have "TlbLock \<in> set (held s j)" using cpu_ok_next(1) [OF C b] by simp
        then show False using S(4) [OF k(1) j(2) tlb] j(1) k(2) by blast
      qed
      show ?thesis
      proof (cases "enabled N s b")
        case True
        then show ?thesis using can_act j(2) b by blast
      next
        case False
        then obtain l n where l: "b = Seize l" "n \<in> N" "l \<in> set (held s n)" using \<open>b \<noteq> Await\<close> by (cases b) auto
        have cl: "critical_lock l" using cpu_ok_next(1) [OF C b] l(1) d by simp
        from holder_moves [OF s l(2,3)] obtain n' m e es where
          n': "n' \<in> N" "m \<in> set (held s n')" "rank l \<le> rank m" "todo s n' = e # es" "\<forall>l'. e = Seize l' \<longrightarrow> enabled N s e"
          by blast
        have "e \<noteq> Await" using cpu_ok_next(1) [OF S(3) [OF n'(1)] n'(4)] n'(2) rank_critical [OF cl n'(3)] by auto
        then have "enabled N s e" using n'(5) by (cases e) auto
        then show ?thesis using can_act n'(1,4) by blast
      qed
    qed
  qed
qed

text \<open>What is left to do shrinks with every step.\<close>

fun weight :: "nat \<Rightarrow> act \<Rightarrow> nat" where
  "weight n Sync = n + 2"
| "weight n _ = 1"

definition left :: "nat set \<Rightarrow> sys \<Rightarrow> nat" where
  "left N s = (\<Sum>i \<in> N. sum_list (map (weight (card N)) (todo s i))) + card (pending s)"

lemma todo_sum:
  assumes "finite N" "i \<in> N"
  shows "(\<Sum>j \<in> N. f (((todo s)(i := as)) j)) + f (todo s i) = (\<Sum>j \<in> N. f (todo s j)) + (f as :: nat)"
  using assms by (simp add: sum.remove [of N i])

lemma work_shrinks: "work N s s' \<Longrightarrow> sys_ok N s \<Longrightarrow> left N s' < left N s"
proof (induction rule: work.induct)
  case (act i s a as)
  note fin = sys_okD(1) [OF act.prems]
  let ?f = "\<lambda>xs. sum_list (map (weight (card N)) xs)"
  have "0 < weight (card N) a" by (cases a) simp_all
  then have "?f as < ?f (todo s i)" using act.hyps(2) by simp
  then show ?case using todo_sum [OF fin act.hyps(1), of ?f s as] by (simp add: left_def)
next
  case (send i s as)
  note fin = sys_okD(1) [OF send.prems]
  let ?f = "\<lambda>xs. sum_list (map (weight (card N)) xs)"
  have "?f (todo s i) = card N + 2 + ?f as" "?f (Await # as) = 1 + ?f as" using send.hyps(2) by simp_all
  moreover have "card (N - {i}) \<le> card N" by (rule card_mono) (auto simp: fin)
  ultimately show ?case using todo_sum [OF fin send.hyps(1), of ?f s "Await # as"] by (simp add: left_def)
next
  case (ack j s)
  have "finite (pending s)" using sys_okD(1,2) [OF ack.prems] finite_subset by blast
  then show ?case using ack.hyps(1) card_gt_0_iff [of "pending s"] by (auto simp: left_def)
qed

lemma sys_completes:
  "sys_ok N s \<Longrightarrow> \<exists>s'. (work N)\<^sup>*\<^sup>* s s' \<and> sys_ok N s' \<and> (\<forall>i \<in> N. todo s' i = [])"
proof (induction "left N s" arbitrary: s rule: less_induct)
  case less
  show ?case
  proof (cases "\<forall>i \<in> N. todo s i = []")
    case True
    then show ?thesis using less.prems by blast
  next
    case False
    then obtain s1 where s1: "work N s s1" using sys_progress [OF less.prems] by blast
    from less.hyps [OF work_shrinks [OF s1 less.prems] work_keeps [OF s1 less.prems]]
    obtain s' where "(work N)\<^sup>*\<^sup>* s1 s'" "sys_ok N s'" "\<forall>i \<in> N. todo s' i = []" by blast
    then show ?thesis using s1 converse_rtranclp_into_rtranclp by metis
  qed
qed

end
