(* ===== verification/LockOrder.thy ===== *)
theory LockOrder
  imports Locks
begin

text \<open>
  What the operations of the kernel do to locks and interrupts, one command per function,
  composed as the functions call each other: the locked and critical scopes, the calls inside
  them and the branches and loops around them. The data that decides a branch or a loop is left
  open, so a command has every behaviour of its function. Segments of the heap are numbered from
  the newest on.
\<close>

section \<open>Physical memory and translation caches\<close>

definition AllocLower_locks :: cmd where
  "AllocLower_locks = Maybe (Locked LowerLock Skip)"

definition Buddy_Alloc_locks :: cmd where
  "Buddy_Alloc_locks = Seq (Maybe (Locked UpperLock Skip)) (Maybe AllocLower_locks)"

definition Buddy_Free_locks :: cmd where
  "Buddy_Free_locks = Choice (Locked UpperLock Skip) (Locked LowerLock Skip)"

definition Buddy_Available_locks :: cmd where
  "Buddy_Available_locks = Seq (Maybe (Locked UpperLock Skip)) (Maybe (Locked LowerLock Skip))"

text \<open>Before Tlb is initialised only the CPU itself is flushed.\<close>

definition DistributeInvlpg_locks :: cmd where
  "DistributeInvlpg_locks = Choice (InCritical Skip) (Locked TlbLock (InCritical (Act Sync)))"

section \<open>Page tables and the kernel's map\<close>

definition Set_locks :: cmd where
  "Set_locks = Loop (Maybe Buddy_Alloc_locks)"

definition SetList_locks :: cmd where
  "SetList_locks = Loop Set_locks"

definition Unset_locks :: cmd where
  "Unset_locks = Loop (Seq DistributeInvlpg_locks Buddy_Free_locks)"

definition GlobalMap_Read_locks :: cmd where
  "GlobalMap_Read_locks = Locked GlobalMapLock Skip"

definition GlobalMap_Map_locks :: cmd where
  "GlobalMap_Map_locks = Locked GlobalMapLock (Maybe SetList_locks)"

definition GlobalMap_MapAt_locks :: cmd where
  "GlobalMap_MapAt_locks = Locked GlobalMapLock (Seq SetList_locks DistributeInvlpg_locks)"

definition GlobalMap_Unmap_locks :: cmd where
  "GlobalMap_Unmap_locks = Locked GlobalMapLock (Seq (Loop Unset_locks) DistributeInvlpg_locks)"

definition GlobalMap_UnmapAndReserve_locks :: cmd where
  "GlobalMap_UnmapAndReserve_locks =
     Locked GlobalMapLock (Seq (Loop Unset_locks) (Seq SetList_locks DistributeInvlpg_locks))"

definition GlobalMap_Reserve_locks :: cmd where
  "GlobalMap_Reserve_locks = Locked GlobalMapLock (Maybe SetList_locks)"

definition GlobalMap_ReserveAt_locks :: cmd where
  "GlobalMap_ReserveAt_locks = Locked GlobalMapLock SetList_locks"

definition GlobalMap_Unreserve_locks :: cmd where
  "GlobalMap_Unreserve_locks = GlobalMap_Unmap_locks"

definition GlobalMap_Rereserve_locks :: cmd where
  "GlobalMap_Rereserve_locks =
     Locked GlobalMapLock (Seq (Loop Unset_locks) (Seq SetList_locks DistributeInvlpg_locks))"

text \<open>The scope of an EasyMap: its constructor, the code that uses it, its destructor.\<close>

definition EasyMap_locks :: "cmd \<Rightarrow> cmd" where
  "EasyMap_locks c = Seq GlobalMap_Map_locks (Seq c GlobalMap_Unmap_locks)"

text \<open>The tables below the PML4 are freed down to three more levels.\<close>

fun FreeTable_locks :: "nat \<Rightarrow> cmd" where
  "FreeTable_locks 0 = Buddy_Free_locks"
| "FreeTable_locks (Suc n) = Seq (EasyMap_locks (Loop (FreeTable_locks n))) Buddy_Free_locks"

definition FreeAndUnmap_locks :: cmd where
  "FreeAndUnmap_locks = Loop (Seq GlobalMap_Read_locks (Seq GlobalMap_Unmap_locks Buddy_Free_locks))"

definition AllocAndMap_locks :: cmd where
  "AllocAndMap_locks = Loop (Seq GlobalMap_Reserve_locks
     (Maybe (Seq (Loop (Seq Buddy_Alloc_locks GlobalMap_MapAt_locks)) (Maybe (Seq Buddy_Alloc_locks FreeAndUnmap_locks)))))"

section \<open>The heap\<close>

text \<open>
  A search through the segments stops at the one that answers; Free and Owns look at the newest
  segment for ever when it does not own the pointer.
\<close>

fun segments_locks :: "nat list \<Rightarrow> cmd" where
  "segments_locks [] = Skip"
| "segments_locks (k # ks) = Seq (Locked (SegmentLock k) Skip) (Maybe (segments_locks ks))"

definition AllocNoNewSegment_locks :: "nat list \<Rightarrow> cmd" where
  "AllocNoNewSegment_locks ks = Seq (Locked FirstLock Skip) (segments_locks ks)"

definition Malloc_Free_locks :: "nat list \<Rightarrow> cmd" where
  "Malloc_Free_locks ks = Seq (Locked FirstLock Skip)
     (case ks of [] \<Rightarrow> Skip | k # _ \<Rightarrow> Loop (Locked (SegmentLock k) Skip))"

definition Malloc_Owns_locks :: "nat list \<Rightarrow> cmd" where
  "Malloc_Owns_locks ks = Seq (Locked FirstLock Skip)
     (case ks of [] \<Rightarrow> Skip | k # _ \<Rightarrow> Loop (Locked (SegmentLock k) Skip))"

definition CreateSegment_locks :: cmd where
  "CreateSegment_locks = Seq AllocAndMap_locks (Maybe (Locked FirstLock Skip))"

text \<open>Other CPUs may have added segments before the second search.\<close>

definition Malloc_Alloc_locks :: "nat list \<Rightarrow> nat list \<Rightarrow> cmd" where
  "Malloc_Alloc_locks ks ks' =
     Maybe (Seq (AllocNoNewSegment_locks ks) (Maybe (Seq CreateSegment_locks (Maybe (AllocNoNewSegment_locks ks')))))"

text \<open>There is one domain, which has no siblings; New and Delete are Alloc and Free here.\<close>

definition Domain_Alloc_locks :: "nat list \<Rightarrow> nat list \<Rightarrow> cmd" where
  "Domain_Alloc_locks ks ks' = Malloc_Alloc_locks ks ks'"

definition Domain_Free_locks :: "nat list \<Rightarrow> cmd" where
  "Domain_Free_locks ks = Seq (Malloc_Owns_locks ks) (Malloc_Free_locks ks)"

section \<open>The map of a process\<close>

definition AllocInRegion_locks :: "nat list \<Rightarrow> nat list \<Rightarrow> cmd" where
  "AllocInRegion_locks ks ks' = Choice (Domain_Free_locks ks) (Maybe (Domain_Alloc_locks ks ks'))"

definition FreeList_Alloc_locks :: "nat list \<Rightarrow> nat list \<Rightarrow> cmd" where
  "FreeList_Alloc_locks ks ks' = Maybe (AllocInRegion_locks ks ks')"

definition FreeList_AllocAt_locks :: "nat list \<Rightarrow> nat list \<Rightarrow> cmd" where
  "FreeList_AllocAt_locks ks ks' = Maybe (AllocInRegion_locks ks ks')"

definition FreeList_Free_locks :: "nat list \<Rightarrow> nat list \<Rightarrow> cmd" where
  "FreeList_Free_locks ks ks' = Choice (Loop (Domain_Free_locks ks)) (Domain_Alloc_locks ks ks')"

definition UserMap_new_locks :: "nat list \<Rightarrow> nat list \<Rightarrow> cmd" where
  "UserMap_new_locks ks ks' = Seq Buddy_Alloc_locks (Seq (EasyMap_locks Skip)
     (Seq (FreeList_Free_locks ks ks') (FreeList_Free_locks ks ks')))"

definition UserMap_del_locks :: "nat list \<Rightarrow> cmd" where
  "UserMap_del_locks ks = Seq (FreeTable_locks 3) (Loop (Domain_Free_locks ks))"

definition UserMap_Read_locks :: "nat \<Rightarrow> cmd" where
  "UserMap_Read_locks m = Locked (UserMapLock m) Skip"

definition UserMap_Map_locks :: "nat \<Rightarrow> nat list \<Rightarrow> nat list \<Rightarrow> cmd" where
  "UserMap_Map_locks m ks ks' = Locked (UserMapLock m) (Seq (FreeList_Alloc_locks ks ks') (Maybe SetList_locks))"

definition UserMap_MapAt_locks :: "nat \<Rightarrow> cmd" where
  "UserMap_MapAt_locks m = Locked (UserMapLock m) (Seq SetList_locks (Maybe DistributeInvlpg_locks))"

definition UserMap_Unmap_locks :: "nat \<Rightarrow> nat list \<Rightarrow> nat list \<Rightarrow> cmd" where
  "UserMap_Unmap_locks m ks ks' = Locked (UserMapLock m)
     (Seq (Loop Unset_locks) (Seq (FreeList_Free_locks ks ks') DistributeInvlpg_locks))"

definition UserMap_UnmapAndReserve_locks :: "nat \<Rightarrow> cmd" where
  "UserMap_UnmapAndReserve_locks m = Locked (UserMapLock m) (Seq (Loop Unset_locks) DistributeInvlpg_locks)"

definition UserMap_Reserve_locks :: "nat \<Rightarrow> nat list \<Rightarrow> nat list \<Rightarrow> cmd" where
  "UserMap_Reserve_locks m ks ks' = Locked (UserMapLock m) (FreeList_Alloc_locks ks ks')"

definition UserMap_ReserveAt_locks :: "nat \<Rightarrow> nat list \<Rightarrow> nat list \<Rightarrow> cmd" where
  "UserMap_ReserveAt_locks m ks ks' = Locked (UserMapLock m) (FreeList_AllocAt_locks ks ks')"

definition UserMap_Unreserve_locks :: "nat \<Rightarrow> nat list \<Rightarrow> nat list \<Rightarrow> cmd" where
  "UserMap_Unreserve_locks m ks ks' = Locked (UserMapLock m) (FreeList_Free_locks ks ks')"

section \<open>Devices\<close>

definition WriteReg_locks :: "nat \<Rightarrow> cmd" where
  "WriteReg_locks k = InCritical (Locked (RegLock k) Skip)"

definition ReadReg_locks :: "nat \<Rightarrow> cmd" where
  "ReadReg_locks k = InCritical (Locked (RegLock k) Skip)"

definition SetEntry_locks :: "nat \<Rightarrow> cmd" where
  "SetEntry_locks k =
     InCritical (Locked (TableLock k) (Seq (WriteReg_locks k) (Seq (WriteReg_locks k) (WriteReg_locks k))))"

definition MapIrq_locks :: "nat \<Rightarrow> cmd" where
  "MapIrq_locks k = Choice (SetEntry_locks k) (SetEntry_locks k)"

definition MaskPin_locks :: "nat \<Rightarrow> cmd" where
  "MaskPin_locks k = InCritical (Locked (TableLock k) (WriteReg_locks k))"

definition MaskIrq_locks :: "nat \<Rightarrow> cmd" where
  "MaskIrq_locks k = Choice (MaskPin_locks k) (MaskPin_locks k)"

definition PrintString_locks :: cmd where
  "PrintString_locks = InCritical (Locked ConsoleLock Skip)"

definition SetColor_locks :: cmd where
  "SetColor_locks = InCritical (Locked ConsoleLock Skip)"

text \<open>Both streams set their colour before they print.\<close>

definition Puts_locks :: cmd where
  "Puts_locks = Seq SetColor_locks PrintString_locks"

section \<open>CPUs\<close>

text \<open>RunAsync is called in a critical section, which is its caller's; \<open>f\<close> is the function it was given.\<close>

definition RunAsync_locks :: "nat \<Rightarrow> cmd" where
  "RunAsync_locks j = Locked (WakeupLock j) Skip"

definition HandleWakeup_locks :: "nat \<Rightarrow> cmd \<Rightarrow> cmd" where
  "HandleWakeup_locks j f = Seq (Locked (WakeupLock j) Skip) (Maybe f)"

definition Cpu_new_locks :: "nat list \<Rightarrow> nat list \<Rightarrow> cmd" where
  "Cpu_new_locks ks ks' = Seq (InCritical Skip) (Seq (Domain_Alloc_locks ks ks') (InCritical Skip))"

text \<open>
  The CPU that starts others leaves its critical section for every wait; the CPU that is started
  sets up its own structures while it holds initLock.
\<close>

definition BootstrapCpu_locks :: cmd where
  "BootstrapCpu_locks = InCritical (Maybe (Seq (Loop Puts_locks) (Seq (Act Sti) (Seq (Act Cli)
     (Seq (Loop (Loop (Seq (Act Sti) (Seq (Act Cli) (Locked InitLock Skip))))) (Loop Puts_locks))))))"

definition CpuStall_locks :: cmd where
  "CpuStall_locks = Seq (Loop Puts_locks) (Seq (Act (Release InitLock)) (Act Sti))"

definition CpuEntrance_locks :: "nat list \<Rightarrow> nat list \<Rightarrow> cmd" where
  "CpuEntrance_locks ks ks' = Seq (Act (Seize InitLock)) (Seq (Act Sti)
     (Seq (Cpu_new_locks ks ks') (Seq (Act Cli) CpuStall_locks)))"

section \<open>The discipline\<close>

text \<open>The operations of the library that take locks, as a caller outside critical sections may call them.\<close>

inductive kernel_op :: "cmd \<Rightarrow> bool" where
  "kernel_op Buddy_Alloc_locks" | "kernel_op Buddy_Free_locks" | "kernel_op Buddy_Available_locks"
| "kernel_op AllocLower_locks" | "kernel_op DistributeInvlpg_locks"
| "kernel_op GlobalMap_Read_locks" | "kernel_op GlobalMap_Map_locks" | "kernel_op GlobalMap_MapAt_locks"
| "kernel_op GlobalMap_Unmap_locks" | "kernel_op GlobalMap_UnmapAndReserve_locks" | "kernel_op GlobalMap_Reserve_locks"
| "kernel_op GlobalMap_ReserveAt_locks" | "kernel_op GlobalMap_Unreserve_locks" | "kernel_op GlobalMap_Rereserve_locks"
| "kernel_op (EasyMap_locks Skip)" | "kernel_op AllocAndMap_locks" | "kernel_op FreeAndUnmap_locks"
| "kernel_op (Domain_Alloc_locks ks ks')" | "kernel_op (Domain_Free_locks ks)"
| "kernel_op (UserMap_new_locks ks ks')" | "kernel_op (UserMap_del_locks ks)" | "kernel_op (UserMap_Read_locks m)"
| "kernel_op (UserMap_Map_locks m ks ks')" | "kernel_op (UserMap_MapAt_locks m)" | "kernel_op (UserMap_Unmap_locks m ks ks')"
| "kernel_op (UserMap_UnmapAndReserve_locks m)" | "kernel_op (UserMap_Reserve_locks m ks ks')"
| "kernel_op (UserMap_ReserveAt_locks m ks ks')" | "kernel_op (UserMap_Unreserve_locks m ks ks')"
| "kernel_op (WriteReg_locks k)" | "kernel_op (ReadReg_locks k)" | "kernel_op (MapIrq_locks k)" | "kernel_op (MaskIrq_locks k)"
| "kernel_op Puts_locks" | "kernel_op PrintString_locks" | "kernel_op SetColor_locks" | "kernel_op (InCritical (RunAsync_locks j))"
| "kernel_op (Cpu_new_locks ks ks')" | "kernel_op BootstrapCpu_locks"

definition below :: "nat \<Rightarrow> lock list \<Rightarrow> bool" where
  "below r H \<longleftrightarrow> (\<forall>h \<in> set H. rank h < r)"

lemma below_simps [simp]: "below r []" "below r (l # H) \<longleftrightarrow> rank l < r \<and> below r H"
  by (simp_all add: below_def)

lemma belowD [dest]: "below r H \<Longrightarrow> h \<in> set H \<Longrightarrow> rank h < r"
  by (simp add: below_def)

lemma below_mono: "below r H \<Longrightarrow> r \<le> r' \<Longrightarrow> below r' H"
  unfolding below_def by fastforce

lemma below_noncritical: "below r H \<Longrightarrow> r \<le> 3 \<Longrightarrow> h \<in> set H \<Longrightarrow> \<not> critical_lock h"
  by (cases h) (auto simp: below_def)

text \<open>Taking a lock that is not critical, outside critical sections.\<close>

lemma balanced_lock:
  "\<not> critical_lock l \<Longrightarrow> below (rank l) H \<Longrightarrow> balanced c (l # H, 0) \<Longrightarrow> balanced (Locked l c) (H, 0)"
  by (rule balanced_Locked) (auto simp: below_def)

lemmas leaf_intros = balanced_Skip balanced_Seq balanced_Choice balanced_Loop balanced_lock

lemma balanced_buddy:
  assumes "below 2 H"
  shows "balanced AllocLower_locks (H, 0)" "balanced Buddy_Alloc_locks (H, 0)" "balanced Buddy_Free_locks (H, 0)"
    "balanced Buddy_Available_locks (H, 0)"
  using assms unfolding AllocLower_locks_def Buddy_Alloc_locks_def Buddy_Free_locks_def Buddy_Available_locks_def
  by (auto intro!: leaf_intros)

lemma balanced_DistributeInvlpg:
  assumes "below 2 H"
  shows "balanced DistributeInvlpg_locks (H, 0)"
proof -
  have "\<not> critical_lock h" if "h \<in> set H" for h using below_noncritical [OF assms _ that] by simp
  then have "balanced (InCritical (Act Sync)) (TlbLock # H, 0)" "balanced (InCritical Skip) (H, 0)"
    by (auto simp: balanced_def InCritical_def)
  then show ?thesis using assms unfolding DistributeInvlpg_locks_def by (auto intro!: leaf_intros)
qed

lemma balanced_table:
  assumes "below 2 H"
  shows "balanced Set_locks (H, 0)" "balanced SetList_locks (H, 0)" "balanced Unset_locks (H, 0)"
  using balanced_buddy [OF assms] balanced_DistributeInvlpg [OF assms]
  unfolding SetList_locks_def Set_locks_def Unset_locks_def by (auto intro!: leaf_intros)

lemma balanced_GlobalMap:
  assumes "below 1 H"
  shows "balanced GlobalMap_Read_locks (H, 0)" "balanced GlobalMap_Map_locks (H, 0)" "balanced GlobalMap_MapAt_locks (H, 0)"
    "balanced GlobalMap_Unmap_locks (H, 0)" "balanced GlobalMap_UnmapAndReserve_locks (H, 0)"
    "balanced GlobalMap_Reserve_locks (H, 0)" "balanced GlobalMap_ReserveAt_locks (H, 0)"
    "balanced GlobalMap_Unreserve_locks (H, 0)" "balanced GlobalMap_Rereserve_locks (H, 0)"
proof -
  have "below 2 (GlobalMapLock # H)" using below_mono [OF assms] by simp
  note t = balanced_table [OF this] balanced_DistributeInvlpg [OF this]
  show "balanced GlobalMap_Read_locks (H, 0)" "balanced GlobalMap_Map_locks (H, 0)" "balanced GlobalMap_MapAt_locks (H, 0)"
    "balanced GlobalMap_Unmap_locks (H, 0)" "balanced GlobalMap_UnmapAndReserve_locks (H, 0)"
    "balanced GlobalMap_Reserve_locks (H, 0)" "balanced GlobalMap_ReserveAt_locks (H, 0)"
    "balanced GlobalMap_Unreserve_locks (H, 0)" "balanced GlobalMap_Rereserve_locks (H, 0)"
    using assms t unfolding GlobalMap_Read_locks_def GlobalMap_Map_locks_def GlobalMap_MapAt_locks_def GlobalMap_Unmap_locks_def
      GlobalMap_UnmapAndReserve_locks_def GlobalMap_Reserve_locks_def GlobalMap_ReserveAt_locks_def
      GlobalMap_Unreserve_locks_def GlobalMap_Rereserve_locks_def
    by (auto intro!: leaf_intros)
qed

lemma balanced_memory:
  assumes "below 1 H"
  shows "balanced c (H, 0) \<Longrightarrow> balanced (EasyMap_locks c) (H, 0)" "balanced (FreeTable_locks n) (H, 0)"
    "balanced FreeAndUnmap_locks (H, 0)" "balanced AllocAndMap_locks (H, 0)"
proof -
  note G = balanced_GlobalMap [OF assms] and B = balanced_buddy [OF below_mono [OF assms, of 2]]
  show E: "balanced (EasyMap_locks c) (H, 0)" if "balanced c (H, 0)" for c
    using that G unfolding EasyMap_locks_def by (auto intro!: leaf_intros)
  show "balanced (FreeTable_locks n) (H, 0)" by (induction n) (use B in \<open>auto intro!: leaf_intros E\<close>)
  show F: "balanced FreeAndUnmap_locks (H, 0)" using G B unfolding FreeAndUnmap_locks_def by (auto intro!: leaf_intros)
  show "balanced AllocAndMap_locks (H, 0)" using F G B unfolding AllocAndMap_locks_def by (auto intro!: leaf_intros)
qed

lemma balanced_segments: "below 2 H \<Longrightarrow> balanced (segments_locks ks) (H, 0)"
  by (induction ks) (auto intro!: leaf_intros)

lemma balanced_heap:
  assumes "below 1 H"
  shows "balanced (Malloc_Alloc_locks ks ks') (H, 0)" "balanced (Domain_Alloc_locks ks ks') (H, 0)"
    "balanced (Domain_Free_locks ks) (H, 0)"
proof -
  have b: "below 2 H" using below_mono [OF assms] by simp
  note S = balanced_segments [OF b] and A = balanced_memory(4) [OF assms]
  show M: "balanced (Malloc_Alloc_locks ks ks') (H, 0)"
    using b S A unfolding Malloc_Alloc_locks_def AllocNoNewSegment_locks_def CreateSegment_locks_def by (auto intro!: leaf_intros)
  show "balanced (Domain_Alloc_locks ks ks') (H, 0)" using M by (simp add: Domain_Alloc_locks_def)
  show "balanced (Domain_Free_locks ks) (H, 0)"
    using b unfolding Domain_Free_locks_def Malloc_Owns_locks_def Malloc_Free_locks_def
    by (cases ks) (auto intro!: leaf_intros)
qed

lemma balanced_FreeList:
  assumes "below 1 H"
  shows "balanced (FreeList_Alloc_locks ks ks') (H, 0)" "balanced (FreeList_AllocAt_locks ks ks') (H, 0)"
    "balanced (FreeList_Free_locks ks ks') (H, 0)"
  using balanced_heap [OF assms]
  unfolding FreeList_Alloc_locks_def FreeList_AllocAt_locks_def FreeList_Free_locks_def AllocInRegion_locks_def
  by (auto intro!: leaf_intros)

lemma balanced_UserMap:
  "balanced (UserMap_new_locks ks ks') ([], 0)" "balanced (UserMap_del_locks ks) ([], 0)" "balanced (UserMap_Read_locks m) ([], 0)"
  "balanced (UserMap_Map_locks m ks ks') ([], 0)" "balanced (UserMap_MapAt_locks m) ([], 0)"
  "balanced (UserMap_Unmap_locks m ks ks') ([], 0)" "balanced (UserMap_UnmapAndReserve_locks m) ([], 0)"
  "balanced (UserMap_Reserve_locks m ks ks') ([], 0)" "balanced (UserMap_ReserveAt_locks m ks ks') ([], 0)"
  "balanced (UserMap_Unreserve_locks m ks ks') ([], 0)"
  unfolding UserMap_new_locks_def UserMap_del_locks_def UserMap_Read_locks_def UserMap_Map_locks_def UserMap_MapAt_locks_def
    UserMap_Unmap_locks_def UserMap_UnmapAndReserve_locks_def UserMap_Reserve_locks_def UserMap_ReserveAt_locks_def
    UserMap_Unreserve_locks_def
  by (auto intro!: leaf_intros balanced_buddy balanced_memory balanced_FreeList balanced_heap balanced_table balanced_DistributeInvlpg)

lemmas device_defs = WriteReg_locks_def ReadReg_locks_def SetEntry_locks_def MapIrq_locks_def MaskPin_locks_def MaskIrq_locks_def
  PrintString_locks_def SetColor_locks_def Puts_locks_def RunAsync_locks_def BootstrapCpu_locks_def InCritical_def Locked_def

lemma balanced_devices:
  "balanced (WriteReg_locks k) ([], 0)" "balanced (ReadReg_locks k) ([], 0)" "balanced (MapIrq_locks k) ([], 0)"
  "balanced (MaskIrq_locks k) ([], 0)" "balanced Puts_locks ([], 0)" "balanced PrintString_locks ([], 0)" "balanced SetColor_locks ([], 0)"
  "balanced (InCritical (RunAsync_locks j)) ([], 0)" "balanced BootstrapCpu_locks ([], 0)"
  by (simp_all add: balanced_def device_defs)

lemma kernel_op_balanced: "kernel_op c \<Longrightarrow> balanced c ([], 0)"
  by (induction rule: kernel_op.induct)
    (auto simp: Cpu_new_locks_def intro!: leaf_intros balanced_InCritical balanced_buddy balanced_DistributeInvlpg
      balanced_GlobalMap balanced_memory balanced_heap balanced_UserMap balanced_devices)

text \<open>The wakeup handler runs on any locks of the interrupted code, when its function does.\<close>

lemma HandleWakeup_critical:
  assumes "runs_critical f"
  shows "runs_critical (HandleWakeup_locks j f)"
  unfolding runs_critical_def
proof (intro allI impI)
  fix H assume H: "\<forall>h \<in> set H. \<not> critical_lock h"
  have "rank h < rank (WakeupLock j)" if "h \<in> set H" for h using H that by (cases h) auto
  then show "balanced (HandleWakeup_locks j f) (H, 1)"
    using assms H unfolding HandleWakeup_locks_def runs_critical_def
    by (intro balanced_Seq balanced_Choice balanced_Locked balanced_Skip) auto
qed

text \<open>A CPU that is being started does not keep the discipline: it leaves its critical section with initLock.\<close>

lemma CpuEntrance_undisciplined: "check (CpuEntrance_locks ks ks') ([], 1) = None"
  by (simp add: CpuEntrance_locks_def)

section \<open>No deadlock\<close>

text \<open>CPUs that are about to run operations of the library, one after the other.\<close>

definition started :: "nat set \<Rightarrow> sys \<Rightarrow> bool" where
  "started N s \<longleftrightarrow> finite N \<and> pending s = {} \<and> (\<forall>i \<in> N. held s i = [] \<and> depth s i = 0
     \<and> (\<exists>cs. (\<forall>c \<in> set cs. kernel_op c) \<and> trace (foldr Seq cs Skip) (todo s i)))"

lemma started_ok:
  assumes "started N s"
  shows "sys_ok N s"
proof -
  have "balanced (foldr Seq cs Skip) ([], 0)" if "\<forall>c \<in> set cs. kernel_op c" for cs
    using that by (induction cs) (auto intro: balanced_Skip balanced_Seq kernel_op_balanced)
  then have "run_acts (todo s i) ([], 0) = Some ([], 0)" if "i \<in> N" for i
    using assms that check_trace unfolding started_def balanced_def by blast
  then show ?thesis using assms by (simp add: started_def sys_ok_def cpu_ok_def)
qed

text \<open>What the record of theory Critical says of a CPU at a depth of critical sections.\<close>

definition cpu_crit :: "nat \<Rightarrow> crit" where
  "cpu_crit d = \<lparr>crit_initialized = True, rflags = (if 0 < d then 2 else 0x202)\<rparr>"


text \<open>CPU 0 waits for CPU 1 with the locks of the map and of Tlb, while CPU 1 writes to an I/O APIC.\<close>

definition ex_sys :: sys where
  "ex_sys = \<lparr>todo = (\<lambda>i. if i = 0 then [Seize GlobalMapLock, Seize TlbLock, Cli, Sync, Sti, Release TlbLock, Release GlobalMapLock]
       else [Cli, Seize (RegLock 0), Release (RegLock 0), Sti]),
     held = (\<lambda>_. []), depth = (\<lambda>_. 0), pending = {}\<rparr>"

lemma ex_started: "started {0, 1} ex_sys"
proof -
  have L: "trace (Locked l c) (Seize l # as @ [Release l])" if "trace c as" for l c as
    using trace_Seq [OF trace_Act trace_Seq [OF that trace_Act]] by (simp add: Locked_def)
  have C: "trace (InCritical c) (Cli # as @ [Sti])" if "trace c as" for c as
    using trace_Seq [OF trace_Act trace_Seq [OF that trace_Act]] by (simp add: InCritical_def)
  have "trace DistributeInvlpg_locks [Seize TlbLock, Cli, Sync, Sti, Release TlbLock]"
    using L [OF C [OF trace_Act]] trace_Choice2 unfolding DistributeInvlpg_locks_def by fastforce
  then have "trace (Seq SetList_locks DistributeInvlpg_locks) [Seize TlbLock, Cli, Sync, Sti, Release TlbLock]"
    using trace_Seq [OF trace_Loop0] unfolding SetList_locks_def by fastforce
  from L [OF this] have "trace GlobalMap_MapAt_locks (todo ex_sys 0)" by (simp add: GlobalMap_MapAt_locks_def ex_sys_def)
  then have "trace (foldr Seq [GlobalMap_MapAt_locks] Skip) (todo ex_sys 0)" using trace_Seq [OF _ trace_Skip] by fastforce
  moreover have "trace (WriteReg_locks 0) (todo ex_sys 1)"
    using C [OF L [OF trace_Skip]] by (simp add: WriteReg_locks_def ex_sys_def)
  then have "trace (foldr Seq [WriteReg_locks 0] Skip) (todo ex_sys 1)" using trace_Seq [OF _ trace_Skip] by fastforce
  moreover have "kernel_op GlobalMap_MapAt_locks" "kernel_op (WriteReg_locks 0)" by (auto intro: kernel_op.intros)
  ultimately have "\<exists>cs. (\<forall>c \<in> set cs. kernel_op c) \<and> trace (foldr Seq cs Skip) (todo ex_sys i)" if "i \<in> {0, 1}" for i
    using that by (auto intro: exI [of _ "[GlobalMap_MapAt_locks]"] exI [of _ "[WriteReg_locks 0]"])
  then show ?thesis by (auto simp: started_def ex_sys_def)
qed

lemma reach_act:
  "sys_reach N s0 s \<Longrightarrow> i \<in> N \<Longrightarrow> todo s i = a # as \<Longrightarrow> a \<noteq> Sync \<Longrightarrow> enabled N s a \<Longrightarrow> sys_reach N s0 (act_step i a as s)"
  by (rule reach_work [OF _ work.act])


end
