(* ===== verification/Spec2Isabelle.thy ===== *)
theory Spec2Isabelle
  imports BuddyProps GlobalMapProps FreeListProps MemoryProps TlbProps Apic UserMap IOApic Console Malloc
    Syscalls Clocks SmpProps KernelMapProps Modules LockOrder
begin

text \<open>
  anarch is the kernel library of an x86-64 exokernel: it takes the machine from the boot
  loader, owns physical memory, the kernel's and the processes' address spaces, the
  interrupt hardware and the CPUs, and offers them to a kernel through the interfaces of
  \<^verbatim>\<open>src/arch/api\<close>. This development models that library from its C++ code and proves what its
  parts promise to each other. File names below are relative to \<^verbatim>\<open>src/\<close> of the repository.

  \<^bold>\<open>How the program is put together.\<close> The boot code hands over the memory map
  (MultibootRegionList); the step allocator carves the first page tables out of it
  (MapSetup), which identify low memory and hang the PML4 into its own last slot (the
  fractal mapping). Every later access to a page table goes through that window. GlobalMap
  then owns the kernel's half of the address space, with FreeFinder choosing addresses in
  it; the buddy allocator takes over physical memory; EasyMap, PhysCopy and the mapping
  methods of Allocator build on both, Malloc builds the heap on those, and the domains, the
  threads' states and the CPUs live in that heap. UserMap gives a process its own table,
  which shares the kernel's PDPT, with FreeList choosing the addresses. A change of a table
  ends in Tlb::DistributeInvlpg, which interrupts the other CPUs through the local APIC;
  interrupts come back through the IDT and the routine table to the handlers of Isr.

  \<^bold>\<open>Conventions.\<close> An integer has its width (\<^typ>\<open>64 word\<close>, \<^typ>\<open>32 word\<close>, ...), so additions
  wrap as in C++; pointers and addresses are 64-bit words. Every operation takes the state
  it reads and returns the state it leaves, in the sum type \<open>'a res\<close>: \<open>Inl\<close> is a call of
  Panic, a failed assertion, a hardware fault or a division by zero, with its message, and
  \<open>Inr\<close> the result. Assertions are checked where the code checks them, those about critical
  sections on the record \<open>crit\<close> included. A method of a class takes the object's record
  first, a virtual method of a class that is not fixed is a field of a record of operations,
  and a lock makes the operation under it one step (theory LockOrder has the steps between). Output that is only printed is left out.

  \<^bold>\<open>Theories and what they model.\<close>

  \<^item> Prelude: \<open>u8\<close> to \<open>u64\<close> (\<^verbatim>\<open>arch/x64/include/types.hpp\<close>), faults, error passing, words, masks.
  \<^item> Critical: \<^verbatim>\<open>arch/x64/critical/functions.cpp\<close>, \<^verbatim>\<open>util/critical.cpp\<close>. The interrupt flag
    and whether the module is initialised; a scoped section restores them.
  \<^item> Locks, LockOrder: \<^verbatim>\<open>util/lock.cpp\<close>, and what every function that takes locks does to locks and
    interrupts, as commands (\<open>cmd\<close>) composed the way the functions call each other. The commands
    keep the order \<open>rank\<close> of the locks, so a system of CPUs that run them (\<open>sys\<close>, \<open>work\<close>,
    interrupts and the acknowledgements of Tlb included) can always run to the end.
  \<^item> Allocator: \<^verbatim>\<open>arch/api/allocator.hpp\<close> as a record, with the contracts \<open>page_source\<close> and
    \<open>page_pool\<close> as locales: the frames handed out are aligned, fresh, and stay taken until
    freed. The step allocator and the buddy allocator interpret them.
  \<^item> Regions, StepAllocator, BuddyAllocator, BuddyProps: \<^verbatim>\<open>arch/x64/public/*region-list.cpp\<close>,
    \<^verbatim>\<open>arch/x64/pmm\<close>. The region list covers the usable memory split at 4 GB; the blocks of
    the step allocator are disjoint; a page of the buddy allocator returns to its cluster.
  \<^item> Mmu: the processor's four-level page walk over physical memory, and the tree of tables
    as paths of indexes. PageTable: \<^verbatim>\<open>arch/x64/vmm/page-table.cpp\<close>, every access through the
    fractal window and so through the walk. PageTableProofs, PageTableRead, TableFrames,
    PageTableSet, UnsetProofs, Spans, SetListProofs, PageTableProps: the window reaches
    exactly the entries of the tree; Walk and Read agree with the processor; Set, SetList and
    Unset change the translation of their pages and no other, and keep the tree well formed
    (\<open>pt_inv\<close>) whatever they allocate and free on the way.
  \<^item> FreeFinder, FreeFinderProofs, GlobalMap, GlobalMapProofs, GlobalMapProps:
    \<^verbatim>\<open>arch/x64/vmm/global\<close>. The search for free addresses ends and answers unmapped ones; Map,
    MapAt and Reserve keep the invariant \<open>gm_ok\<close> and do what they say.
  \<^item> Boot, BootProofs: \<^verbatim>\<open>map-setup.cpp\<close>, \<^verbatim>\<open>global-malloc.cpp\<close>, \<^verbatim>\<open>arch/x64/public/init.cpp\<close>. The
    first tables are the identity map of the reserved memory and satisfy \<open>gm_ok\<close>.
  \<^item> Leaves, TableOwners: the page that holds an address (\<open>leaf\<close>, reserved pages included, which
    the processor does not see) and who keeps each table in use, for every operation of PageTable.
  \<^item> KernelMap, KernelMapProofs: the kernel's address space as an abstract map \<open>kspace\<close> from addresses
    to pages (\<open>view\<close> reads it off a machine), the operations of GlobalMap as requests \<open>map_op\<close> with
    their bounds \<open>op_allowed\<close> and their promise \<open>op_spec\<close>, and the invariant \<open>kmap_ok\<close>: \<open>gm_ok\<close>, every table
    owned by the allocator or kept in use by a set \<open>K\<close> of addresses that stay mapped.
  \<^item> BootAlloc, BootMap, BootStart, KernelMapProps: the step allocator as the locale \<open>boot_source\<close>
    (it cannot free), AllocAndMap on it, and GlobalMap::Initialize as a whole up to the buddy
    allocator taking over: it stops by a fault of its own or establishes \<open>kmap_ok\<close>, which every
    allowed operation then keeps (\<open>map_reach\<close>).
  \<^item> EasyMap, EasyMapProofs, MemoryProps: \<^verbatim>\<open>memory/easy-map.cpp\<close>, \<^verbatim>\<open>memory/phys-copy.cpp\<close>,
    \<^verbatim>\<open>arch/api/allocator.cpp\<close>. Temporary mappings show the physical range; AllocAndMap backs
    its chunk with fresh frames.
  \<^item> FreeList, FreeListProofs, FreeListProps, UserMap: \<^verbatim>\<open>arch/x64/vmm/user\<close>. The free list as a
    set of addresses; the address space of a process.
  \<^item> Tlb, TlbProps: \<^verbatim>\<open>arch/x64/vmm/tlb.cpp\<close>. One CPU's flushes, and the protocol between the
    CPUs as a step relation \<open>sd_step\<close> whose steps are the iterations of the sending loop, the
    interrupt handlers and TLB fills, in any order.
  \<^item> Hardware: \<^verbatim>\<open>arch/x64/common.cpp\<close>, \<^verbatim>\<open>pic.cpp\<close>, \<^verbatim>\<open>local-segment.cpp\<close>. Segments: \<^verbatim>\<open>gdt.cpp\<close>,
    \<^verbatim>\<open>tss.cpp\<close>, \<^verbatim>\<open>short-descriptor.cpp\<close>. Interrupts: \<^verbatim>\<open>idt.cpp\<close>, \<^verbatim>\<open>irt.cpp\<close>, \<^verbatim>\<open>isr.cpp\<close>; the thunks
    are machine code, run by \<open>x86_run\<close>.
  \<^item> Apic, IOApic, Acpi: \<^verbatim>\<open>arch/x64/interrupts/apic\<close>, \<^verbatim>\<open>arch/x64/acpi\<close>. Both local APICs
    interpret the locale \<open>lapic\<close>; the ACPI tables are bytes of physical memory.
  \<^item> Console, Malloc, Smp, SmpProps, Syscalls, Clocks, Modules: \<^verbatim>\<open>text-console.cpp\<close>,
    \<^verbatim>\<open>util/stream.cpp\<close>, \<^verbatim>\<open>panic.cpp\<close>; \<^verbatim>\<open>memory/malloc.cpp\<close>; \<^verbatim>\<open>arch/x64/smp\<close> and
    \<^verbatim>\<open>arch/x64/domains\<close>; \<^verbatim>\<open>arch/x64/syscall\<close> and \<^verbatim>\<open>arch/x64/state\<close>; \<^verbatim>\<open>arch/x64/clock\<close> and
    \<^verbatim>\<open>arch/x64/timer\<close>; the dependencies of all modules.

  \<^bold>\<open>Loops, bounds and fuel.\<close> The walks take at most four levels, and \<open>Walk_loop\<close>, \<open>Set_loop\<close>,
  \<open>Unset_find\<close> and \<open>Unset_free\<close> recurse on the levels left; \<open>table_used\<close> reads 512 entries;
  the loops over a page count recurse on it. The finder's loops are proved to terminate by
  the addresses left below the end of the kernel's half. \<open>map_loop\<close> of the first tables stops
  at the end of its one PDPT, after 512 * 512 pages. Looking for a pin tries the 0x100 pins
  an I/O APIC can have. A thunk runs seven instructions at most. Loops that the code does not bound are
  \<^verbatim>\<open>partial_function\<close> in the option monad, \<open>None\<close> being a loop that never ends: \<open>invlpg_loop\<close>,
  \<open>mmap_loop\<close>, \<open>segment_loop\<close>, \<open>do_iterate\<close>, \<open>wait_loop\<close>; what is claimed of them includes that
  they return, or that they do not.

  \<^bold>\<open>Code that is not part of the repository.\<close> The ANAlloc clusters and region lists, the
  allocator of a heap segment, the rational numbers and the locks of ansa, the C library's
  Memcpy, and the tables the firmware leaves are arguments of the definitions that use them.
  What the code relies on is stated as named hypotheses (\<open>analloc_ok\<close>, \<open>cluster_ok\<close>, \<open>clusters_ok\<close>), and a
  concrete instance satisfies them beside each property.

  \<^bold>\<open>Not modelled.\<close> The insides of ansa::OrderedLock and of the NoncriticalLock that the user of
  the library provides: a lock is free or held. The singletons that place one object of a class: the model
  passes the object. The assembly files (interrupt, system call and processor entry): their
  addresses or bytes are arguments. What a CPU does after it is started, and waits for other
  CPUs outside the TLB protocol. Printing. The unit tests.
\<close>

end
